(* ===== verification/Kingbus_Prelude.thy ===== *)
theory Kingbus_Prelude
  imports Main "HOL-Library.Word" "HOL-Library.List_Lexorder" "HOL-Library.Char_ord"
begin

text \<open>
  The prelude of the kingbus development: names for Go's machine types, the outcome of a Go call
  (a value, an error value, or a panic / fatal exit), Go slices, the fixed-width encodings of
  \<^verbatim>\<open>encoding/binary\<close>, the IEEE CRC-32 of \<^verbatim>\<open>hash/crc32\<close>, and the generic facts the components share.
\<close>

unbundle bit_operations_syntax

section \<open>Machine types and outcomes\<close>

type_synonym byte = "8 word"
type_synonym u16 = "16 word"
type_synonym u32 = "32 word"
type_synonym u64 = "64 word"
type_synonym bytes = "byte list"

text \<open>
  A Go call returns a value, returns a non-nil \<^verbatim>\<open>error\<close>, or does not return at all because the
  process dies (a run-time panic, \<^verbatim>\<open>log.Fatalf\<close>, \<^verbatim>\<open>log.Panicf\<close>).
\<close>

datatype ('e, 'a) outcome = Ok 'a | Err 'e | Crash

definition obind :: "('e, 'a) outcome \<Rightarrow> ('a \<Rightarrow> ('e, 'b) outcome) \<Rightarrow> ('e, 'b) outcome" where
  "obind r f = (case r of Ok a \<Rightarrow> f a | Err e \<Rightarrow> Err e | Crash \<Rightarrow> Crash)"

lemma obind_simps [simp]:
  "obind (Ok a) f = f a"
  "obind (Err e) f = Err e"
  "obind Crash f = Crash"
  by (simp_all add: obind_def)

lemma obind_eq_Ok: "obind r f = Ok b \<longleftrightarrow> (\<exists>a. r = Ok a \<and> f a = Ok b)"
  by (cases r) simp_all

definition is_ok :: "('e, 'a) outcome \<Rightarrow> bool" where
  "is_ok r \<longleftrightarrow> (case r of Ok _ \<Rightarrow> True | _ \<Rightarrow> False)"

lemma is_ok_simps [simp]: "is_ok (Ok a)" "\<not> is_ok (Err e)" "\<not> is_ok Crash"
  by (simp_all add: is_ok_def)

lemma is_ok_iff: "is_ok r \<longleftrightarrow> (\<exists>a. r = Ok a)"
  by (cases r) simp_all

text \<open>The value of an optional read, where the code panics without one.\<close>

definition must :: "'a option \<Rightarrow> ('e, 'a) outcome" where
  "must r = (case r of None \<Rightarrow> Crash | Some a \<Rightarrow> Ok a)"

lemma must_simps [simp]: "must None = Crash" "must (Some a) = Ok a"
  by (simp_all add: must_def)

section \<open>Slices and indexing\<close>

text \<open>
  \<^verbatim>\<open>s[i:j]\<close> and \<^verbatim>\<open>s[i]\<close>; \<^const>\<open>None\<close> is the run-time panic of an index out of range.
\<close>

definition slice :: "'a list \<Rightarrow> nat \<Rightarrow> nat \<Rightarrow> 'a list option" where
  "slice xs i j = (if i \<le> j \<and> j \<le> length xs then Some (take (j - i) (drop i xs)) else None)"

definition index :: "'a list \<Rightarrow> nat \<Rightarrow> 'a option" where
  "index xs i = (if i < length xs then Some (xs ! i) else None)"

text \<open>\<^verbatim>\<open>copy(s[i:i+len(d)], d)\<close>; \<^const>\<open>None\<close> when the slice expression panics.\<close>

definition overwrite :: "'a list \<Rightarrow> nat \<Rightarrow> 'a list \<Rightarrow> 'a list option" where
  "overwrite xs i d =
     (if i + length d \<le> length xs then Some (take i xs @ d @ drop (i + length d) xs) else None)"

lemma slice_eq_Some:
  "slice xs i j = Some ys \<longleftrightarrow> i \<le> j \<and> j \<le> length xs \<and> ys = take (j - i) (drop i xs)"
  by (auto simp: slice_def)

lemma slice_append_mid:
  "i = length xs \<Longrightarrow> j = i + length ys \<Longrightarrow> slice (xs @ ys @ zs) i j = Some ys"
  by (simp add: slice_def)

lemma length_overwrite: "overwrite xs i d = Some ys \<Longrightarrow> length ys = length xs"
  by (auto simp: overwrite_def split: if_splits)

section \<open>Fixed-width encodings\<close>

text \<open>\<^verbatim>\<open>binary.LittleEndian.PutUint16/32/64\<close> and \<^verbatim>\<open>Uint16/32/64\<close>; a short slice panics.\<close>

definition le16 :: "u16 \<Rightarrow> bytes" where
  "le16 v = [ucast v, ucast (drop_bit 8 v)]"

definition le32 :: "u32 \<Rightarrow> bytes" where
  "le32 v = [ucast v, ucast (drop_bit 8 v), ucast (drop_bit 16 v), ucast (drop_bit 24 v)]"

definition le64 :: "u64 \<Rightarrow> bytes" where
  "le64 v = [ucast v, ucast (drop_bit 8 v), ucast (drop_bit 16 v), ucast (drop_bit 24 v),
             ucast (drop_bit 32 v), ucast (drop_bit 40 v), ucast (drop_bit 48 v),
             ucast (drop_bit 56 v)]"

definition be64 :: "u64 \<Rightarrow> bytes" where
  "be64 v = rev (le64 v)"

fun get_le16 :: "bytes \<Rightarrow> u16 option" where
  "get_le16 (b0 # b1 # _) = Some (ucast b0 OR push_bit 8 (ucast b1))"
| "get_le16 _ = None"

fun get_le32 :: "bytes \<Rightarrow> u32 option" where
  "get_le32 (b0 # b1 # b2 # b3 # _) =
     Some (ucast b0 OR push_bit 8 (ucast b1) OR push_bit 16 (ucast b2) OR push_bit 24 (ucast b3))"
| "get_le32 _ = None"

fun get_le64 :: "bytes \<Rightarrow> u64 option" where
  "get_le64 (b0 # b1 # b2 # b3 # b4 # b5 # b6 # b7 # _) =
     Some (ucast b0 OR push_bit 8 (ucast b1) OR push_bit 16 (ucast b2) OR push_bit 24 (ucast b3)
       OR push_bit 32 (ucast b4) OR push_bit 40 (ucast b5) OR push_bit 48 (ucast b6)
       OR push_bit 56 (ucast b7))"
| "get_le64 _ = None"

fun get_be64 :: "bytes \<Rightarrow> u64 option" where
  "get_be64 (b7 # b6 # b5 # b4 # b3 # b2 # b1 # b0 # _) =
     get_le64 [b0, b1, b2, b3, b4, b5, b6, b7]"
| "get_be64 _ = None"

lemma length_le [simp]:
  "length (le16 a) = 2" "length (le32 b) = 4" "length (le64 c) = 8" "length (be64 c) = 8"
  by (simp_all add: le16_def le32_def le64_def be64_def)

lemma take_bit_byte_step:
  "take_bit m v OR push_bit m (ucast (ucast (drop_bit m v) :: byte)) = take_bit (m + 8) v"
  for v :: "'a::len word"
  by (rule bit_word_eqI) (auto simp: bit_simps)

lemma ucast_byte_take_bit: "ucast (ucast v :: byte) = take_bit 8 v" for v :: "'a::len word"
  by (rule bit_word_eqI) (auto simp: bit_simps)

lemma get_le16_le16 [simp]: "get_le16 (le16 v @ rest) = Some v"
  using take_bit_byte_step [of 8 v] by (simp add: le16_def ucast_byte_take_bit take_bit_word_eq_self)

lemma get_le32_le32 [simp]: "get_le32 (le32 v @ rest) = Some v"
proof -
  let ?b = "\<lambda>m. push_bit m (ucast (ucast (drop_bit m v) :: byte)) :: u32"
  have "((take_bit 8 v OR ?b 8) OR ?b 16) OR ?b 24 = v"
    by (simp add: take_bit_byte_step take_bit_word_eq_self)
  then show ?thesis by (simp add: le32_def ucast_byte_take_bit or.assoc)
qed

lemma get_le64_le64 [simp]: "get_le64 (le64 v @ rest) = Some v"
proof -
  let ?b = "\<lambda>m. push_bit m (ucast (ucast (drop_bit m v) :: byte)) :: u64"
  have "((((((take_bit 8 v OR ?b 8) OR ?b 16) OR ?b 24) OR ?b 32) OR ?b 40) OR ?b 48) OR ?b 56 = v"
    by (simp add: take_bit_byte_step take_bit_word_eq_self)
  then show ?thesis by (simp add: le64_def ucast_byte_take_bit or.assoc)
qed

lemma get_le_le_Nil [simp]:
  "get_le16 (le16 a) = Some a" "get_le32 (le32 b) = Some b" "get_le64 (le64 c) = Some c"
  using get_le16_le16 [of a "[]"] get_le32_le32 [of b "[]"] get_le64_le64 [of c "[]"] by simp_all

lemma get_be64_be64 [simp]: "get_be64 (be64 v @ rest) = Some v"
  using get_le64_le64 [of v "[]"] by (simp add: be64_def le64_def)

section \<open>CRC-32\<close>

text \<open>
  \<^verbatim>\<open>crc32.ChecksumIEEE\<close>: the reflected CRC with polynomial \<^verbatim>\<open>0xedb88320\<close>, one byte at a time,
  with the register inverted before and after.
\<close>

definition crc_shift :: "u32 \<Rightarrow> u32" where
  "crc_shift c = (if bit c 0 then drop_bit 1 c XOR 0xEDB88320 else drop_bit 1 c)"

definition crc_byte :: "u32 \<Rightarrow> byte \<Rightarrow> u32" where
  "crc_byte c b = (crc_shift ^^ 8) (c XOR ucast b)"

definition ChecksumIEEE :: "bytes \<Rightarrow> u32" where
  "ChecksumIEEE d = NOT (foldl crc_byte (NOT 0) d)"

section \<open>Decimal strings\<close>

text \<open>\<^verbatim>\<open>fmt.Sprintf("%d", n)\<close> and \<^verbatim>\<open>"%0<k>d"\<close> on unsigned values; \<^verbatim>\<open>strconv.ParseUint(s, 10, 64)\<close>.\<close>

definition digit_char :: "nat \<Rightarrow> char" where
  "digit_char d = char_of (48 + d)"

definition digit_val :: "char \<Rightarrow> nat" where
  "digit_val c = of_char c - 48"

definition is_digit :: "char \<Rightarrow> bool" where
  "is_digit c \<longleftrightarrow> 48 \<le> (of_char c :: nat) \<and> (of_char c :: nat) \<le> 57"

fun dec :: "nat \<Rightarrow> string" where
  "dec n = (if n < 10 then [digit_char n] else dec (n div 10) @ [digit_char (n mod 10)])"

declare dec.simps [simp del]

definition zero_pad :: "nat \<Rightarrow> string \<Rightarrow> string" where
  "zero_pad k s = replicate (k - length s) (CHR ''0'') @ s"

definition dec_val :: "string \<Rightarrow> nat" where
  "dec_val s = foldl (\<lambda>a c. 10 * a + digit_val c) 0 s"

definition ParseUint :: "string \<Rightarrow> u64 option" where
  "ParseUint s =
     (if s \<noteq> [] \<and> list_all is_digit s \<and> dec_val s < 2 ^ 64 then Some (of_nat (dec_val s)) else None)"

lemma digit_char_props [simp]:
  assumes "d < 10"
  shows "is_digit (digit_char d)" "digit_val (digit_char d) = d"
  using assms by (simp_all add: is_digit_def digit_val_def digit_char_def)

lemma dec_val_append [simp]: "dec_val (s @ [c]) = 10 * dec_val s + digit_val c"
  by (simp add: dec_val_def)

lemma dec_val_Nil [simp]: "dec_val [] = 0"
  by (simp add: dec_val_def)

lemma dec_val_single [simp]: "dec_val [c] = digit_val c"
  by (simp add: dec_val_def)

lemma dec_val_dec [simp]: "dec_val (dec n) = n"
  by (induction n rule: dec.induct) (auto simp: dec.simps [of n for n])

lemma dec_digits: "list_all is_digit (dec n)"
  by (induction n rule: dec.induct) (auto simp: dec.simps [of n for n])

lemma dec_nonempty [simp]: "dec n \<noteq> []"
  by (subst dec.simps) simp

lemma digit_val_0 [simp]: "digit_val (CHR ''0'') = 0" "is_digit (CHR ''0'')"
  by (simp_all add: digit_val_def is_digit_def)

lemma dec_val_zeros: "dec_val (replicate k (CHR ''0'') @ s) = dec_val s"
proof -
  have "foldl (\<lambda>a c. 10 * a + digit_val c) 0 (replicate k (CHR ''0'')) = 0"
    by (induction k) simp_all
  then show ?thesis by (simp add: dec_val_def)
qed

lemma dec_val_zero_pad [simp]: "dec_val (zero_pad k (dec n)) = n"
  by (simp add: zero_pad_def dec_val_zeros)

lemma zero_pad_digits: "list_all is_digit (zero_pad k (dec n))"
  using dec_digits [of n] by (auto simp: zero_pad_def list_all_iff)

lemma length_dec_le: "n < 10 ^ k \<Longrightarrow> 0 < k \<Longrightarrow> length (dec n) \<le> k"
proof (induction n arbitrary: k rule: dec.induct)
  case (1 n)
  show ?case
  proof (cases "n < 10")
    case True
    then show ?thesis using 1 by (simp add: dec.simps [of n])
  next
    case False
    then have k: "1 < k" using 1 by (cases k; cases "k - 1") auto
    then have "n div 10 < 10 ^ (k - 1)"
      using 1(2) by (simp add: less_mult_imp_div_less power_eq_if mult.commute)
    then have "length (dec (n div 10)) \<le> k - 1" using 1(1) False k by simp
    then show ?thesis using False k by (simp add: dec.simps [of n])
  qed
qed

lemma length_zero_pad: "n < 10 ^ k \<Longrightarrow> 0 < k \<Longrightarrow> length (zero_pad k (dec n)) = k"
  using length_dec_le [of n k] by (simp add: zero_pad_def)

lemma ParseUint_zero_pad [simp]: "ParseUint (zero_pad k (dec (unat v))) = Some v"
proof -
  have "zero_pad k (dec (unat v)) \<noteq> []" by (simp add: zero_pad_def)
  moreover have "unat v < 2 ^ 64" using unsigned_less [of v, where 'a = nat] by simp
  ultimately show ?thesis by (simp add: ParseUint_def zero_pad_digits)
qed

text \<open>On digit strings of one length the byte order is the order of the values.\<close>

lemma dec_val_less_pow: "list_all is_digit s \<Longrightarrow> dec_val s < 10 ^ length s"
proof (induction s rule: rev_induct)
  case (snoc c s)
  then have "dec_val s < 10 ^ length s" "digit_val c < 10"
    by (auto simp: digit_val_def is_digit_def)
  then show ?case by simp
qed simp

lemma dec_val_Cons: "dec_val (c # s) = digit_val c * 10 ^ length s + dec_val s"
  by (induction s rule: rev_induct) (simp_all add: dec_val_def)

lemma digit_val_less_iff:
  "is_digit c \<Longrightarrow> is_digit d \<Longrightarrow> digit_val c < digit_val d \<longleftrightarrow> c < d"
  by (auto simp: digit_val_def is_digit_def less_char_def)

lemma digit_string_less_iff:
  assumes "length s = length t" "list_all is_digit s" "list_all is_digit t"
  shows "s < t \<longleftrightarrow> dec_val s < dec_val t"
  using assms
proof (induction s t rule: list_induct2)
  case (Cons c s d t)
  have b: "dec_val s < 10 ^ length t" "dec_val t < 10 ^ length t"
    using Cons dec_val_less_pow [of s] dec_val_less_pow [of t] by auto
  consider "c = d" | "c < d" | "d < c" by fastforce
  then show ?case
  proof cases
    case 1
    then show ?thesis using Cons by (simp add: dec_val_Cons)
  next
    case 2
    then have "digit_val c + 1 \<le> digit_val d" using Cons by (simp flip: digit_val_less_iff)
    then have "(digit_val c + 1) * 10 ^ length t \<le> digit_val d * 10 ^ length t"
      by (rule mult_right_mono) simp
    then show ?thesis using 2 b Cons by (simp add: dec_val_Cons algebra_simps)
  next
    case 3
    then have "digit_val d + 1 \<le> digit_val c" using Cons by (simp flip: digit_val_less_iff)
    then have "(digit_val d + 1) * 10 ^ length t \<le> digit_val c * 10 ^ length t"
      by (rule mult_right_mono) simp
    then show ?thesis using 3 b Cons by (auto simp: dec_val_Cons algebra_simps)
  qed
qed simp

lemma unat_of_nat_u64: "i < 2 ^ 64 \<Longrightarrow> unat (of_nat i :: u64) = i"
  by (simp add: unat_of_nat take_bit_nat_eq_self)

end
