(* ===== verification/Record_Codec.thy ===== *)
theory Record_Codec
  imports Kingbus_Prelude
begin

text \<open>
  The wire format of the log records: \<^verbatim>\<open>src/storage/storagepb/record.pb.go\<close>. Varints, the messages
  \<^verbatim>\<open>Record\<close> and \<^verbatim>\<open>BinlogEvent\<close> with their \<^verbatim>\<open>Size\<close>, \<^verbatim>\<open>Marshal\<close> and \<^verbatim>\<open>Unmarshal\<close>, and the skipping of
  unknown fields. A decoder runs over the bytes that are left (\<^verbatim>\<open>dAtA[iNdEx:]\<close>); \<open>l\<close> is the length
  of the whole message, so that \<^verbatim>\<open>iNdEx\<close> is \<open>l\<close> minus what is left. \<^verbatim>\<open>int\<close> is 64 bits wide: a sum
  that passes \<open>2 ^ 63\<close> is negative, and slicing with it panics.
\<close>

section \<open>Varints\<close>

datatype pb_error =
    ErrIntOverflowRecord | ErrUnexpectedEOF | ErrInvalidLengthRecord
  | EndGroupForNonGroup | IllegalTag | WrongWireType | IllegalWireType

lemma unat_drop_bit_7: "unat (drop_bit 7 x) = unat x div 128" for x :: "'a::len word"
  unfolding unat_drop_bit_eq by (simp add: drop_bit_eq_div)

function encodeVarintRecord :: "u64 \<Rightarrow> bytes" where
  "encodeVarintRecord v =
     (if 0x80 \<le> v then ucast (v AND 0x7F OR 0x80) # encodeVarintRecord (drop_bit 7 v)
      else [ucast v])"
  by pat_completeness auto
termination
  by (relation "measure unat") (auto simp: unat_drop_bit_7 word_le_nat_alt)

function sovRecord :: "u64 \<Rightarrow> nat" where
  "sovRecord x = Suc (if drop_bit 7 x = 0 then 0 else sovRecord (drop_bit 7 x))"
  by pat_completeness auto
termination
proof (relation "measure unat")
  fix x :: u64
  assume "drop_bit 7 x \<noteq> 0"
  then have "0 < unat x div 128"
    by (metis unat_drop_bit_7 unat_eq_zero neq0_conv)
  then show "(drop_bit 7 x, x) \<in> measure unat"
    by (simp add: unat_drop_bit_7 div_less_dividend)
qed simp

declare encodeVarintRecord.simps [simp del] sovRecord.simps [simp del]

text \<open>
  The loop that reads one varint. It is the same text for every field; the width of the accumulator
  is the width of the field (\<^verbatim>\<open>uint64\<close> for the tag, \<^verbatim>\<open>uint32\<close> for \<^verbatim>\<open>Crc\<close>, \<^verbatim>\<open>int\<close> for a length).
\<close>

fun readVarint :: "nat \<Rightarrow> 'w::len word \<Rightarrow> bytes \<Rightarrow> pb_error + 'w word \<times> bytes" where
  "readVarint shift acc bs =
     (if 64 \<le> shift then Inl ErrIntOverflowRecord
      else case bs of
        [] \<Rightarrow> Inl ErrUnexpectedEOF
      | b # bs' \<Rightarrow>
          let acc' = acc OR push_bit shift (ucast b AND 0x7F)
          in if b < 0x80 then Inr (acc', bs') else readVarint (shift + 7) acc' bs')"

declare readVarint.simps [simp del]

lemma readVarint_consumes: "readVarint sh acc bs = Inr (v, rest) \<Longrightarrow> length rest < length bs"
  by (induction sh acc bs rule: readVarint.induct)
    (force simp: readVarint.simps Let_def split: if_splits list.splits)

lemma encodeVarintRecord_nonempty [simp]: "encodeVarintRecord v \<noteq> []"
  by (subst encodeVarintRecord.simps) simp

section \<open>Tags, length-delimited fields and unknown fields\<close>

text \<open>The head of the decoding loop: the tag, split into field number and wire type, and its checks.\<close>

definition readTag :: "bytes \<Rightarrow> pb_error + int \<times> nat \<times> bytes" where
  "readTag bs =
     (case readVarint 0 (0 :: u64) bs of
        Inl e \<Rightarrow> Inl e
      | Inr (wire, rest) \<Rightarrow>
          let fieldNum = sint (ucast (drop_bit 3 wire) :: u32); wireType = unat (wire AND 7)
          in if wireType = 4 then Inl EndGroupForNonGroup
             else if fieldNum \<le> 0 then Inl IllegalTag
             else Inr (fieldNum, wireType, rest))"

text \<open>A length-delimited field: the contents and the bytes that follow them.\<close>

definition readBytesField :: "nat \<Rightarrow> bytes \<Rightarrow> (pb_error, bytes \<times> bytes) outcome" where
  "readBytesField l bs =
     (case readVarint 0 (0 :: u64) bs of
        Inl e \<Rightarrow> Err e
      | Inr (n, rest) \<Rightarrow>
          let byteLen = sint n; iNdEx = l - length rest
          in if byteLen < 0 then Err ErrInvalidLengthRecord
             else if 2 ^ 63 \<le> int iNdEx + byteLen then Crash
             else if int l < int iNdEx + byteLen then Err ErrUnexpectedEOF
             else Ok (take (nat byteLen) rest, drop (nat byteLen) rest))"

text \<open>
  \<^verbatim>\<open>skipRecord\<close>: how many bytes the field at the head of \<open>dAtA\<close> takes. \<^const>\<open>None\<close> inside \<^const>\<open>Ok\<close> is a
  negative count (the position passed the range of \<^verbatim>\<open>int\<close>). A group calls \<^verbatim>\<open>skipRecord\<close> on its
  elements; every call spends one unit of fuel, and \<open>2 * length dAtA + 1\<close> units are enough
  (\<open>skipRecord_fuel_enough\<close> below), so the fuel never shows in the result.
\<close>

fun skipRecord_fuel :: "nat \<Rightarrow> bytes \<Rightarrow> (pb_error, nat option) outcome option"
  and skipGroup_fuel :: "nat \<Rightarrow> bytes \<Rightarrow> nat \<Rightarrow> (pb_error, nat option) outcome option" where
  "skipRecord_fuel 0 dAtA = None"
| "skipRecord_fuel (Suc n) dAtA =
     (if dAtA = [] then Some Crash
      else case readVarint 0 (0 :: u64) dAtA of
        Inl e \<Rightarrow> Some (Err e)
      | Inr (wire, rest) \<Rightarrow>
          let iNdEx = length dAtA - length rest; wireType = unat (wire AND 7)
          in if wireType = 0 then
               (case readVarint 0 (0 :: u64) rest of
                  Inl e \<Rightarrow> Some (Err e)
                | Inr (_, rest') \<Rightarrow> Some (Ok (Some (length dAtA - length rest'))))
             else if wireType = 1 then Some (Ok (Some (iNdEx + 8)))
             else if wireType = 2 then
               (case readVarint 0 (0 :: u64) rest of
                  Inl e \<Rightarrow> Some (Err e)
                | Inr (len, rest') \<Rightarrow>
                    if sint len < 0 then Some (Err ErrInvalidLengthRecord)
                    else if 2 ^ 63 \<le> int (length dAtA - length rest') + sint len then Some (Ok None)
                    else Some (Ok (Some (length dAtA - length rest' + nat (sint len)))))
             else if wireType = 3 then skipGroup_fuel n dAtA iNdEx
             else if wireType = 4 then Some (Ok (Some iNdEx))
             else if wireType = 5 then Some (Ok (Some (iNdEx + 4)))
             else Some (Err IllegalWireType))"
| "skipGroup_fuel 0 dAtA start = None"
| "skipGroup_fuel (Suc n) dAtA start =
     (case readVarint 0 (0 :: u64) (drop start dAtA) of
        Inl e \<Rightarrow> Some (Err e)
      | Inr (innerWire, rest) \<Rightarrow>
          if unat (innerWire AND 7) = 4 then Some (Ok (Some (length dAtA - length rest)))
          else case skipRecord_fuel n (drop start dAtA) of
              Some (Ok (Some next)) \<Rightarrow> skipGroup_fuel n dAtA (start + next)
            | Some (Ok None) \<Rightarrow> Some Crash
            | r \<Rightarrow> r)"

definition skipRecord :: "bytes \<Rightarrow> (pb_error, nat option) outcome" where
  "skipRecord dAtA = (case skipRecord_fuel (2 * length dAtA + 1) dAtA of Some r \<Rightarrow> r | None \<Rightarrow> Crash)"

text \<open>
  The \<^verbatim>\<open>default\<close> branch of a decoder: the field that starts at \<open>pre\<close> is kept as unrecognized bytes.
\<close>

definition skipUnknown :: "nat \<Rightarrow> bytes \<Rightarrow> (pb_error, bytes \<times> bytes) outcome" where
  "skipUnknown l pre =
     (case skipRecord pre of
        Err e \<Rightarrow> Err e
      | Crash \<Rightarrow> Crash
      | Ok None \<Rightarrow> Err ErrInvalidLengthRecord
      | Ok (Some skippy) \<Rightarrow>
          if 2 ^ 63 \<le> (l - length pre) + skippy then Crash
          else if l < (l - length pre) + skippy then Err ErrUnexpectedEOF
          else Ok (take skippy pre, drop skippy pre))"

lemma skipRecord_fuel_pos:
  "skipRecord_fuel n dAtA = Some (Ok (Some k)) \<Longrightarrow> 0 < k"
  "skipGroup_fuel n dAtA start = Some (Ok (Some k)) \<Longrightarrow> 0 < k"
proof (induction n dAtA and n dAtA start arbitrary: k and k
    rule: skipRecord_fuel_skipGroup_fuel.induct)
  case (2 n dAtA)
  then show ?case
    by (fastforce simp: Let_def dest: readVarint_consumes split: if_splits sum.splits prod.splits)
next
  case (4 n dAtA start)
  then show ?case
    by (fastforce simp: Let_def dest: readVarint_consumes
        split: if_splits sum.splits prod.splits option.splits outcome.splits)
qed simp_all

lemma skipRecord_pos: "skipRecord dAtA = Ok (Some k) \<Longrightarrow> 0 < k"
  by (cases "skipRecord_fuel (2 * length dAtA + 1) dAtA")
    (auto simp: skipRecord_def simp del: skipRecord_fuel.simps dest: skipRecord_fuel_pos)

lemma skipRecord_fuel_enough_aux:
  "2 * length dAtA + 1 \<le> n \<Longrightarrow> skipRecord_fuel n dAtA \<noteq> None"
  "2 * (length dAtA - start) + 2 \<le> n \<Longrightarrow> skipGroup_fuel n dAtA start \<noteq> None"
proof (induction n dAtA and n dAtA start rule: skipRecord_fuel_skipGroup_fuel.induct)
  case (2 n dAtA)
  then show ?case
    by (fastforce simp: Let_def dest: readVarint_consumes split: if_splits sum.splits prod.splits)
next
  case (4 n dAtA start)
  then show ?case
    by (fastforce simp: Let_def dest: readVarint_consumes skipRecord_fuel_pos
        split: if_splits sum.splits prod.splits option.splits outcome.splits)
qed simp_all

lemma skipRecord_fuel_enough: "\<exists>r. skipRecord_fuel (2 * length dAtA + 1) dAtA = Some r"
  using skipRecord_fuel_enough_aux(1) [of dAtA "2 * length dAtA + 1"] by auto

lemma readTag_consumes: "readTag bs = Inr (f, w, rest) \<Longrightarrow> length rest < length bs"
  by (auto simp: readTag_def Let_def dest: readVarint_consumes split: sum.splits if_splits)

lemma readBytesField_consumes: "readBytesField l bs = Ok (d, rest) \<Longrightarrow> length rest < length bs"
  by (auto simp: readBytesField_def Let_def dest!: readVarint_consumes split: sum.splits if_splits)

lemma skipUnknown_consumes:
  "skipUnknown l pre = Ok (d, rest) \<Longrightarrow> pre \<noteq> [] \<Longrightarrow> length rest < length pre"
  by (auto simp: skipUnknown_def dest: skipRecord_pos split: outcome.splits option.splits if_splits)

text \<open>A varint field: the wire type is checked, then the value is read from zero.\<close>

definition readVarintField :: "nat \<Rightarrow> bytes \<Rightarrow> (pb_error, 'w::len word \<times> bytes) outcome" where
  "readVarintField wireType bs =
     (if wireType \<noteq> 0 then Err WrongWireType
      else case readVarint 0 (0 :: 'w word) bs of Inl e \<Rightarrow> Err e | Inr r \<Rightarrow> Ok r)"

lemma readVarintField_consumes: "readVarintField w bs = Ok (v, rest) \<Longrightarrow> length rest < length bs"
  by (auto simp: readVarintField_def dest: readVarint_consumes split: if_splits sum.splits)

section \<open>Record\<close>

text \<open>\<^verbatim>\<open>Data\<close> is \<^const>\<open>None\<close> for a nil slice: a nil slice is not written, an empty one is.\<close>

record Record =
  Crc :: u32
  Data :: "bytes option"
  XXX_unrecognized :: bytes

definition new_Record :: Record where
  "new_Record = \<lparr>Crc = 0, Data = None, XXX_unrecognized = []\<rparr>"

definition Record_Size :: "Record \<Rightarrow> nat" where
  "Record_Size m =
     1 + sovRecord (ucast (Crc m))
     + (case Data m of None \<Rightarrow> 0 | Some d \<Rightarrow> 1 + length d + sovRecord (of_nat (length d)))
     + length (XXX_unrecognized m)"

definition Record_MarshalTo :: "Record \<Rightarrow> bytes" where
  "Record_MarshalTo m =
     0x08 # encodeVarintRecord (ucast (Crc m))
     @ (case Data m of None \<Rightarrow> [] | Some d \<Rightarrow> 0x12 # encodeVarintRecord (of_nat (length d)) @ d)
     @ XXX_unrecognized m"

text \<open>\<^verbatim>\<open>Marshal\<close> writes into a buffer of \<^verbatim>\<open>Size()\<close> bytes: writing past its end panics.\<close>

definition Record_Marshal :: "Record \<Rightarrow> (pb_error, bytes) outcome" where
  "Record_Marshal m =
     (let dAtA = Record_MarshalTo m in if length dAtA \<le> Record_Size m then Ok dAtA else Crash)"

definition Record_field ::
    "nat \<Rightarrow> Record \<Rightarrow> int \<Rightarrow> nat \<Rightarrow> bytes \<Rightarrow> bytes \<Rightarrow> (pb_error, Record \<times> bytes) outcome" where
  "Record_field l m fieldNum wireType pre rest =
     (if fieldNum = 1 then
        obind (readVarintField wireType rest) (\<lambda>(v, rest'). Ok (m\<lparr>Crc := v\<rparr>, rest'))
      else if fieldNum = 2 then
        (if wireType \<noteq> 2 then Err WrongWireType
         else obind (readBytesField l rest) (\<lambda>(d, rest'). Ok (m\<lparr>Data := Some d\<rparr>, rest')))
      else
        obind (skipUnknown l pre)
          (\<lambda>(d, rest'). Ok (m\<lparr>XXX_unrecognized := XXX_unrecognized m @ d\<rparr>, rest')))"

lemma Record_field_consumes:
  assumes "Record_field l m f w pre rest = Ok (m', rest')" "readTag pre = Inr (f, w, rest)"
  shows "length rest' < length pre"
proof -
  have "pre \<noteq> []" "length rest < length pre"
    using readTag_consumes [OF assms(2)] by auto
  then show ?thesis
    using assms(1)
    by (auto simp: Record_field_def obind_eq_Ok split: if_splits
        dest!: readVarintField_consumes readBytesField_consumes skipUnknown_consumes)
qed

function Record_Unmarshal_loop :: "nat \<Rightarrow> Record \<Rightarrow> bytes \<Rightarrow> (pb_error, Record) outcome" where
  "Record_Unmarshal_loop l m pre =
     (if pre = [] then Ok m
      else case readTag pre of
        Inl e \<Rightarrow> Err e
      | Inr (fieldNum, wireType, rest) \<Rightarrow>
          (case Record_field l m fieldNum wireType pre rest of
             Ok (m', rest') \<Rightarrow> Record_Unmarshal_loop l m' rest'
           | Err e \<Rightarrow> Err e
           | Crash \<Rightarrow> Crash))"
  by pat_completeness auto
termination
  by (relation "measure (\<lambda>(l, m, pre). length pre)") (auto intro: Record_field_consumes)

definition Record_Unmarshal :: "Record \<Rightarrow> bytes \<Rightarrow> (pb_error, Record) outcome" where
  "Record_Unmarshal m dAtA = Record_Unmarshal_loop (length dAtA) m dAtA"

declare Record_Unmarshal_loop.simps [simp del]

section \<open>BinlogEvent\<close>

text \<open>\<^verbatim>\<open>FlavorType\<close> is an \<^verbatim>\<open>int32\<close>; \<^verbatim>\<open>FlavorType_MySQL\<close> is 0, \<^verbatim>\<open>FlavorType_Maria\<close> is 1.\<close>

definition FlavorType_MySQL :: u32 where "FlavorType_MySQL = 0"
definition FlavorType_Maria :: u32 where "FlavorType_Maria = 1"

record BinlogEvent =
  ev_Type :: u32
  ev_Flavor :: u32
  ev_DividedCount :: u32
  ev_DividedSeqNum :: u32
  ev_Data :: "bytes option"
  ev_XXX_unrecognized :: bytes

definition new_BinlogEvent :: BinlogEvent where
  "new_BinlogEvent = \<lparr>ev_Type = 0, ev_Flavor = 0, ev_DividedCount = 0, ev_DividedSeqNum = 0,
     ev_Data = None, ev_XXX_unrecognized = []\<rparr>"

definition BinlogEvent_Size :: "BinlogEvent \<Rightarrow> nat" where
  "BinlogEvent_Size m =
     1 + sovRecord (ucast (ev_Type m)) + (1 + sovRecord (scast (ev_Flavor m)))
     + (1 + sovRecord (ucast (ev_DividedCount m))) + (1 + sovRecord (ucast (ev_DividedSeqNum m)))
     + (case ev_Data m of None \<Rightarrow> 0 | Some d \<Rightarrow> 1 + length d + sovRecord (of_nat (length d)))
     + length (ev_XXX_unrecognized m)"

definition BinlogEvent_MarshalTo :: "BinlogEvent \<Rightarrow> bytes" where
  "BinlogEvent_MarshalTo m =
     (0x08 # encodeVarintRecord (ucast (ev_Type m)))
     @ (0x10 # encodeVarintRecord (scast (ev_Flavor m)))
     @ (0x18 # encodeVarintRecord (ucast (ev_DividedCount m)))
     @ (0x20 # encodeVarintRecord (ucast (ev_DividedSeqNum m)))
     @ (case ev_Data m of None \<Rightarrow> [] | Some d \<Rightarrow> 0x2A # encodeVarintRecord (of_nat (length d)) @ d)
     @ ev_XXX_unrecognized m"

definition BinlogEvent_Marshal :: "BinlogEvent \<Rightarrow> (pb_error, bytes) outcome" where
  "BinlogEvent_Marshal m =
     (let dAtA = BinlogEvent_MarshalTo m
      in if length dAtA \<le> BinlogEvent_Size m then Ok dAtA else Crash)"

definition BinlogEvent_field ::
    "nat \<Rightarrow> BinlogEvent \<Rightarrow> int \<Rightarrow> nat \<Rightarrow> bytes \<Rightarrow> bytes \<Rightarrow> (pb_error, BinlogEvent \<times> bytes) outcome" where
  "BinlogEvent_field l m fieldNum wireType pre rest =
     (if fieldNum = 1 then
        obind (readVarintField wireType rest) (\<lambda>(v, rest'). Ok (m\<lparr>ev_Type := v\<rparr>, rest'))
      else if fieldNum = 2 then
        obind (readVarintField wireType rest) (\<lambda>(v, rest'). Ok (m\<lparr>ev_Flavor := v\<rparr>, rest'))
      else if fieldNum = 3 then
        obind (readVarintField wireType rest) (\<lambda>(v, rest'). Ok (m\<lparr>ev_DividedCount := v\<rparr>, rest'))
      else if fieldNum = 4 then
        obind (readVarintField wireType rest) (\<lambda>(v, rest'). Ok (m\<lparr>ev_DividedSeqNum := v\<rparr>, rest'))
      else if fieldNum = 5 then
        (if wireType \<noteq> 2 then Err WrongWireType
         else obind (readBytesField l rest) (\<lambda>(d, rest'). Ok (m\<lparr>ev_Data := Some d\<rparr>, rest')))
      else
        obind (skipUnknown l pre)
          (\<lambda>(d, rest'). Ok (m\<lparr>ev_XXX_unrecognized := ev_XXX_unrecognized m @ d\<rparr>, rest')))"

lemma BinlogEvent_field_consumes:
  assumes "BinlogEvent_field l m f w pre rest = Ok (m', rest')" "readTag pre = Inr (f, w, rest)"
  shows "length rest' < length pre"
proof -
  have "pre \<noteq> []" "length rest < length pre"
    using readTag_consumes [OF assms(2)] by auto
  then show ?thesis
    using assms(1)
    by (auto simp: BinlogEvent_field_def obind_eq_Ok split: if_splits
        dest!: readVarintField_consumes readBytesField_consumes skipUnknown_consumes)
qed

function BinlogEvent_Unmarshal_loop ::
    "nat \<Rightarrow> BinlogEvent \<Rightarrow> bytes \<Rightarrow> (pb_error, BinlogEvent) outcome" where
  "BinlogEvent_Unmarshal_loop l m pre =
     (if pre = [] then Ok m
      else case readTag pre of
        Inl e \<Rightarrow> Err e
      | Inr (fieldNum, wireType, rest) \<Rightarrow>
          (case BinlogEvent_field l m fieldNum wireType pre rest of
             Ok (m', rest') \<Rightarrow> BinlogEvent_Unmarshal_loop l m' rest'
           | Err e \<Rightarrow> Err e
           | Crash \<Rightarrow> Crash))"
  by pat_completeness auto
termination
  by (relation "measure (\<lambda>(l, m, pre). length pre)") (auto intro: BinlogEvent_field_consumes)

definition BinlogEvent_Unmarshal :: "BinlogEvent \<Rightarrow> bytes \<Rightarrow> (pb_error, BinlogEvent) outcome" where
  "BinlogEvent_Unmarshal m dAtA = BinlogEvent_Unmarshal_loop (length dAtA) m dAtA"

declare BinlogEvent_Unmarshal_loop.simps [simp del]

section \<open>Facts\<close>

lemma drop_bit_7_eq_0_iff: "drop_bit 7 v = 0 \<longleftrightarrow> \<not> 0x80 \<le> v" for v :: u64
proof -
  have "drop_bit 7 v = 0 \<longleftrightarrow> unat v div 128 = 0"
    by (metis unat_drop_bit_7 unat_eq_zero)
  then show ?thesis by (auto simp: word_le_nat_alt div_eq_0_iff)
qed

lemma length_encodeVarintRecord: "length (encodeVarintRecord v) = sovRecord v"
proof (induction v rule: encodeVarintRecord.induct)
  case (1 v)
  then show ?case
    by (simp add: encodeVarintRecord.simps [of v] sovRecord.simps [of v] drop_bit_7_eq_0_iff)
qed

lemma sovRecord_le: "unat x < 2 ^ (7 * Suc k) \<Longrightarrow> sovRecord x \<le> Suc k"
proof (induction k arbitrary: x)
  case 0
  then have "drop_bit 7 x = 0" by (simp add: drop_bit_eq_div word_unat_eq_iff unat_div)
  then show ?case by (simp add: sovRecord.simps [of x])
next
  case (Suc k)
  have "unat x < 2 ^ (7 * Suc k) * 128" using Suc.prems by (simp add: power_add)
  then have "unat (drop_bit 7 x) < 2 ^ (7 * Suc k)"
    by (simp add: drop_bit_eq_div unat_div less_mult_imp_div_less)
  then show ?case using Suc.IH [of "drop_bit 7 x"] by (simp add: sovRecord.simps [of x])
qed

lemma sovRecord_le_10: "sovRecord x \<le> 10"
  using sovRecord_le [of x 9] unsigned_less [of x, where 'a = nat] by simp

lemma and_0x7F: "x AND 0x7F = take_bit 7 x" for x :: "'a::len word"
  by (simp add: take_bit_eq_mask mask_numeral)

lemma take_bit_7_eq_self_iff: "take_bit 7 w = w \<longleftrightarrow> unat w < 128" for w :: "'a::len word"
proof -
  have "take_bit 7 w = w \<longleftrightarrow> unat (take_bit 7 w) = unat w" by (simp only: word_unat_eq_iff)
  also have "\<dots> \<longleftrightarrow> unat w mod 128 = unat w" unfolding unsigned_take_bit_eq by (simp add: take_bit_eq_mod)
  finally show ?thesis by auto
qed

lemma take_bit_7_varint_byte:
  "take_bit 7 (ucast (ucast (take_bit 7 v OR 0x80 :: u64) :: byte)) = (take_bit 7 (ucast v) :: 'w::len word)"
proof (rule bit_word_eqI)
  fix n
  show "bit (take_bit 7 (ucast (ucast (take_bit 7 v OR 0x80 :: u64) :: byte)) :: 'w word) n
      = bit (take_bit 7 (ucast v) :: 'w word) n"
  proof (cases "n < 7")
    case True
    then have "n \<in> {0, 1, 2, 3, 4, 5, 6}" by auto
    then show ?thesis by (elim insertE emptyE; simp add: bit_simps)
  qed (simp add: bit_simps)
qed

lemma push_bit_take_drop_7:
  "push_bit s (take_bit 7 (ucast v)) OR push_bit (s + 7) (ucast (drop_bit 7 v)) = (push_bit s (ucast v) :: 'w::len word)"
  for v :: u64
proof (rule bit_word_eqI)
  fix n
  assume "n < LENGTH('w)"
  show "bit (push_bit s (take_bit 7 (ucast v)) OR push_bit (s + 7) (ucast (drop_bit 7 v)) :: 'w word) n = bit (push_bit s (ucast v) :: 'w word) n"
  proof (cases "s + 7 \<le> n")
    case True
    then have "n - (s + 7) + 7 = n - s" "\<not> n - s < 7" "s \<le> n" "n - (s + 7) < LENGTH('w)"
       "n - s < LENGTH('w)" using \<open>n < _\<close> by auto
    then show ?thesis using True \<open>n < _\<close> by (simp add: bit_simps)
  next
    case False
    then have "n - s < 7" by auto
    then show ?thesis using False \<open>n < _\<close> by (simp add: bit_simps)
  qed
qed

lemma varint_byte_more: "\<not> (ucast (v AND 0x7F OR 0x80 :: u64) :: byte) < 0x80"
proof
  assume "(ucast (v AND 0x7F OR 0x80 :: u64) :: byte) < 0x80"
  then have "take_bit 7 (ucast (v AND 0x7F OR 0x80 :: u64) :: byte) = ucast (v AND 0x7F OR 0x80)"
    by (simp add: take_bit_7_eq_self_iff word_less_nat_alt)
  then have "bit (take_bit 7 (ucast (v AND 0x7F OR 0x80 :: u64) :: byte)) 7 = bit (ucast (v AND 0x7F OR 0x80 :: u64) :: byte) 7"
    by (rule arg_cong)
  then show False by (simp add: bit_simps)
qed

lemma varint_byte_last:
  assumes "\<not> (0x80 :: u64) \<le> v"
  shows "(ucast v :: byte) < 0x80" "take_bit 7 (ucast (ucast v :: byte)) = (ucast v :: 'w::len word)"
proof -
  have t: "take_bit 7 v = v" using assms by (simp add: take_bit_7_eq_self_iff not_le word_less_nat_alt)
  have "take_bit 7 (ucast v :: byte) = ucast v"
    by (subst (2) t [symmetric], rule bit_word_eqI) (auto simp add: bit_simps)
  then show "(ucast v :: byte) < 0x80" by (simp add: take_bit_7_eq_self_iff word_less_nat_alt)
  show "take_bit 7 (ucast (ucast v :: byte)) = (ucast v :: 'w::len word)"
    by (subst (2) t [symmetric], rule bit_word_eqI) (auto simp add: bit_simps)
qed

lemma readVarint_encodeVarintRecord:
  assumes "s < 64" "unat v < 2 ^ (64 - s)"
  shows "readVarint s (acc :: 'b::len word) (encodeVarintRecord v @ rest) = Inr (acc OR push_bit s (ucast v), rest)"
  using assms
proof (induction v arbitrary: s acc rule: encodeVarintRecord.induct)
  case (1 v)
  show ?case
  proof (cases "0x80 \<le> v")
    case True
    let ?b = "ucast (v AND 0x7F OR 0x80) :: byte"
    have "7 < 64 - s"
    proof (rule ccontr)
      assume "\<not> 7 < 64 - s"
      then have "(2::nat) ^ (64 - s) \<le> 2 ^ 7" by (intro power_increasing) auto
      then show False using True 1(3) by (auto simp: word_le_nat_alt)
    qed
    then have s: "s + 7 < 64" and e: "64 - s = 7 + (64 - (s + 7))" by auto
    have "unat (drop_bit 7 v) < 2 ^ (64 - (s + 7))"
      using 1(3) unfolding e power_add unat_drop_bit_7 by (simp add: less_mult_imp_div_less mult.commute)
    note IH = 1(1) [OF True s this, of "acc OR push_bit s (ucast ?b AND 0x7F)"]
    show ?thesis
      using IH True 1(2) varint_byte_more [of v]
      by (simp add: encodeVarintRecord.simps [of v] readVarint.simps [of s] Let_def or.assoc
          and_0x7F take_bit_7_varint_byte push_bit_take_drop_7)
  next
    case False
    then show ?thesis using 1(2) varint_byte_last(1) [OF False] varint_byte_last(2) [OF False, where 'w = 'b]
      by (simp add: encodeVarintRecord.simps [of v] readVarint.simps [of s] and_0x7F)
  qed
qed

lemma readVarint_encodeVarintRecord_0 [simp]:
  "readVarint 0 0 (encodeVarintRecord v @ rest) = Inr (ucast v, rest)"
  using readVarint_encodeVarintRecord [of 0 v 0 rest] unsigned_less [of v] by simp

lemma u32_u64_u32 [simp]:
  "ucast (ucast c :: u64) = (c :: u32)" "ucast (scast c :: u64) = (c :: u32)"
  by (rule bit_word_eqI, simp add: bit_simps)+

lemma readVarint_encodeVarintRecord_Nil [simp]:
  "readVarint 0 0 (encodeVarintRecord v) = Inr (ucast v, [])"
  using readVarint_encodeVarintRecord_0 [of v "[]"] by simp

lemma readVarintField_encodeVarintRecord [simp]:
  "readVarintField 0 (encodeVarintRecord v @ rest) = Ok (ucast v, rest)"
  "readVarintField 0 (encodeVarintRecord v) = Ok (ucast v, [])"
  by (simp_all add: readVarintField_def)

lemma readTag_byte [simp]:
  "readTag (0x08 # bs) = Inr (1, 0, bs)"
  "readTag (0x10 # bs) = Inr (2, 0, bs)"
  "readTag (0x18 # bs) = Inr (3, 0, bs)"
  "readTag (0x20 # bs) = Inr (4, 0, bs)"
  "readTag (0x12 # bs) = Inr (2, 2, bs)"
  "readTag (0x22 # bs) = Inr (4, 2, bs)"
  "readTag (0x2A # bs) = Inr (5, 2, bs)"
  by (simp_all add: readTag_def readVarint.simps)

lemma sint_of_nat_u64: "n < 2 ^ 63 \<Longrightarrow> sint (of_nat n :: u64) = int n"
  by (simp add: signed_of_nat signed_take_bit_int_eq_self)

lemma readBytesField_encode [simp]:
  assumes "length d \<le> l" "l < 2 ^ 63"
  shows "readBytesField l (encodeVarintRecord (of_nat (length d)) @ d) = Ok (d, [])"
  using assms by (simp add: readBytesField_def sint_of_nat_u64 Let_def)

lemma length_MarshalTo:
  "length (Record_MarshalTo r) = Record_Size r"
  "length (BinlogEvent_MarshalTo e) = BinlogEvent_Size e"
  by (simp_all add: Record_MarshalTo_def Record_Size_def BinlogEvent_MarshalTo_def
      BinlogEvent_Size_def length_encodeVarintRecord split: option.split)

lemma Record_Unmarshal_MarshalTo:
  assumes "XXX_unrecognized m = []" "Record_Size m < 2 ^ 63"
  shows "Record_Unmarshal m0 (Record_MarshalTo m)
    = Ok (m0\<lparr>Crc := Crc m, Data := (case Data m of None \<Rightarrow> Data m0 | Some d \<Rightarrow> Some d)\<rparr>)"
  using assms
  by (cases "Data m")
    (simp_all add: Record_Unmarshal_def Record_MarshalTo_def Record_Unmarshal_loop.simps
      Record_field_def Record_Size_def length_encodeVarintRecord)

lemma BinlogEvent_Unmarshal_MarshalTo:
  assumes "ev_XXX_unrecognized m = []" "BinlogEvent_Size m < 2 ^ 63"
  shows "BinlogEvent_Unmarshal m0 (BinlogEvent_MarshalTo m)
    = Ok (m0\<lparr>ev_Type := ev_Type m, ev_Flavor := ev_Flavor m, ev_DividedCount := ev_DividedCount m,
         ev_DividedSeqNum := ev_DividedSeqNum m,
         ev_Data := (case ev_Data m of None \<Rightarrow> ev_Data m0 | Some d \<Rightarrow> Some d)\<rparr>)"
  using assms
  by (cases "ev_Data m")
    (simp_all add: BinlogEvent_Unmarshal_def BinlogEvent_MarshalTo_def
      BinlogEvent_Unmarshal_loop.simps BinlogEvent_field_def BinlogEvent_Size_def
      length_encodeVarintRecord)

section \<open>The codec interface\<close>

text \<open>
  What the storage relies on in a message type: marshalling never fails, writes exactly \<^verbatim>\<open>Size()\<close>
  bytes, and unmarshalling them into a fresh message gives the message back.
\<close>

locale message_codec =
  fixes Size :: "'m \<Rightarrow> nat"
    and Marshal :: "'m \<Rightarrow> (pb_error, bytes) outcome"
    and Unmarshal :: "'m \<Rightarrow> bytes \<Rightarrow> (pb_error, 'm) outcome"
    and fresh :: 'm
    and storable :: "'m \<Rightarrow> bool"
  assumes marshal_total: "\<exists>b. Marshal m = Ok b \<and> length b = Size m"
    and unmarshal_fresh: "storable m \<Longrightarrow> Marshal m = Ok b \<Longrightarrow> Unmarshal fresh b = Ok m"
begin

lemma roundtrip: "storable m \<Longrightarrow> obind (Marshal m) (Unmarshal fresh) = Ok m"
  using marshal_total [of m] unmarshal_fresh [of m] by auto

lemma marshal_inj: "storable m \<Longrightarrow> storable m' \<Longrightarrow> Marshal m = Marshal m' \<Longrightarrow> m = m'"
  by (metis roundtrip outcome.inject(1))

lemma marshal_size: "Marshal m = Ok b \<Longrightarrow> length b = Size m"
  using marshal_total [of m] by auto

end

lemma Record_Marshal_eq: "Record_Marshal m = Ok (Record_MarshalTo m)"
  by (simp add: Record_Marshal_def Let_def length_MarshalTo)

lemma BinlogEvent_Marshal_eq: "BinlogEvent_Marshal m = Ok (BinlogEvent_MarshalTo m)"
  by (simp add: BinlogEvent_Marshal_def Let_def length_MarshalTo)

definition Record_storable :: "Record \<Rightarrow> bool" where
  "Record_storable m \<longleftrightarrow> XXX_unrecognized m = [] \<and> Record_Size m < 2 ^ 63"

definition BinlogEvent_storable :: "BinlogEvent \<Rightarrow> bool" where
  "BinlogEvent_storable m \<longleftrightarrow> ev_XXX_unrecognized m = [] \<and> BinlogEvent_Size m < 2 ^ 63"

interpretation recc: message_codec Record_Size Record_Marshal Record_Unmarshal new_Record
    Record_storable
proof unfold_locales
  fix m :: Record and b
  show "\<exists>b. Record_Marshal m = Ok b \<and> length b = Record_Size m"
    by (simp add: Record_Marshal_eq length_MarshalTo)
  assume "Record_storable m" "Record_Marshal m = Ok b"
  then show "Record_Unmarshal new_Record b = Ok m"
    by (cases m) (auto simp: Record_Marshal_eq Record_storable_def Record_Unmarshal_MarshalTo
        new_Record_def split: option.split)
qed

interpretation evc: message_codec BinlogEvent_Size BinlogEvent_Marshal BinlogEvent_Unmarshal
    new_BinlogEvent BinlogEvent_storable
proof unfold_locales
  fix m :: BinlogEvent and b
  show "\<exists>b. BinlogEvent_Marshal m = Ok b \<and> length b = BinlogEvent_Size m"
    by (simp add: BinlogEvent_Marshal_eq length_MarshalTo)
  assume "BinlogEvent_storable m" "BinlogEvent_Marshal m = Ok b"
  then show "BinlogEvent_Unmarshal new_BinlogEvent b = Ok m"
    by (cases m) (auto simp: BinlogEvent_Marshal_eq BinlogEvent_storable_def
        BinlogEvent_Unmarshal_MarshalTo new_BinlogEvent_def split: option.split)
qed

end
