(* ===== verification/Raft_Entry.thy ===== *)
theory Raft_Entry
  imports Record_Codec
begin

text \<open>
  The entries of the raft log: \<^verbatim>\<open>raftpb.Entry\<close> of the vendored etcd raft
  (\<^verbatim>\<open>src/vendor/github.com/coreos/etcd/raft/raftpb/raft.pb.go\<close>), whose generated codec is the text of
  \<^verbatim>\<open>record.pb.go\<close> with other fields, and the tagging of the data proposed to raft
  (\<^verbatim>\<open>src/utils/pb_utils.go\<close>).
\<close>

section \<open>Entry\<close>

text \<open>\<^verbatim>\<open>EntryType\<close> is an \<^verbatim>\<open>int32\<close>: \<^verbatim>\<open>EntryNormal\<close> is 0, \<^verbatim>\<open>EntryConfChange\<close> is 1.\<close>

definition EntryNormal :: u32 where "EntryNormal = 0"
definition EntryConfChange :: u32 where "EntryConfChange = 1"

record Entry =
  Term :: u64
  Index :: u64
  EType :: u32
  EData :: "bytes option"
  E_XXX_unrecognized :: bytes

definition new_Entry :: Entry where
  "new_Entry = \<lparr>Term = 0, Index = 0, EType = 0, EData = None, E_XXX_unrecognized = []\<rparr>"

definition Entry_Size :: "Entry \<Rightarrow> nat" where
  "Entry_Size m =
     1 + sovRecord (scast (EType m)) + (1 + sovRecord (Term m)) + (1 + sovRecord (Index m))
     + (case EData m of None \<Rightarrow> 0 | Some d \<Rightarrow> 1 + length d + sovRecord (of_nat (length d)))
     + length (E_XXX_unrecognized m)"

definition Entry_MarshalTo :: "Entry \<Rightarrow> bytes" where
  "Entry_MarshalTo m =
     (0x08 # encodeVarintRecord (scast (EType m)))
     @ (0x10 # encodeVarintRecord (Term m))
     @ (0x18 # encodeVarintRecord (Index m))
     @ (case EData m of None \<Rightarrow> [] | Some d \<Rightarrow> 0x22 # encodeVarintRecord (of_nat (length d)) @ d)
     @ E_XXX_unrecognized m"

definition Entry_Marshal :: "Entry \<Rightarrow> (pb_error, bytes) outcome" where
  "Entry_Marshal m =
     (let dAtA = Entry_MarshalTo m in if length dAtA \<le> Entry_Size m then Ok dAtA else Crash)"

definition Entry_field ::
    "nat \<Rightarrow> Entry \<Rightarrow> int \<Rightarrow> nat \<Rightarrow> bytes \<Rightarrow> bytes \<Rightarrow> (pb_error, Entry \<times> bytes) outcome" where
  "Entry_field l m fieldNum wireType pre rest =
     (if fieldNum = 1 then
        obind (readVarintField wireType rest) (\<lambda>(v, rest'). Ok (m\<lparr>EType := v\<rparr>, rest'))
      else if fieldNum = 2 then
        obind (readVarintField wireType rest) (\<lambda>(v, rest'). Ok (m\<lparr>Term := v\<rparr>, rest'))
      else if fieldNum = 3 then
        obind (readVarintField wireType rest) (\<lambda>(v, rest'). Ok (m\<lparr>Index := v\<rparr>, rest'))
      else if fieldNum = 4 then
        (if wireType \<noteq> 2 then Err WrongWireType
         else obind (readBytesField l rest) (\<lambda>(d, rest'). Ok (m\<lparr>EData := Some d\<rparr>, rest')))
      else
        obind (skipUnknown l pre)
          (\<lambda>(d, rest'). Ok (m\<lparr>E_XXX_unrecognized := E_XXX_unrecognized m @ d\<rparr>, rest')))"

lemma Entry_field_consumes:
  assumes "Entry_field l m f w pre rest = Ok (m', rest')" "readTag pre = Inr (f, w, rest)"
  shows "length rest' < length pre"
proof -
  have "pre \<noteq> []" "length rest < length pre"
    using readTag_consumes [OF assms(2)] by auto
  then show ?thesis
    using assms(1)
    by (auto simp: Entry_field_def obind_eq_Ok split: if_splits
        dest!: readVarintField_consumes readBytesField_consumes skipUnknown_consumes)
qed

function Entry_Unmarshal_loop :: "nat \<Rightarrow> Entry \<Rightarrow> bytes \<Rightarrow> (pb_error, Entry) outcome" where
  "Entry_Unmarshal_loop l m pre =
     (if pre = [] then Ok m
      else case readTag pre of
        Inl e \<Rightarrow> Err e
      | Inr (fieldNum, wireType, rest) \<Rightarrow>
          (case Entry_field l m fieldNum wireType pre rest of
             Ok (m', rest') \<Rightarrow> Entry_Unmarshal_loop l m' rest'
           | Err e \<Rightarrow> Err e
           | Crash \<Rightarrow> Crash))"
  by pat_completeness auto
termination
  by (relation "measure (\<lambda>(l, m, pre). length pre)") (auto intro: Entry_field_consumes)

definition Entry_Unmarshal :: "Entry \<Rightarrow> bytes \<Rightarrow> (pb_error, Entry) outcome" where
  "Entry_Unmarshal m dAtA = Entry_Unmarshal_loop (length dAtA) m dAtA"

declare Entry_Unmarshal_loop.simps [simp del]

lemma length_Entry_MarshalTo: "length (Entry_MarshalTo e) = Entry_Size e"
  by (simp add: Entry_MarshalTo_def Entry_Size_def length_encodeVarintRecord split: option.split)

lemma Entry_Marshal_eq: "Entry_Marshal m = Ok (Entry_MarshalTo m)"
  by (simp add: Entry_Marshal_def Let_def length_Entry_MarshalTo)

definition Entry_storable :: "Entry \<Rightarrow> bool" where
  "Entry_storable m \<longleftrightarrow> E_XXX_unrecognized m = [] \<and> Entry_Size m < 2 ^ 63"

text \<open>
  Unmarshalling overwrites the fields that are present and leaves the others of the target as they
  were; the target need not be fresh.
\<close>

lemma Entry_Unmarshal_MarshalTo:
  assumes "Entry_storable m"
  shows "Entry_Unmarshal m0 (Entry_MarshalTo m)
    = Ok (m0\<lparr>EType := EType m, Term := Term m, Index := Index m,
         EData := (case EData m of None \<Rightarrow> EData m0 | Some d \<Rightarrow> Some d)\<rparr>)"
  using assms
  by (cases "EData m")
    (simp_all add: Entry_storable_def Entry_Unmarshal_def Entry_MarshalTo_def
      Entry_Unmarshal_loop.simps Entry_field_def Entry_Size_def length_encodeVarintRecord)

interpretation entc: message_codec Entry_Size Entry_Marshal Entry_Unmarshal new_Entry Entry_storable
proof unfold_locales
  fix m :: Entry and b
  show "\<exists>b. Entry_Marshal m = Ok b \<and> length b = Entry_Size m"
    by (simp add: Entry_Marshal_eq length_Entry_MarshalTo)
  assume "Entry_storable m" "Entry_Marshal m = Ok b"
  then show "Entry_Unmarshal new_Entry b = Ok m"
    by (cases m) (auto simp: Entry_Marshal_eq Entry_Unmarshal_MarshalTo new_Entry_def
        Entry_storable_def split: option.split)
qed

section \<open>Tagged data\<close>

text \<open>The first byte of the data of a normal entry says what it holds.\<close>

definition MySQLBinlogEventType :: byte where "MySQLBinlogEventType = 1"
definition NodeAttributesType :: byte where "NodeAttributesType = 2"
definition SyncerArgsType :: byte where "SyncerArgsType = 3"
definition MasterInfoType :: byte where "MasterInfoType = 4"
definition MasterGtidPurgedType :: byte where "MasterGtidPurgedType = 5"

text \<open>\<^verbatim>\<open>len\<close> and the elements of a slice that may be nil.\<close>

definition nil_bytes :: "bytes option \<Rightarrow> bytes" where
  "nil_bytes d = (case d of None \<Rightarrow> [] | Some b \<Rightarrow> b)"

definition EncodeBinlogEvent :: "BinlogEvent \<Rightarrow> (pb_error, bytes) outcome" where
  "EncodeBinlogEvent e = obind (BinlogEvent_Marshal e) (\<lambda>data. Ok (MySQLBinlogEventType # data))"

definition IsBinlogEvent :: "Entry \<Rightarrow> bool" where
  "IsBinlogEvent e \<longleftrightarrow>
     EType e = EntryNormal \<and>
     (case nil_bytes (EData e) of [] \<Rightarrow> False | b # _ \<Rightarrow> b = MySQLBinlogEventType)"

definition DecodeBinlogEvent :: "Entry \<Rightarrow> (pb_error, BinlogEvent) outcome" where
  "DecodeBinlogEvent e =
     (case nil_bytes (EData e) of
        [] \<Rightarrow> Crash
      | _ # body \<Rightarrow>
          (case BinlogEvent_Unmarshal new_BinlogEvent body of Ok ev \<Rightarrow> Ok ev | _ \<Rightarrow> Crash))"

lemma nil_bytes_simps [simp]: "nil_bytes None = []" "nil_bytes (Some b) = b"
  by (simp_all add: nil_bytes_def)

end
