(* ===== verification/Storage_Base.thy ===== *)
theory Storage_Base
  imports Raft_Entry
begin

text \<open>
  What the parts of the log storage share: the error values of \<^verbatim>\<open>src/storage/errors.go\<close> (with the
  errors of etcd raft they return), the operating system as a parameter, the status of a segment,
  and the names of the files (\<^verbatim>\<open>src/storage/segment.go\<close>, \<^verbatim>\<open>src/utils/file_utils.go\<close>).
\<close>

section \<open>Errors and the operating system\<close>

text \<open>
  The operating system is a parameter \<open>os\<close> of every operation that makes a system call: \<open>os c p\<close>
  says whether the call \<open>c\<close> on the file named \<open>p\<close> succeeds. A call that fails changes nothing.
\<close>

datatype syscall =
    SysOpen | SysStat | SysPreallocate | SysMmap | SysMunmap | SysClose | SysSync | SysRename
  | SysRemove | SysTruncate | SysSeek | SysRead | SysWrite | SysMkdir

type_synonym os = "syscall \<Rightarrow> string \<Rightarrow> bool"

definition os_ok :: os where
  "os_ok = (\<lambda>_ _. True)"

lemma os_ok_simp [simp]: "os_ok c p"
  by (simp add: os_ok_def)

datatype storage_error =
    ErrKeyNotFound | ErrKeyIsNil | ErrArgsIllegal | ErrNotContain | ErrOutOfBound
  | ErrNotContinuous | ErrClosed | ErrNotWritable
  | ErrCompacted | ErrUnavailable | ErrSnapshotTemporarilyUnavailable
  | ErrOS syscall | ErrProto pb_error | ErrBolt | ErrGtid | ErrJson
  | ErrEvent | ErrUnsupport

text \<open>
  The result of an operation on a state \<open>'s\<close>: what the Go call gives back, and the state it leaves
  behind. A call that returns an error leaves the state as it was changed up to there.
\<close>

type_synonym ('s, 'a) res = "(storage_error, 'a) outcome \<times> 's"

text \<open>
  Calling an operation of a part and going on only when it returns no error: \<open>put\<close> stores the part
  back in the whole. This is \<^verbatim>\<open>x, err := s.part.f(); if err != nil { return err }; ...\<close>.
\<close>

definition sbind ::
    "('e, 'a) outcome \<times> 't \<Rightarrow> ('t \<Rightarrow> 's) \<Rightarrow> ('a \<Rightarrow> 's \<Rightarrow> ('e, 'b) outcome \<times> 's) \<Rightarrow> ('e, 'b) outcome \<times> 's" where
  "sbind r put k =
     (case r of
        (Ok a, t) \<Rightarrow> k a (put t)
      | (Err e, t) \<Rightarrow> (Err e, put t)
      | (Crash, t) \<Rightarrow> (Crash, put t))"

lemma sbind_simps [simp]:
  "sbind (Ok a, t) put k = k a (put t)"
  "sbind (Err e, t) put k = (Err e, put t)"
  "sbind (Crash, t) put k = (Crash, put t)"
  by (simp_all add: sbind_def)

lemma sbind_eq_Ok:
  "sbind r put k = (Ok b, s) \<longleftrightarrow> (\<exists>a t. r = (Ok a, t) \<and> k a (put t) = (Ok b, s))"
  by (auto simp: sbind_def split: prod.splits outcome.splits)

text \<open>The same where an error stores back something else than success does.\<close>

definition scall ::
    "('t, 'a) res \<Rightarrow> ('t \<Rightarrow> 's) \<Rightarrow> ('a \<Rightarrow> 't \<Rightarrow> ('s, 'b) res) \<Rightarrow> ('s, 'b) res" where
  "scall r onerr k =
     (case r of
        (Ok a, t) \<Rightarrow> k a t
      | (Err e, t) \<Rightarrow> (Err e, onerr t)
      | (Crash, t) \<Rightarrow> (Crash, onerr t))"

lemma scall_simps [simp]:
  "scall (Ok a, t) onerr k = k a t"
  "scall (Err e, t) onerr k = (Err e, onerr t)"
  "scall (Crash, t) onerr k = (Crash, onerr t)"
  by (simp_all add: scall_def)

text \<open>
  \<open>runs os r Q\<close>: the operation with the result \<open>r\<close> returns without an error and with \<open>Q\<close>, unless
  a system call fails. Under an operating system on which every call succeeds this is total
  correctness: no error and no crash.
\<close>

definition all_ok :: "os \<Rightarrow> bool" where
  "all_ok os \<longleftrightarrow> (\<forall>c p. os c p)"

definition runs :: "os \<Rightarrow> ('s, 'a) res \<Rightarrow> ('a \<Rightarrow> 's \<Rightarrow> bool) \<Rightarrow> bool" where
  "runs os r Q \<longleftrightarrow>
     (case r of (Ok a, s) \<Rightarrow> Q a s | (Err _, _) \<Rightarrow> \<not> all_ok os | (Crash, _) \<Rightarrow> \<not> all_ok os)"

lemma runs_simps [simp]:
  "runs os (Ok a, s) Q \<longleftrightarrow> Q a s"
  "runs os (Err e, s) Q \<longleftrightarrow> \<not> all_ok os"
  "runs os (Crash, s) Q \<longleftrightarrow> \<not> all_ok os"
  by (simp_all add: runs_def)

lemma runs_sbind [simp]:
  "runs os (sbind r put k) P \<longleftrightarrow> runs os r (\<lambda>a t. runs os (k a (put t)) P)"
proof -
  obtain x t where "r = (x, t)" by (cases r)
  then show ?thesis by (cases x) auto
qed

lemma runs_scall [simp]:
  "runs os (scall r onerr k) P \<longleftrightarrow> runs os r (\<lambda>a t. runs os (k a t) P)"
proof -
  obtain x t where "r = (x, t)" by (cases r)
  then show ?thesis by (cases x) auto
qed

lemma runs_fatal [simp]:
  "runs os (case r of (Ok a, t) \<Rightarrow> k a t | (_, t) \<Rightarrow> (Crash, h t)) P \<longleftrightarrow>
     runs os r (\<lambda>a t. runs os (k a t) P)"
proof -
  obtain x t where "r = (x, t)" by (cases r)
  then show ?thesis by (cases x) auto
qed

lemma runs_obind [simp]:
  "runs os (obind r k, s) P \<longleftrightarrow> runs os (r, s) (\<lambda>a s'. runs os (k a, s') P)"
  by (cases r) auto

lemma runs_result [simp]:
  "runs os (case r of (Ok a, t) \<Rightarrow> f a t | (Err e, t) \<Rightarrow> Err e | (Crash, t) \<Rightarrow> Crash, s) P \<longleftrightarrow>
     runs os r (\<lambda>a t. runs os (f a t, s) P)"
proof -
  obtain x t where "r = (x, t)" by (cases r)
  then show ?thesis by (cases x) auto
qed

lemma runs_mono: "runs os r Q \<Longrightarrow> (\<And>a s. Q a s \<Longrightarrow> P a s) \<Longrightarrow> runs os r P"
  by (auto simp: runs_def split: prod.splits outcome.splits)

lemma runs_conj:
  assumes "runs os r P" "runs os r Q"
  shows "runs os r (\<lambda>a s. P a s \<and> Q a s)"
proof -
  obtain x t where "r = (x, t)" by (cases r)
  then show ?thesis using assms by (cases x) auto
qed

lemma runs_always:
  assumes "\<And>a s. r = (Ok a, s) \<Longrightarrow> Q a s" "runs os r P"
  shows "runs os r (\<lambda>a s. P a s \<and> Q a s)"
proof -
  obtain x t where "r = (x, t)" by (cases r)
  then show ?thesis using assms by (cases x) auto
qed

lemma runs_total:
  assumes "runs os r Q" "all_ok os"
  obtains a s where "r = (Ok a, s)" "Q a s"
  using assms by (auto simp: runs_def split: prod.splits outcome.splits)

lemma runs_okD: "runs os r Q \<Longrightarrow> r = (Ok a, s) \<Longrightarrow> Q a s"
  by simp

lemma all_ok_os_ok [simp]: "all_ok os_ok"
  by (simp add: all_ok_def)

lemma all_okD [dest]: "\<not> os c p \<Longrightarrow> \<not> all_ok os"
  by (auto simp: all_ok_def)

section \<open>Segment status and file names\<close>

datatype SegmentStatus = SegmentReadOnly | SegmentRDWR | SegmentClosed

definition RecordLengthSize :: nat where "RecordLengthSize = 4"
definition IndexEntrySize :: nat where "IndexEntrySize = 12"

definition LogSuffix :: string where "LogSuffix = ''.log''"
definition IndexSuffix :: string where "IndexSuffix = ''.index''"

definition pad20 :: "u64 \<Rightarrow> string" where
  "pad20 v = zero_pad 20 (dec (unat v))"

definition ReadonlySegmentPattern :: "u64 \<Rightarrow> u64 \<Rightarrow> string" where
  "ReadonlySegmentPattern a b = pad20 a @ ''-'' @ pad20 b @ ''.log''"

definition ReadonlyIndexPattern :: "u64 \<Rightarrow> u64 \<Rightarrow> string" where
  "ReadonlyIndexPattern a b = pad20 a @ ''-'' @ pad20 b @ ''.index''"

definition ReadWriteSegmentPattern :: "u64 \<Rightarrow> string" where
  "ReadWriteSegmentPattern a = pad20 a @ ''-inprogress.log''"

definition ReadWriteIndexPattern :: "u64 \<Rightarrow> string" where
  "ReadWriteIndexPattern a = pad20 a @ ''-inprogress.index''"

definition HasSuffix :: "string \<Rightarrow> string \<Rightarrow> bool" where
  "HasSuffix s suf \<longleftrightarrow> length suf \<le> length s \<and> drop (length s - length suf) s = suf"

definition TrimSuffix :: "string \<Rightarrow> string \<Rightarrow> string" where
  "TrimSuffix s suf = (if HasSuffix s suf then take (length s - length suf) s else s)"

definition GetIndexName :: "string \<Rightarrow> string" where
  "GetIndexName segmentName = TrimSuffix segmentName LogSuffix @ IndexSuffix"

text \<open>
  \<^verbatim>\<open>fmt.Sscanf\<close> with the two patterns: \<^verbatim>\<open>%020d\<close> into a \<^verbatim>\<open>uint64\<close> skips blanks and takes at most
  twenty digits, and the other characters of the pattern must match.
\<close>

definition scan_uint20 :: "string \<Rightarrow> (u64 \<times> string) option" where
  "scan_uint20 s =
     (let s' = dropWhile (\<lambda>c. c = CHR '' '') s; d = takeWhile is_digit (take 20 s')
      in case ParseUint d of None \<Rightarrow> None | Some v \<Rightarrow> Some (v, drop (length d) s'))"

definition Sscanf_ReadonlySegment :: "string \<Rightarrow> (u64 \<times> u64) option" where
  "Sscanf_ReadonlySegment name =
     (case scan_uint20 name of
        Some (a, CHR ''-'' # rest) \<Rightarrow>
          (case scan_uint20 rest of
             Some (b, rest') \<Rightarrow> if take 4 rest' = ''.log'' then Some (a, b) else None
           | None \<Rightarrow> None)
      | _ \<Rightarrow> None)"

definition Sscanf_ReadWriteSegment :: "string \<Rightarrow> u64 option" where
  "Sscanf_ReadWriteSegment name =
     (case scan_uint20 name of
        Some (a, rest) \<Rightarrow> if take 15 rest = ''-inprogress.log'' then Some a else None
      | None \<Rightarrow> None)"

lemma u64_less_10_20: "unat (v :: u64) < 10 ^ 20"
  using unsigned_less [of v, where 'a = nat] by simp

lemma length_pad20 [simp]: "length (pad20 v) = 20"
  unfolding pad20_def by (rule length_zero_pad [OF u64_less_10_20]) simp

lemma pad20_less_iff: "pad20 a < pad20 b \<longleftrightarrow> a < b"
proof -
  have "list_all is_digit (pad20 v)" "dec_val (pad20 v) = unat v" for v
    by (simp_all add: pad20_def zero_pad_digits)
  then show ?thesis
    using digit_string_less_iff [of "pad20 a" "pad20 b"] by (simp add: word_less_nat_alt)
qed

lemma scan_uint20_pad20 [simp]: "scan_uint20 (pad20 v @ rest) = Some (v, rest)"
proof -
  obtain c s where cs: "pad20 v = c # s" by (metis length_pad20 list.size(3) list.exhaust zero_neq_numeral)
  have d: "list_all is_digit (pad20 v)" by (simp add: pad20_def zero_pad_digits)
  then have "c \<noteq> CHR '' ''" using cs by (auto simp: is_digit_def)
  then have "dropWhile (\<lambda>c. c = CHR '' '') (pad20 v @ rest) = pad20 v @ rest" by (simp add: cs)
  moreover have "takeWhile is_digit (take 20 (pad20 v @ rest)) = pad20 v"
    using d by (simp add: takeWhile_eq_all_conv list_all_iff)
  ultimately show ?thesis by (simp add: scan_uint20_def pad20_def)
qed

lemma Sscanf_patterns [simp]:
  "Sscanf_ReadonlySegment (ReadonlySegmentPattern a b) = Some (a, b)"
  "Sscanf_ReadWriteSegment (ReadWriteSegmentPattern a) = Some a"
  by (simp_all add: Sscanf_ReadonlySegment_def Sscanf_ReadWriteSegment_def
      ReadonlySegmentPattern_def ReadWriteSegmentPattern_def)

lemma GetIndexName_patterns [simp]:
  "GetIndexName (ReadonlySegmentPattern a b) = ReadonlyIndexPattern a b"
  "GetIndexName (ReadWriteSegmentPattern a) = ReadWriteIndexPattern a"
  by (simp_all add: GetIndexName_def TrimSuffix_def HasSuffix_def LogSuffix_def IndexSuffix_def
      ReadonlySegmentPattern_def ReadWriteSegmentPattern_def ReadonlyIndexPattern_def
      ReadWriteIndexPattern_def)

end
