(* ===== verification/Mysql_Packet.thy ===== *)
theory Mysql_Packet
  imports Storage_Base
begin

text \<open>
  Packets of the MySQL protocol on a connection: \<^verbatim>\<open>src/mysql/base_conn.go\<close>. The connection is the
  bytes that are still to be read and the bytes that were written. The network is a parameter: it says which
  write fails, and how many bytes of it are sent before.
\<close>

section \<open>The connection\<close>

datatype mysql_error =
    ErrSQLNotSupport | ErrBadConn | ErrLargePacket | ErrChecksum
  | ErrConn | ErrPayloadLength | ErrPacketSequence
  | ErrNoSuchUser | ErrAccessDenied | ErrCanceled | ErrStore storage_error | ErrUUIDIsNull | ErrSqlParse | ErrRuntime

definition MaxPayloadLen :: nat where "MaxPayloadLen = 2 ^ 24 - 1"
definition OKHeaderByte :: nat where "OKHeaderByte = 1"

record BaseConn =
  received :: bytes
  sent :: bytes
  Sequence :: byte

type_synonym net = "nat \<Rightarrow> nat option"

text \<open>A write after \<open>length (sent c)\<close> bytes: all of it is sent, or the network fails after \<open>k\<close> bytes.\<close>

definition conn_Write :: "net \<Rightarrow> bytes \<Rightarrow> BaseConn \<Rightarrow> (mysql_error, unit) outcome \<times> BaseConn" where
  "conn_Write net p c =
     (case net (length (sent c)) of
        None \<Rightarrow> (Ok (), c\<lparr>sent := sent c @ p\<rparr>)
      | Some k \<Rightarrow> (Err ErrConn, c\<lparr>sent := sent c @ take k p\<rparr>))"

definition NewBaseConn :: "bytes \<Rightarrow> BaseConn" where
  "NewBaseConn bs = \<lparr>received = bs, sent = [], Sequence = 0\<rparr>"

text \<open>The first three bytes of a packet.\<close>

definition le24 :: "nat \<Rightarrow> bytes" where
  "le24 n = [of_nat n, of_nat (n div 2 ^ 8), of_nat (n div 2 ^ 16)]"

definition get_le24 :: "bytes \<Rightarrow> nat" where
  "get_le24 h = unat (h ! 0) + 2 ^ 8 * unat (h ! 1) + 2 ^ 16 * unat (h ! 2)"

text \<open>\<^verbatim>\<open>ReadPacketTo\<close>: the result is what it writes to its argument. Reading past the end of the received is the end of
  the connection.\<close>

function ReadPacketTo :: "BaseConn \<Rightarrow> (mysql_error, bytes) outcome \<times> BaseConn" where
  "ReadPacketTo c =
     (if length (received c) < 4 then (Err ErrConn, c\<lparr>received := []\<rparr>)
      else
        let header = take 4 (received c); len = get_le24 header; c = c\<lparr>received := drop 4 (received c)\<rparr>
        in if len < 1 then (Err ErrPayloadLength, c)
           else if header ! 3 \<noteq> Sequence c then (Err ErrPacketSequence, c)
           else
             let c = c\<lparr>Sequence := Sequence c + 1\<rparr>
             in if length (received c) < len then (Err ErrConn, c\<lparr>received := []\<rparr>)
                else
                  let data = take len (received c); c = c\<lparr>received := drop len (received c)\<rparr>
                  in if len < MaxPayloadLen then (Ok data, c)
                     else (case ReadPacketTo c of
                             (Ok d, c) \<Rightarrow> (Ok (data @ d), c)
                           | (Err e, c) \<Rightarrow> (Err e, c)
                           | (Crash, c) \<Rightarrow> (Crash, c)))"
  by pat_completeness auto
termination
  by (relation "measure (\<lambda>c. length (received c))") auto

declare ReadPacketTo.simps [simp del]

definition ReadPacket :: "BaseConn \<Rightarrow> (mysql_error, bytes) outcome \<times> BaseConn" where
  "ReadPacket c = ReadPacketTo c"

text \<open>\<^verbatim>\<open>WritePacket\<close>: the first four bytes of \<open>data\<close> are room for the header.\<close>

function WritePacket :: "net \<Rightarrow> bytes \<Rightarrow> BaseConn \<Rightarrow> (mysql_error, unit) outcome \<times> BaseConn" where
  "WritePacket net data c =
     (if length data < 4 then (Crash, c)
      else if MaxPayloadLen \<le> length data - 4 then
        (case conn_Write net ([0xff, 0xff, 0xff, Sequence c] @ take MaxPayloadLen (drop 4 data)) c of
           (Ok _, c) \<Rightarrow> WritePacket net (drop MaxPayloadLen data) (c\<lparr>Sequence := Sequence c + 1\<rparr>)
         | (Err e, c) \<Rightarrow> (Err e, c)
         | (Crash, c) \<Rightarrow> (Crash, c))
      else
        (case conn_Write net (le24 (length data - 4) @ [Sequence c] @ drop 4 data) c of
           (Ok _, c) \<Rightarrow> (Ok (), c\<lparr>Sequence := Sequence c + 1\<rparr>)
         | (Err e, c) \<Rightarrow> (Err e, c)
         | (Crash, c) \<Rightarrow> (Crash, c)))"
  by pat_completeness auto
termination
  by (relation "measure (\<lambda>(net, data, c). length data)") (auto simp: MaxPayloadLen_def)

declare WritePacket.simps [simp del]

text \<open>\<^verbatim>\<open>WriteEvent\<close>: the buffered writer is flushed at the end, so that its bytes are one write.\<close>

definition WriteEvent :: "net \<Rightarrow> bytes \<Rightarrow> bool \<Rightarrow> BaseConn \<Rightarrow> (mysql_error, unit) outcome \<times> BaseConn" where
  "WriteEvent net data first c =
     (let packetLen = (if first then length data + OKHeaderByte else length data)
      in if MaxPayloadLen < packetLen then (Err ErrLargePacket, c)
         else
           (case conn_Write net (le24 packetLen @ [Sequence c] @ (if first then [0] else []) @ data) c of
              (Ok _, c) \<Rightarrow> (Ok (), c\<lparr>Sequence := Sequence c + 1\<rparr>)
            | (Err e, c) \<Rightarrow> (Err e, c)
            | (Crash, c) \<Rightarrow> (Crash, c)))"

definition ResetSequence :: "BaseConn \<Rightarrow> BaseConn" where
  "ResetSequence c = c\<lparr>Sequence := 0\<rparr>"

section \<open>The protocol\<close>

text \<open>What the protocol says about the bytes on the wire: a payload is cut into pieces of \<^const>\<open>MaxPayloadLen\<close> bytes
  and a last piece that is shorter, possibly empty; every piece has a header with its length and the sequence
  number. \<open>framed q p w q'\<close>: the bytes \<open>w\<close> carry the payload \<open>p\<close>, with sequence numbers from \<open>q\<close> to before \<open>q'\<close>.\<close>

definition packet :: "byte \<Rightarrow> bytes \<Rightarrow> bytes" where
  "packet q p = le24 (length p) @ [q] @ p"

inductive framed :: "byte \<Rightarrow> bytes \<Rightarrow> bytes \<Rightarrow> byte \<Rightarrow> bool" where
  last: "length p < MaxPayloadLen \<Longrightarrow> framed q p (packet q p) (q + 1)"
| more: "length p = MaxPayloadLen \<Longrightarrow> framed (q + 1) r w q' \<Longrightarrow> framed q (p @ r) (packet q p @ w) q'"

inductive_simps framed_simps: "framed q p w q'"

lemma MaxPayloadLen_bounds: "4 < MaxPayloadLen" "MaxPayloadLen < 2 ^ 24"
  by (simp_all add: MaxPayloadLen_def)

lemma length_le24 [simp]: "length (le24 n) = 3"
  by (simp add: le24_def)

lemma length_packet [simp]: "length (packet q p) = length p + 4"
  by (simp add: packet_def)

lemma get_le24_le24:
  assumes "n < 2 ^ 24"
  shows "get_le24 (le24 n @ r) = n"
proof -
  have "unat (of_nat m :: byte) = m mod 256" for m by (simp add: unat_of_nat)
  then have "get_le24 (le24 n @ r) = n mod 256 + 256 * (n div 256 mod 256) + 65536 * (n div 65536 mod 256)"
    by (simp add: get_le24_def le24_def)
  moreover have "n div 65536 mod 256 = n div 256 div 256" using assms by (simp add: div_less_mono flip: div_mult2_eq)
  moreover have "n mod 256 + 256 * (n div 256) = n" "n div 256 mod 256 + 256 * (n div 256 div 256) = n div 256" by simp_all
  ultimately show ?thesis by linarith
qed

lemma unat_byte_less: "unat b < 256" for b :: byte
proof -
  have "unat b < 2 ^ LENGTH(8)" by (rule unsigned_less)
  then show ?thesis by simp
qed

lemma le24_get_le24:
  assumes "3 \<le> length h"
  shows "le24 (get_le24 h) = take 3 h"
proof -
  obtain a b c r where h: "h = a # b # c # r"
    using assms by (metis One_nat_def Suc_le_length_iff numeral_3_eq_3)
  let ?m = "unat b + 256 * unat c"
  have n: "get_le24 h = unat a + 256 * ?m" by (simp add: get_le24_def h)
  have "unat a < 256" "unat b < 256" by (rule unat_byte_less)+
  then have d: "(unat a + 256 * ?m) div 256 = ?m" "?m div 256 = unat c" by simp_all
  then have "(unat a + 256 * ?m) div 65536 = unat c" using div_mult2_eq [of "unat a + 256 * ?m" 256 256] by simp
  moreover have z: "(256 :: byte) = 0" "(65536 :: byte) = 0" by simp_all
  ultimately show ?thesis unfolding n le24_def using d by (simp add: h z)
qed

lemma packet_header:
  assumes "length p < 2 ^ 24"
  shows "get_le24 (take 4 (packet q p @ r)) = length p" "take 4 (packet q p @ r) ! 3 = q" "drop 4 (packet q p @ r) = p @ r"
proof -
  have t: "take 4 (packet q p @ r) = le24 (length p) @ [q]" by (simp add: packet_def)
  show "get_le24 (take 4 (packet q p @ r)) = length p" unfolding t by (rule get_le24_le24) (rule assms)
  show "take 4 (packet q p @ r) ! 3 = q" unfolding t by (simp add: nth_append)
  show "drop 4 (packet q p @ r) = p @ r" by (simp add: packet_def)
qed

lemma packet_inj:
  assumes "packet q p @ r = packet q' p' @ r'" "length p < 2 ^ 24" "length p' < 2 ^ 24"
  shows "p = p' \<and> q = q' \<and> r = r'"
proof -
  have l: "length p = length p'" using packet_header(1) [OF assms(2)] packet_header(1) [OF assms(3)] assms(1) by metis
  have "p @ r = p' @ r'" using packet_header(3) [OF assms(2)] packet_header(3) [OF assms(3)] assms(1) by metis
  moreover have "q = q'" using packet_header(2) [OF assms(2)] packet_header(2) [OF assms(3)] assms(1) by metis
  ultimately show ?thesis using l by simp
qed

text \<open>The bytes on the wire determine the payload, whatever follows them.\<close>

lemma framed_unique:
  "framed q p w q' \<Longrightarrow> framed q p2 w2 q2 \<Longrightarrow> w @ r = w2 @ r2 \<Longrightarrow> p = p2 \<and> w = w2 \<and> q' = q2 \<and> r = r2"
proof (induction arbitrary: p2 w2 r r2 rule: framed.induct)
  case (last p q)
  have b: "length p < 2 ^ 24" using last.hyps MaxPayloadLen_bounds by simp
  from last.prems(1) consider "length p2 < MaxPayloadLen" "w2 = packet q p2" "q2 = q + 1"
    | p' w' where "length p' = MaxPayloadLen" "w2 = packet q p' @ w'"
    unfolding framed_simps [of q p2] by blast
  then show ?case
  proof cases
    case 1
    then have "length p2 < 2 ^ 24" using MaxPayloadLen_bounds(2) by linarith
    then show ?thesis using packet_inj [of q p r q p2 r2] 1 last.prems(2) b by simp
  next
    case 2
    then have "length p' < 2 ^ 24" using MaxPayloadLen_bounds(2) by linarith
    then show ?thesis using packet_inj [of q p r q p' "w' @ r2"] 2 last b by auto
  qed
next
  case (more p q s w q')
  have b: "length p < 2 ^ 24" using more.hyps MaxPayloadLen_bounds by simp
  from more.prems(1) consider "length p2 < MaxPayloadLen" "w2 = packet q p2" "q2 = q + 1"
    | p' s' w' where "length p' = MaxPayloadLen" "w2 = packet q p' @ w'" "p2 = p' @ s'" "framed (q + 1) s' w' q2"
    unfolding framed_simps [of q p2] by blast
  then show ?case
  proof cases
    case 1
    then have "length p2 < 2 ^ 24" using MaxPayloadLen_bounds(2) by linarith
    then show ?thesis using packet_inj [of q p "w @ r" q p2 r2] 1 more b by auto
  next
    case 2
    then have "length p' < 2 ^ 24" using MaxPayloadLen_bounds(2) by linarith
    then have "p = p'" "w @ r = w' @ r2" using packet_inj [of q p "w @ r" q p' "w' @ r2"] 2 more.prems(2) b by auto
    then show ?thesis using more.IH [OF 2(4), of r r2] 2 by auto
  qed
qed

lemma framed_sequence: "framed q p w q' \<Longrightarrow> q' = q + of_nat (length p div MaxPayloadLen + 1)"
proof (induction rule: framed.induct)
  case (more p q r w q')
  have "(MaxPayloadLen + length r) div MaxPayloadLen = Suc (length r div MaxPayloadLen)"
    using MaxPayloadLen_bounds(1) by (intro div_add_self1 [THEN trans]) simp_all
  then show ?case using more by simp
qed simp

lemma framed_total: "\<exists>w q'. framed q p w q'"
proof (induction "length p" arbitrary: p q rule: less_induct)
  case less
  show ?case
  proof (cases "length p < MaxPayloadLen")
    case True
    then show ?thesis using framed.last by blast
  next
    case False
    then have "length (drop MaxPayloadLen p) < length p" using MaxPayloadLen_bounds by simp
    then obtain w q' where "framed (q + 1) (drop MaxPayloadLen p) w q'" using less.hyps by blast
    from framed.more [OF _ this, of "take MaxPayloadLen p"] False
    have "framed q (take MaxPayloadLen p @ drop MaxPayloadLen p) (packet q (take MaxPayloadLen p) @ w) q'" by simp
    then show ?thesis unfolding append_take_drop_id by blast
  qed
qed

section \<open>The code and the protocol\<close>

abbreviation net_ok :: net where
  "net_ok \<equiv> (\<lambda>_. None)"

lemma conn_Write_ok [simp]: "conn_Write net_ok p c = (Ok (), c\<lparr>sent := sent c @ p\<rparr>)"
  by (simp add: conn_Write_def)

lemma header_max: "[0xff, 0xff, 0xff] = le24 MaxPayloadLen"
  by (simp add: le24_def MaxPayloadLen_def)

lemma WritePacket_framed:
  assumes "length hdr = 4" "framed (Sequence c) p w q'"
  shows "WritePacket net_ok (hdr @ p) c = (Ok (), c\<lparr>sent := sent c @ w, Sequence := q'\<rparr>)"
  using assms(2,1)
proof (induction "Sequence c" p w q' arbitrary: c hdr rule: framed.induct)
  case (last p)
  then show ?case by (simp add: WritePacket.simps packet_def)
next
  case (more p r w q')
  let ?c = "c\<lparr>sent := sent c @ packet (Sequence c) p, Sequence := Sequence c + 1\<rparr>"
  have f: "[0xff, 0xff, 0xff, Sequence c] @ take MaxPayloadLen p = packet (Sequence c) p"
    using header_max more.hyps(1) by (simp add: packet_def)
  have d: "drop MaxPayloadLen (hdr @ p @ r) = drop (MaxPayloadLen - 4) p @ r"
    using more.prems more.hyps(1) MaxPayloadLen_bounds(1) by simp
  have "WritePacket net_ok (drop (MaxPayloadLen - 4) p @ r) ?c = (Ok (), ?c\<lparr>sent := sent ?c @ w, Sequence := q'\<rparr>)"
    using more.hyps(1) MaxPayloadLen_bounds(1) by (intro more.hyps(3)) simp_all
  then show ?case
    using more.prems more.hyps(1) f d by (subst WritePacket.simps) simp
qed

lemma ReadPacketTo_framed:
  assumes "framed (Sequence c) p w q'" "received c = w @ rest"
  shows "ReadPacketTo c =
    (if length p mod MaxPayloadLen = 0 then (Err ErrPayloadLength, c\<lparr>received := rest, Sequence := q' - 1\<rparr>)
     else (Ok p, c\<lparr>received := rest, Sequence := q'\<rparr>))"
  using assms
proof (induction "Sequence c" p w q' arbitrary: c rule: framed.induct)
  case (last p)
  have "length p < 2 ^ 24" using last.hyps MaxPayloadLen_bounds by simp
  note h = packet_header [OF this, of "Sequence c" rest]
  show ?case
    using last h by (subst ReadPacketTo.simps) (simp add: Let_def)
next
  case (more p r w q')
  have "length p < 2 ^ 24" using more.hyps MaxPayloadLen_bounds by simp
  note h = packet_header [OF this, of "Sequence c" "w @ rest"]
  have "0 < length p" using more.hyps(1) MaxPayloadLen_bounds by simp
  moreover have "ReadPacketTo (c\<lparr>Sequence := Sequence c + 1, received := w @ rest\<rparr>) =
    (if length r mod MaxPayloadLen = 0 then (Err ErrPayloadLength, c\<lparr>received := rest, Sequence := q' - 1\<rparr>)
     else (Ok r, c\<lparr>received := rest, Sequence := q'\<rparr>))"
    by (subst more.hyps(3)) simp_all
  ultimately show ?case
    using more.hyps(1) more.prems h by (subst ReadPacketTo.simps) (simp add: Let_def)
qed

lemma four_bytes: "4 \<le> length xs \<Longrightarrow> \<exists>a b c d r. xs = a # b # c # d # r"
  by (auto simp: numeral_eq_Suc Suc_le_length_iff)

lemma ReadPacketTo_sound:
  "ReadPacketTo c = (Ok p, c') \<Longrightarrow> \<exists>w. framed (Sequence c) p w (Sequence c') \<and> received c = w @ received c' \<and> sent c' = sent c"
proof (induction c arbitrary: p c' rule: ReadPacketTo.induct)
  case (1 c)
  have "4 \<le> length (received c)" using 1(2) by (auto simp: ReadPacketTo.simps [of c] split: if_splits)
  then obtain b0 b1 b2 b3 r where rc: "received c = b0 # b1 # b2 # b3 # r" using four_bytes by blast
  let ?l = "get_le24 [b0, b1, b2, b3]" and ?q = "Sequence c"
  let ?c = "c\<lparr>Sequence := ?q + 1, received := drop ?l r\<rparr>"
  have l: "0 < ?l" "b3 = ?q" "?l \<le> length r"
    and res: "(if ?l < MaxPayloadLen then (Ok (take ?l r), ?c)
       else (case ReadPacketTo ?c of (Ok d, c) \<Rightarrow> (Ok (take ?l r @ d), c) | (Err e, c) \<Rightarrow> (Err e, c) | (Crash, c) \<Rightarrow> (Crash, c))) = (Ok p, c')"
    using 1(2) by (auto simp: ReadPacketTo.simps [of c] Let_def rc split: if_splits)
  have f: "received c = packet ?q (take ?l r) @ drop ?l r"
    using le24_get_le24 [of "[b0, b1, b2, b3]"] l by (simp add: packet_def rc)
  show ?case
  proof (cases "?l < MaxPayloadLen")
    case True
    then have "framed ?q (take ?l r) (packet ?q (take ?l r)) (?q + 1)" using l by (intro framed.last) simp
    then show ?thesis using res True f by auto
  next
    case False
    have "?l \<le> MaxPayloadLen"
      using unat_byte_less [of b0] unat_byte_less [of b1] unat_byte_less [of b2] by (simp add: get_le24_def MaxPayloadLen_def)
    then have m: "?l = MaxPayloadLen" using False by simp
    obtain d where d: "ReadPacketTo ?c = (Ok d, c')" "p = take ?l r @ d" using res False by (auto split: prod.splits outcome.splits)
    have "\<exists>w. framed (Sequence ?c) d w (Sequence c') \<and> received ?c = w @ received c' \<and> sent c' = sent ?c"
      using 1(1) l False d(1) rc by (simp add: Let_def)
    then obtain w where "framed (?q + 1) d w (Sequence c')" "drop ?l r = w @ received c'" "sent c' = sent c" by auto
    then show ?thesis using framed.more [of "take ?l r" ?q d w "Sequence c'"] f d(2) m l(3) by auto
  qed
qed


text \<open>C13: a packet that \<^verbatim>\<open>WritePacket\<close> writes is the payload of the protocol, whatever its length, and the reader of
  this program gets it back unchanged unless its length is a multiple of \<^const>\<open>MaxPayloadLen\<close>: such a payload ends
  with an empty packet, which \<^verbatim>\<open>ReadPacketTo\<close> refuses as an invalid length.\<close>

theorem packet_roundtrip:
  assumes "length hdr = 4"
  shows "\<exists>w q. WritePacket net_ok (hdr @ p) c = (Ok (), c\<lparr>sent := sent c @ w, Sequence := q\<rparr>) \<and> framed (Sequence c) p w q \<and>
    ReadPacket (r\<lparr>received := w @ rest, Sequence := Sequence c\<rparr>) =
      (if length p mod MaxPayloadLen = 0
       then (Err ErrPayloadLength, r\<lparr>received := rest, Sequence := q - 1\<rparr>)
       else (Ok p, r\<lparr>received := rest, Sequence := q\<rparr>))"
proof -
  obtain w q where f: "framed (Sequence c) p w q" using framed_total by blast
  have "ReadPacket (r\<lparr>received := w @ rest, Sequence := Sequence c\<rparr>) =
    (if length p mod MaxPayloadLen = 0
     then (Err ErrPayloadLength, r\<lparr>received := rest, Sequence := q - 1\<rparr>)
     else (Ok p, r\<lparr>received := rest, Sequence := q\<rparr>))"
    unfolding ReadPacket_def by (subst ReadPacketTo_framed [of _ p w q rest]) (simp_all add: f)
  then show ?thesis using WritePacket_framed [OF assms f] f by blast
qed

theorem packet_roundtrip_witness:
  "\<exists>w q. WritePacket net_ok ([0, 0, 0, 0] @ [1, 2]) (NewBaseConn []) = (Ok (), (NewBaseConn [])\<lparr>sent := w, Sequence := q\<rparr>) \<and>
     fst (ReadPacket (NewBaseConn w)) = Ok [1, 2]"
proof -
  have "Suc (Suc 0) mod MaxPayloadLen = 2" using MaxPayloadLen_bounds(1) by simp
  then show ?thesis
    using packet_roundtrip [where hdr = "[0, 0, 0, 0]" and p = "[1, 2]" and c = "NewBaseConn []" and r = "NewBaseConn []" and rest = "[]"] by (auto simp: NewBaseConn_def)
qed

end
