(* ===== verification/Gtid_Set.thy ===== *)
theory Gtid_Set
  imports Storage_Base
begin

text \<open>
  Sets of MySQL global transaction identifiers: \<^verbatim>\<open>mysql_gtid.go\<close> of go-mysql and the UUIDs of
  satori/go.uuid, the two vendored packages whose values the metadata store keeps. An \<^verbatim>\<open>int64\<close> is an
  \<^typ>\<open>int\<close> with the wrap-around written out; a Go map is the list of its pairs, in the order in which
  an iteration visits them.
\<close>

section \<open>Strings\<close>

fun Split :: "char \<Rightarrow> string \<Rightarrow> string list" where
  "Split c [] = [[]]"
| "Split c (x # xs) =
     (if x = c then [] # Split c xs else (case Split c xs of [] \<Rightarrow> [[x]] | y # ys \<Rightarrow> (x # y) # ys))"

definition is_space :: "char \<Rightarrow> bool" where
  "is_space c \<longleftrightarrow> c \<in> {CHR '' '', CHR 0x09, CHR 0x0A, CHR 0x0B, CHR 0x0C, CHR 0x0D}"

definition TrimSpace :: "string \<Rightarrow> string" where
  "TrimSpace s = rev (dropWhile is_space (rev (dropWhile is_space s)))"

definition wrap64 :: "int \<Rightarrow> int" where
  "wrap64 i = signed_take_bit 63 i"

text \<open>\<^verbatim>\<open>strconv.ParseInt(s, 10, 64)\<close>: the value and whether there is no error. A syntax error gives 0, a
  number out of range the nearest one in range.\<close>

definition ParseInt :: "string \<Rightarrow> int \<times> bool" where
  "ParseInt s =
     (let (neg, d) = (case s of [] \<Rightarrow> (False, [])
                      | c # r \<Rightarrow> if c = CHR ''-'' then (True, r)
                                 else if c = CHR ''+'' then (False, r) else (False, s));
          v = int (dec_val d)
      in if d = [] \<or> \<not> list_all is_digit d then (0, False)
         else if neg then (if 2 ^ 63 < v then (- (2 ^ 63), False) else (- v, True))
         else (if 2 ^ 63 \<le> v then (2 ^ 63 - 1, False) else (v, True)))"

definition Sprintd :: "int \<Rightarrow> string" where
  "Sprintd i = (if i < 0 then ''-'' @ dec (nat (- i)) else dec (nat i))"

section \<open>UUIDs\<close>

definition hex_char :: "nat \<Rightarrow> char" where
  "hex_char n = char_of (if n < 10 then 48 + n else 87 + n)"

definition hex_val :: "char \<Rightarrow> nat option" where
  "hex_val c =
     (let n = of_char c :: nat
      in if 48 \<le> n \<and> n \<le> 57 then Some (n - 48)
         else if 97 \<le> n \<and> n \<le> 102 then Some (n - 87)
         else if 65 \<le> n \<and> n \<le> 70 then Some (n - 55) else None)"

definition hex_Encode :: "bytes \<Rightarrow> string" where
  "hex_Encode bs = concat (map (\<lambda>b. [hex_char (unat b div 16), hex_char (unat b mod 16)]) bs)"

fun hex_Decode :: "string \<Rightarrow> bytes option" where
  "hex_Decode [] = Some []"
| "hex_Decode [c] = None"
| "hex_Decode (c # d # s) =
     (case (hex_val c, hex_val d, hex_Decode s) of
        (Some h, Some l, Some bs) \<Rightarrow> Some (of_nat (16 * h + l) # bs)
      | _ \<Rightarrow> None)"

type_synonym UUID = bytes

definition UUID_String :: "UUID \<Rightarrow> string" where
  "UUID_String u =
     hex_Encode (take 4 u) @ ''-'' @ hex_Encode (take 2 (drop 4 u)) @ ''-'' @
     hex_Encode (take 2 (drop 6 u)) @ ''-'' @ hex_Encode (take 2 (drop 8 u)) @ ''-'' @
     hex_Encode (drop 10 u)"

definition decodeCanonical :: "string \<Rightarrow> UUID option" where
  "decodeCanonical t =
     (if t ! 8 \<noteq> CHR ''-'' \<or> t ! 13 \<noteq> CHR ''-'' \<or> t ! 18 \<noteq> CHR ''-'' \<or> t ! 23 \<noteq> CHR ''-'' then None
      else hex_Decode (take 8 t @ take 4 (drop 9 t) @ take 4 (drop 14 t) @ take 4 (drop 19 t) @ drop 24 t))"

definition decodePlain :: "string \<Rightarrow> UUID option" where
  "decodePlain t =
     (if length t = 32 then hex_Decode t
      else if length t = 36 then decodeCanonical t else None)"

definition UUID_FromString :: "string \<Rightarrow> UUID option" where
  "UUID_FromString t =
     (let l = length t
      in if l = 32 then hex_Decode t
         else if l = 36 then decodeCanonical t
         else if l = 38 then
           (if hd t \<noteq> CHR ''{'' \<or> last t \<noteq> CHR ''}'' then None else decodePlain (take 36 (drop 1 t)))
         else if l = 41 \<or> l = 45 then
           (if take 9 t \<noteq> ''urn:uuid:'' then None else decodePlain (drop 9 t))
         else None)"

section \<open>Intervals\<close>

datatype Interval = Interval (Start: int) (Stop: int)

definition Interval_Less :: "Interval \<Rightarrow> Interval \<Rightarrow> bool" where
  "Interval_Less i j = (if Start i < Start j then True else if Start i > Start j then False else Stop i < Stop j)"

instantiation Interval :: linorder
begin

definition less_Interval :: "Interval \<Rightarrow> Interval \<Rightarrow> bool" where
  "i < j \<longleftrightarrow> Interval_Less i j"

definition less_eq_Interval :: "Interval \<Rightarrow> Interval \<Rightarrow> bool" where
  "i \<le> j \<longleftrightarrow> i < j \<or> i = (j :: Interval)"

instance
proof
  fix x y z :: Interval
  show "x < y \<longleftrightarrow> x \<le> y \<and> \<not> y \<le> x" "x \<le> x" "x \<le> y \<or> y \<le> x"
    by (auto simp: less_eq_Interval_def less_Interval_def Interval_Less_def intro: Interval.expand)
  show "x \<le> y \<Longrightarrow> y \<le> z \<Longrightarrow> x \<le> z" "x \<le> y \<Longrightarrow> y \<le> x \<Longrightarrow> x = y"
    by (auto simp: less_eq_Interval_def less_Interval_def Interval_Less_def split: if_splits)
qed

end

definition parseInterval :: "string \<Rightarrow> Interval option" where
  "parseInterval str =
     (let valid = (\<lambda>i ok. if ok \<and> \<not> Stop i \<le> Start i then Some i else None)
      in case Split (CHR ''-'') str of
           [p] \<Rightarrow> (let (a, ok) = ParseInt p in valid (Interval a (wrap64 (a + 1))) ok)
         | [p, q] \<Rightarrow>
             (let (a, _) = ParseInt p; (b, ok) = ParseInt q in valid (Interval a (wrap64 (b + 1))) ok)
         | _ \<Rightarrow> None)"

definition Interval_String :: "Interval \<Rightarrow> string" where
  "Interval_String i =
     (if Stop i = wrap64 (Start i + 1) then Sprintd (Start i)
      else Sprintd (Start i) @ ''-'' @ Sprintd (wrap64 (Stop i - 1)))"

fun normalize_loop :: "Interval \<Rightarrow> Interval list \<Rightarrow> Interval list" where
  "normalize_loop lst [] = [lst]"
| "normalize_loop lst (i # s) =
     (if Start i > Stop lst then lst # normalize_loop i s
      else normalize_loop (Interval (Start lst) (if Stop lst > Stop i then Stop lst else Stop i)) s)"

definition Normalize :: "Interval list \<Rightarrow> Interval list" where
  "Normalize s = (case sort s of [] \<Rightarrow> [] | i # r \<Rightarrow> normalize_loop i r)"

text \<open>The inner loop of \<^verbatim>\<open>Contain\<close> only moves forward: \<open>s\<close> is what is left of the outer set.\<close>

fun IntervalSlice_Contain :: "Interval list \<Rightarrow> Interval list \<Rightarrow> bool" where
  "IntervalSlice_Contain s [] = True"
| "IntervalSlice_Contain s (b # sub) =
     (case dropWhile (\<lambda>i. Start b > Stop i) s of
        [] \<Rightarrow> False
      | i # r \<Rightarrow>
          if Start b < Start i \<or> Stop b > Stop i then False else IntervalSlice_Contain (i # r) sub)"

fun IntervalSlice_Equal :: "Interval list \<Rightarrow> Interval list \<Rightarrow> bool" where
  "IntervalSlice_Equal s t \<longleftrightarrow>
     length s = length t \<and> (\<forall>i\<in>{0..<length s}. Start (s ! i) = Start (t ! i) \<and> Stop (s ! i) = Stop (t ! i))"

section \<open>UUID sets\<close>

record UUIDSet =
  SID :: UUID
  Intervals :: "Interval list"

fun parseIntervals :: "string list \<Rightarrow> Interval list option" where
  "parseIntervals [] = Some []"
| "parseIntervals (p # ps) =
     (case parseInterval p of
        None \<Rightarrow> None
      | Some i \<Rightarrow> map_option (Cons i) (parseIntervals ps))"

definition ParseUUIDSet :: "string \<Rightarrow> UUIDSet option" where
  "ParseUUIDSet str =
     (case Split (CHR '':'') (TrimSpace str) of
        sid # p # ps \<Rightarrow>
          (case (UUID_FromString sid, parseIntervals (p # ps)) of
             (Some u, Some is) \<Rightarrow> Some \<lparr>SID = u, Intervals = Normalize is\<rparr>
           | _ \<Rightarrow> None)
      | _ \<Rightarrow> None)"

definition UUIDSet_Contain :: "UUIDSet \<Rightarrow> UUIDSet \<Rightarrow> bool" where
  "UUIDSet_Contain s sub \<longleftrightarrow>
     (if SID s \<noteq> SID sub then False else IntervalSlice_Contain (Intervals s) (Intervals sub))"

definition UUIDSet_String :: "UUIDSet \<Rightarrow> string" where
  "UUIDSet_String s = UUID_String (SID s) @ concat (map (\<lambda>i. '':'' @ Interval_String i) (Intervals s))"

definition AddInterval :: "UUIDSet \<Rightarrow> Interval list \<Rightarrow> UUIDSet" where
  "AddInterval s is = s\<lparr>Intervals := Normalize (Intervals s @ is)\<rparr>"

definition int64_bytes :: "int \<Rightarrow> bytes" where
  "int64_bytes i = le64 (of_int i)"

definition UUIDSet_encode :: "UUIDSet \<Rightarrow> bytes" where
  "UUIDSet_encode s =
     SID s @ int64_bytes (int (length (Intervals s))) @
     concat (map (\<lambda>i. int64_bytes (Start i) @ int64_bytes (Stop i)) (Intervals s))"

fun decode_intervals :: "nat \<Rightarrow> bytes \<Rightarrow> (Interval list \<times> bytes) option" where
  "decode_intervals 0 data = Some ([], data)"
| "decode_intervals (Suc n) data =
     (case (get_le64 (take 8 data), get_le64 (take 8 (drop 8 data))) of
        (Some a, Some b) \<Rightarrow>
          map_option (map_prod (Cons (Interval (sint a) (sint b))) id) (decode_intervals n (drop 16 data))
      | _ \<Rightarrow> None)"

text \<open>
  \<^verbatim>\<open>decode\<close> gives the set and what is left of the data. A count whose product with 16 wraps around
  passes the length test; the allocation for it then panics.
\<close>

definition UUIDSet_decode :: "bytes \<Rightarrow> (storage_error, UUIDSet \<times> bytes) outcome" where
  "UUIDSet_decode data =
     (if length data < 24 then Err ErrGtid
      else case get_le64 (take 8 (drop 16 data)) of
        None \<Rightarrow> Crash
      | Some n \<Rightarrow>
          if int (length data) < sint (16 * n) + 24 then Err ErrGtid
          else if sint n < 0 \<or> 2 ^ 59 \<le> sint n then Crash
          else (case decode_intervals (unat n) (drop 24 data) of
                  None \<Rightarrow> Crash
                | Some (is, rest) \<Rightarrow> Ok (\<lparr>SID = take 16 data, Intervals = is\<rparr>, rest)))"

section \<open>MySQL GTID sets\<close>

type_synonym MysqlGTIDSet = "(string \<times> UUIDSet) list"

definition AddSet :: "MysqlGTIDSet \<Rightarrow> UUIDSet \<Rightarrow> MysqlGTIDSet" where
  "AddSet s u =
     (let sid = UUID_String (SID u)
      in case map_of s sid of
           Some _ \<Rightarrow> map (\<lambda>(k, old). (k, if k = sid then AddInterval old (Intervals u) else old)) s
         | None \<Rightarrow> s @ [(sid, u)])"

fun parse_sets :: "MysqlGTIDSet \<Rightarrow> string list \<Rightarrow> MysqlGTIDSet option" where
  "parse_sets s [] = Some s"
| "parse_sets s (p # ps) =
     (case ParseUUIDSet p of None \<Rightarrow> None | Some u \<Rightarrow> parse_sets (AddSet s u) ps)"

definition ParseMysqlGTIDSet :: "string \<Rightarrow> MysqlGTIDSet option" where
  "ParseMysqlGTIDSet str = (if str = [] then Some [] else parse_sets [] (Split (CHR '','') str))"

fun decode_sets :: "nat \<Rightarrow> bytes \<Rightarrow> MysqlGTIDSet \<Rightarrow> (storage_error, MysqlGTIDSet) outcome" where
  "decode_sets 0 data s = Ok s"
| "decode_sets (Suc n) data s =
     obind (UUIDSet_decode data) (\<lambda>(u, rest). decode_sets n rest (AddSet s u))"

definition DecodeMysqlGTIDSet :: "bytes \<Rightarrow> (storage_error, MysqlGTIDSet) outcome" where
  "DecodeMysqlGTIDSet data =
     (if length data < 8 then Err ErrGtid
      else case get_le64 (take 8 data) of
             None \<Rightarrow> Crash
           | Some n \<Rightarrow> decode_sets (nat (sint n)) (drop 8 data) [])"

definition GTIDSet_Update :: "MysqlGTIDSet \<Rightarrow> string \<Rightarrow> MysqlGTIDSet option" where
  "GTIDSet_Update s str = map_option (AddSet s) (ParseUUIDSet str)"

definition GTIDSet_Contain :: "MysqlGTIDSet \<Rightarrow> MysqlGTIDSet \<Rightarrow> bool" where
  "GTIDSet_Contain s sub =
     list_all (\<lambda>(key, u). case map_of s key of None \<Rightarrow> False | Some own \<Rightarrow> UUIDSet_Contain own u) sub"

definition GTIDSet_Equal :: "MysqlGTIDSet \<Rightarrow> MysqlGTIDSet \<Rightarrow> bool" where
  "GTIDSet_Equal s sub =
     list_all (\<lambda>(key, u). case map_of s key of
                              None \<Rightarrow> False
                            | Some own \<Rightarrow> IntervalSlice_Equal (Intervals own) (Intervals u)) sub"

fun GTIDSet_String :: "MysqlGTIDSet \<Rightarrow> string" where
  "GTIDSet_String [] = []"
| "GTIDSet_String [(_, s)] = UUIDSet_String s"
| "GTIDSet_String ((_, s) # t # ts) = UUIDSet_String s @ '','' @ GTIDSet_String (t # ts)"

definition GTIDSet_Encode :: "MysqlGTIDSet \<Rightarrow> bytes" where
  "GTIDSet_Encode s = le64 (of_nat (length s)) @ concat (map (\<lambda>(_, u). UUIDSet_encode u) s)"

definition clone_set :: "UUIDSet \<Rightarrow> MysqlGTIDSet \<Rightarrow> MysqlGTIDSet" where
  "clone_set u c =
     (case map_of c (UUID_String (SID u)) of
        Some _ \<Rightarrow> AddSet c u
      | None \<Rightarrow> AddSet c (u\<lparr>Intervals := Normalize (Intervals u)\<rparr>))"

definition GTIDSet_Clone :: "MysqlGTIDSet \<Rightarrow> MysqlGTIDSet" where
  "GTIDSet_Clone s = fold (\<lambda>(_, u). clone_set u) s []"

section \<open>What the sets denote\<close>

definition covers :: "Interval list \<Rightarrow> int set" where
  "covers s = (\<Union>i\<in>set s. {Start i..<Stop i})"

definition proper :: "Interval \<Rightarrow> bool" where
  "proper i \<longleftrightarrow> Start i < Stop i"

text \<open>The normal form: proper intervals in ascending order with gaps between them.\<close>

fun normal :: "Interval list \<Rightarrow> bool" where
  "normal [] \<longleftrightarrow> True"
| "normal [i] \<longleftrightarrow> proper i"
| "normal (i # j # s) \<longleftrightarrow> proper i \<and> Stop i < Start j \<and> normal (j # s)"

lemma covers_simps [simp]:
  "covers [] = {}" "covers (i # s) = {Start i..<Stop i} \<union> covers s" "covers (s @ t) = covers s \<union> covers t"
  by (auto simp: covers_def)

lemma covers_sort [simp]: "covers (sort s) = covers s"
  by (simp add: covers_def)

lemma Interval_less_eq_Start: "i \<le> j \<Longrightarrow> Start i \<le> Start j"
  by (auto simp: less_eq_Interval_def less_Interval_def Interval_Less_def split: if_splits)

lemma normal_Cons: "s \<noteq> [] \<Longrightarrow> normal (i # s) \<longleftrightarrow> proper i \<and> Stop i < Start (hd s) \<and> normal s"
  by (cases s) auto

lemma normalize_loop_not_Nil: "normalize_loop lst s \<noteq> []"
  by (induction lst s rule: normalize_loop.induct) auto

lemma normalize_loop_correct:
  assumes "proper lst" "list_all proper s" "sorted s" "\<forall>i\<in>set s. Start lst \<le> Start i"
  shows "covers (normalize_loop lst s) = {Start lst..<Stop lst} \<union> covers s \<and>
    normal (normalize_loop lst s) \<and> Start (hd (normalize_loop lst s)) = Start lst"
  using assms
proof (induction s arbitrary: lst)
  case (Cons i s)
  have p: "proper i" "Start lst \<le> Start i" "\<forall>j\<in>set s. Start i \<le> Start j" "\<forall>j\<in>set s. Start lst \<le> Start j"
    "list_all proper s" "sorted s"
    using Cons.prems by (auto simp: Interval_less_eq_Start)
  show ?case
  proof (cases "Start i > Stop lst")
    case True
    then show ?thesis using Cons.IH [of i] p Cons.prems(1)
      by (auto simp: normal_Cons normalize_loop_not_Nil)
  next
    case False
    let ?l = "Interval (Start lst) (if Stop lst > Stop i then Stop lst else Stop i)"
    have "{Start ?l..<Stop ?l} = {Start lst..<Stop lst} \<union> {Start i..<Stop i}"
      using False p(1,2) Cons.prems(1) by (auto simp: proper_def)
    moreover have "proper ?l" using p(1,2) Cons.prems(1) by (auto simp: proper_def)
    ultimately show ?thesis using Cons.IH [of ?l] p False by auto
  qed
qed auto

lemma Normalize_correct:
  assumes "list_all proper s"
  shows "covers (Normalize s) = covers s" "normal (Normalize s)"
proof -
  have "covers (Normalize s) = covers (sort s) \<and> normal (Normalize s)"
  proof (cases "sort s")
    case (Cons i r)
    then have "list_all proper (i # r)" "sorted (i # r)"
      using assms by (metis list_all_iff set_sort, metis sorted_sort)
    then show ?thesis using normalize_loop_correct [of i r] Cons
      by (auto simp: Normalize_def Interval_less_eq_Start)
  qed (simp add: Normalize_def)
  then show "covers (Normalize s) = covers s" "normal (Normalize s)" by simp_all
qed

lemma normal_proper: "normal s \<Longrightarrow> list_all proper s"
  by (induction s rule: normal.induct) auto

lemma normal_above:
  assumes "normal (i # s)" "x \<in> covers s"
  shows "Stop i < x"
  using assms
proof (induction s arbitrary: i)
  case (Cons j s)
  then have j: "Stop i < Start j" "normal (j # s)" by simp_all
  then have "proper j" using normal_proper [of "j # s"] by simp
  with j show ?case using Cons.IH [of j] Cons.prems(2) by (auto simp: proper_def)
qed simp

lemma normal_tl: "normal (i # s) \<Longrightarrow> normal s"
  by (cases s) auto

lemma normal_dropWhile:
  assumes "normal s" "\<forall>x\<in>X. Start b \<le> x"
  shows "normal (dropWhile (\<lambda>i. Start b > Stop i) s)"
    "X \<subseteq> covers s \<longleftrightarrow> X \<subseteq> covers (dropWhile (\<lambda>i. Start b > Stop i) s)"
proof -
  show "normal (dropWhile (\<lambda>i. Start b > Stop i) s)"
    using assms(1)
  proof (induction s)
    case (Cons i s)
    then show ?case using normal_tl [of i s] by simp
  qed simp
  have "x \<in> covers s \<longleftrightarrow> x \<in> covers (dropWhile (\<lambda>i. Start b > Stop i) s)" if "Start b \<le> x" for x
    using that by (induction s) simp_all
  then show "X \<subseteq> covers s \<longleftrightarrow> X \<subseteq> covers (dropWhile (\<lambda>i. Start b > Stop i) s)"
    using assms(2) by (meson subset_eq)
qed

lemma interval_in_normal:
  assumes "normal (i # r)" "proper b" "Start b \<le> Stop i"
  shows "{Start b..<Stop b} \<subseteq> covers (i # r) \<longleftrightarrow> Start i \<le> Start b \<and> Stop b \<le> Stop i"
proof
  assume sub: "{Start b..<Stop b} \<subseteq> covers (i # r)"
  have b: "Start b \<in> covers (i # r)" using sub assms(2) by (auto simp: proper_def)
  have above: "Stop i < x" if "x \<in> covers r" for x using normal_above [OF assms(1) that] .
  have s: "Start i \<le> Start b" "Start b < Stop i" using b above assms(3) by force+
  have "Stop b \<le> Stop i"
  proof (rule ccontr)
    assume "\<not> Stop b \<le> Stop i"
    then have "Stop i \<in> {Start b..<Stop b}" using s by auto
    then have "Stop i \<in> covers (i # r)" using sub by blast
    then show False using above by fastforce
  qed
  then show "Start i \<le> Start b \<and> Stop b \<le> Stop i" using s by simp
qed auto

lemma Contain_iff:
  assumes "normal s" "normal sub"
  shows "IntervalSlice_Contain s sub \<longleftrightarrow> covers sub \<subseteq> covers s"
  using assms
proof (induction s sub rule: IntervalSlice_Contain.induct)
  case (2 s b sub)
  let ?s = "dropWhile (\<lambda>i. Start b > Stop i) s"
  have b: "proper b" "normal sub" using 2(3) normal_proper [of "b # sub"] normal_tl by auto
  have "\<forall>x\<in>covers (b # sub). Start b \<le> x"
    using normal_above [OF 2(3)] b(1) by (fastforce simp: proper_def)
  note s = normal_dropWhile [OF 2(2) this]
  show ?case
  proof (cases ?s)
    case Nil
    then have "\<not> covers (b # sub) \<subseteq> covers s"
      using s(2) [unfolded Nil] b(1) by (auto simp: proper_def)
    then show ?thesis unfolding IntervalSlice_Contain.simps Nil by simp
  next
    case (Cons i r)
    have "\<not> Start b > Stop i" using Cons by (metis hd_dropWhile list.distinct(1) list.sel(1))
    then have i: "{Start b..<Stop b} \<subseteq> covers (i # r) \<longleftrightarrow> Start i \<le> Start b \<and> Stop b \<le> Stop i"
      using s(1) b(1) unfolding Cons by (intro interval_in_normal) auto
    have IH: "IntervalSlice_Contain (i # r) sub \<longleftrightarrow> covers sub \<subseteq> covers (i # r)"
      if "\<not> (Start b < Start i \<or> Stop b > Stop i)"
      using 2(1) [OF Cons that] s(1) b(2) unfolding Cons by blast
    have "covers (b # sub) \<subseteq> covers s \<longleftrightarrow>
        {Start b..<Stop b} \<subseteq> covers (i # r) \<and> covers sub \<subseteq> covers (i # r)"
      using s(2) unfolding Cons by (metis covers_simps(2) Un_subset_iff)
    then show ?thesis unfolding IntervalSlice_Contain.simps Cons list.case i
      using IH by (metis not_less)
  qed
qed simp

lemma normal_least:
  assumes "normal (i # s)" "x \<in> covers (i # s)"
  shows "Start i \<le> x"
proof (cases "x \<in> covers s")
  case True
  have "proper i" using normal_proper [OF assms(1)] by simp
  then show ?thesis using normal_above [OF assms(1) True] by (simp add: proper_def)
qed (use assms(2) in simp)

lemma normal_start: "normal (i # s) \<Longrightarrow> Start i \<in> covers (i # s)"
  using normal_proper [of "i # s"] by (simp add: proper_def)

lemma normal_hd_eq:
  assumes "normal (i # s)" "normal (j # t)" "covers (i # s) = covers (j # t)"
  shows "i = j"
proof -
  have p: "proper i" "proper j" using normal_proper [OF assms(1)] normal_proper [OF assms(2)] by simp_all
  have s: "Start i = Start j"
    using normal_least [OF assms(1) normal_start [OF assms(2), folded assms(3)]]
      normal_least [OF assms(2) normal_start [OF assms(1), unfolded assms(3)]] by simp
  have "{Start i..<Stop i} \<subseteq> covers (j # t)" "{Start j..<Stop j} \<subseteq> covers (i # s)"
    using assms(3) by (metis covers_simps(2) Un_upper1)+
  then have "Stop i = Stop j"
    using interval_in_normal [OF assms(2) p(1)] interval_in_normal [OF assms(1) p(2)] s p
    by (simp add: proper_def)
  then show ?thesis using s by (simp add: Interval.expand)
qed

lemma normal_canonical:
  assumes "normal s" "normal t" "covers s = covers t"
  shows "s = t"
  using assms
proof (induction s arbitrary: t)
  case Nil
  show ?case
  proof (cases t)
    case (Cons j t')
    then show ?thesis using Nil normal_start [of j t'] by simp
  qed simp
next
  case (Cons i s)
  then obtain j t' where t: "t = j # t'" using normal_start [of i s] by (cases t) auto
  have ij: "i = j" using Cons.prems unfolding t by (rule normal_hd_eq)
  have "covers s = covers t'"
  proof -
    have "covers s = covers (i # s) \<inter> {x. Stop i < x}" "covers t' = covers (j # t') \<inter> {x. Stop j < x}"
      using normal_above [OF Cons.prems(1)] normal_above [OF Cons.prems(2) [unfolded t]] by auto
    then show ?thesis using Cons.prems(3) unfolding t ij by simp
  qed
  then show ?case using Cons.IH [of t'] Cons.prems normal_tl unfolding t ij by blast
qed

lemma Equal_iff: "IntervalSlice_Equal s t \<longleftrightarrow> s = t"
proof -
  have "s ! k = t ! k \<longleftrightarrow> Start (s ! k) = Start (t ! k) \<and> Stop (s ! k) = Stop (t ! k)" for k
    by (metis Interval.expand)
  then show ?thesis
    unfolding IntervalSlice_Equal.simps list_eq_iff_nth_eq by (metis atLeastLessThan_iff zero_le)
qed

section \<open>Sets of identifiers\<close>

definition gtids :: "MysqlGTIDSet \<Rightarrow> (string \<times> int) set" where
  "gtids s = {(k, g). \<exists>u. (k, u) \<in> set s \<and> g \<in> covers (Intervals u)}"

definition wf_UUIDSet :: "UUIDSet \<Rightarrow> bool" where
  "wf_UUIDSet u \<longleftrightarrow> length (SID u) = 16 \<and> normal (Intervals u) \<and> Intervals u \<noteq> []"

definition wf_gtids :: "MysqlGTIDSet \<Rightarrow> bool" where
  "wf_gtids s \<longleftrightarrow> distinct (map fst s) \<and> (\<forall>(k, u)\<in>set s. k = UUID_String (SID u) \<and> wf_UUIDSet u)"

lemma wf_gtids_map_of: "wf_gtids s \<Longrightarrow> map_of s k = Some u \<longleftrightarrow> (k, u) \<in> set s"
  by (auto simp: wf_gtids_def)

section \<open>UUID strings\<close>

lemma hex_val_hex_char [simp]: "n < 16 \<Longrightarrow> hex_val (hex_char n) = Some n"
  by (auto simp: hex_val_def hex_char_def Let_def)

lemma length_hex_Encode [simp]: "length (hex_Encode bs) = 2 * length bs"
  by (induction bs) (auto simp: hex_Encode_def)

lemma hex_Encode_append [simp]: "hex_Encode (a @ b) = hex_Encode a @ hex_Encode b"
  by (simp add: hex_Encode_def)

lemma hex_Decode_hex_Encode [simp]: "hex_Decode (hex_Encode bs) = Some bs"
proof (induction bs)
  case (Cons b bs)
  have "unat b < 256" using unsigned_less [of b, where 'a = nat] by simp
  then have "unat b div 16 < 16" "unat b mod 16 < 16" by auto
  moreover have "(of_nat (unat b) :: byte) = b" by simp
  ultimately show ?case using Cons by (simp add: hex_Encode_def)
qed (simp add: hex_Encode_def)

lemma UUID_FromString_String [simp]:
  assumes "length u = 16"
  shows "UUID_FromString (UUID_String u) = Some u"
proof -
  define a b c d e where "a = take 4 u" and "b = take 2 (drop 4 u)" and "c = take 2 (drop 6 u)"
    and "d = take 2 (drop 8 u)" and "e = drop 10 u"
  note parts = a_def b_def c_def d_def e_def
  have "drop 4 u = b @ drop 6 u" "drop 6 u = c @ drop 8 u" "drop 8 u = d @ e" "u = a @ drop 4 u"
    using append_take_drop_id [of 2 "drop 4 u"] append_take_drop_id [of 2 "drop 6 u"]
      append_take_drop_id [of 2 "drop 8 u"] append_take_drop_id [of 4 u] by (simp_all add: parts)
  then have u: "u = a @ b @ c @ d @ e" by argo
  have len: "length a = 4" "length b = 2" "length c = 2" "length d = 2" "length e = 6"
    using assms by (simp_all add: parts)
  have s: "UUID_String u = hex_Encode a @ ''-'' @ hex_Encode b @ ''-'' @ hex_Encode c @ ''-'' @
      hex_Encode d @ ''-'' @ hex_Encode e"
    by (simp add: UUID_String_def parts)
  have "decodeCanonical (UUID_String u) =
      hex_Decode (hex_Encode a @ hex_Encode b @ hex_Encode c @ hex_Encode d @ hex_Encode e)"
    by (simp add: s decodeCanonical_def len nth_append)
  also have "\<dots> = Some u" unfolding u by (simp flip: hex_Encode_append)
  finally show ?thesis by (simp add: UUID_FromString_def s len)
qed

lemma UUID_String_inj:
  "length u = 16 \<Longrightarrow> length v = 16 \<Longrightarrow> UUID_String u = UUID_String v \<longleftrightarrow> u = v"
  by (metis UUID_FromString_String option.inject)

section \<open>Laws of GTID sets\<close>

lemma wf_gtidsD:
  assumes "wf_gtids s" "(k, u) \<in> set s"
  shows "k = UUID_String (SID u)" "length (SID u) = 16" "normal (Intervals u)" "Intervals u \<noteq> []"
    "map_of s k = Some u"
  using assms by (auto simp: wf_gtids_def wf_UUIDSet_def)

lemma in_gtids: "wf_gtids s \<Longrightarrow> (k, g) \<in> gtids s \<longleftrightarrow> (\<exists>u. map_of s k = Some u \<and> g \<in> covers (Intervals u))"
  by (auto simp: gtids_def wf_gtids_map_of)

lemma GTIDSet_Contain_iff:
  assumes s: "wf_gtids s" and sub: "wf_gtids sub"
  shows "GTIDSet_Contain s sub \<longleftrightarrow> gtids sub \<subseteq> gtids s"
proof -
  have eq: "(case map_of s k of None \<Rightarrow> False | Some own \<Rightarrow> UUIDSet_Contain own u) \<longleftrightarrow>
      (\<forall>g\<in>covers (Intervals u). (k, g) \<in> gtids s)" if u: "(k, u) \<in> set sub" for k u
  proof (cases "map_of s k")
    case None
    obtain i r where "Intervals u = i # r" using wf_gtidsD(4) [OF sub u] by (cases "Intervals u") auto
    then have "Start i \<in> covers (Intervals u)" using normal_start wf_gtidsD(3) [OF sub u] by metis
    then show ?thesis using None in_gtids [OF s] by auto
  next
    case (Some own)
    then have own: "(k, own) \<in> set s" by (rule map_of_SomeD)
    have "SID own = SID u"
      using wf_gtidsD(1,2) [OF s own] wf_gtidsD(1,2) [OF sub u] UUID_String_inj by metis
    then have "UUIDSet_Contain own u \<longleftrightarrow> covers (Intervals u) \<subseteq> covers (Intervals own)"
      using Contain_iff [OF wf_gtidsD(3) [OF s own] wf_gtidsD(3) [OF sub u]]
      by (simp add: UUIDSet_Contain_def)
    then show ?thesis using Some in_gtids [OF s, of k] by auto
  qed
  have "GTIDSet_Contain s sub \<longleftrightarrow> (\<forall>(k, u)\<in>set sub. \<forall>g\<in>covers (Intervals u). (k, g) \<in> gtids s)"
    unfolding GTIDSet_Contain_def list_all_iff using eq by (intro ball_cong) auto
  also have "\<dots> \<longleftrightarrow> gtids sub \<subseteq> gtids s"
    unfolding gtids_def [of sub] by blast
  finally show ?thesis .
qed

lemma covers_nonempty: "normal s \<Longrightarrow> s \<noteq> [] \<Longrightarrow> covers s \<noteq> {}"
  using normal_start by (cases s) blast+

lemma AddInterval_wf:
  assumes "wf_UUIDSet u" "list_all proper is"
  shows "wf_UUIDSet (AddInterval u is)" "covers (Intervals (AddInterval u is)) = covers (Intervals u) \<union> covers is"
    "SID (AddInterval u is) = SID u"
proof -
  have "list_all proper (Intervals u @ is)" using assms normal_proper by (simp add: wf_UUIDSet_def)
  note n = Normalize_correct [OF this]
  show c: "covers (Intervals (AddInterval u is)) = covers (Intervals u) \<union> covers is"
    "SID (AddInterval u is) = SID u"
    using n(1) by (simp_all add: AddInterval_def)
  have "covers (Intervals u) \<noteq> {}" using assms(1) covers_nonempty by (simp add: wf_UUIDSet_def)
  then have "Normalize (Intervals u @ is) \<noteq> []" using n(1) by force
  then show "wf_UUIDSet (AddInterval u is)" using assms(1) n(2) by (simp add: wf_UUIDSet_def AddInterval_def)
qed

lemma gtids_snoc: "gtids (s @ [(k, u)]) = gtids s \<union> {k} \<times> covers (Intervals u)"
  by (auto simp: gtids_def)

lemma gtids_map:
  "(k, g) \<in> gtids (map (\<lambda>(k, v). (k, f k v)) s) \<longleftrightarrow> (\<exists>v. (k, v) \<in> set s \<and> g \<in> covers (Intervals (f k v)))"
  by (auto simp: gtids_def)

lemma wf_gtids_mapI:
  assumes "wf_gtids s" "\<And>k v. (k, v) \<in> set s \<Longrightarrow> wf_UUIDSet (f k v) \<and> SID (f k v) = SID v"
  shows "wf_gtids (map (\<lambda>(k, v). (k, f k v)) s)"
proof -
  have m: "map fst (map (\<lambda>(k, v). (k, f k v)) s) = map fst s" by (simp add: case_prod_beta)
  show ?thesis unfolding wf_gtids_def m using assms by (auto simp: wf_gtids_def)
qed

lemma AddSet_wf:
  assumes s: "wf_gtids s" and u: "wf_UUIDSet u"
  shows "wf_gtids (AddSet s u) \<and>
    gtids (AddSet s u) = gtids s \<union> {UUID_String (SID u)} \<times> covers (Intervals u)"
proof (cases "map_of s (UUID_String (SID u))")
  case None
  then have "UUID_String (SID u) \<notin> fst ` set s" by (simp add: map_of_eq_None_iff)
  then have "wf_gtids (s @ [(UUID_String (SID u), u)])" using s u by (simp add: wf_gtids_def)
  then show ?thesis using None gtids_snoc by (simp add: AddSet_def Let_def)
next
  case (Some old)
  let ?k = "UUID_String (SID u)"
  let ?f = "\<lambda>k v. if k = ?k then AddInterval v (Intervals u) else v"
  have p: "list_all proper (Intervals u)" using u normal_proper by (simp add: wf_UUIDSet_def)
  have w: "wf_UUIDSet v" if "(k, v) \<in> set s" for k v using s that by (auto simp: wf_gtids_def)
  have a: "AddSet s u = map (\<lambda>(k, v). (k, ?f k v)) s" using Some by (simp add: AddSet_def Let_def)
  have "wf_gtids (AddSet s u)"
    unfolding a using AddInterval_wf(1,3) [OF w p] w by (intro wf_gtids_mapI [OF s]) simp
  moreover have "(k, g) \<in> gtids (AddSet s u) \<longleftrightarrow> (k, g) \<in> gtids s \<or> k = ?k \<and> g \<in> covers (Intervals u)" for k g
  proof -
    have "g \<in> covers (Intervals (?f k v)) \<longleftrightarrow> g \<in> covers (Intervals v) \<or> k = ?k \<and> g \<in> covers (Intervals u)"
      if "(k, v) \<in> set s" for v
      using AddInterval_wf(2) [OF w [OF that] p] by simp
    then have "(k, g) \<in> gtids (AddSet s u) \<longleftrightarrow>
        (\<exists>v. (k, v) \<in> set s \<and> (g \<in> covers (Intervals v) \<or> k = ?k \<and> g \<in> covers (Intervals u)))"
      unfolding a gtids_map by blast
    then show ?thesis using map_of_SomeD [OF Some] by (auto simp: gtids_def)
  qed
  ultimately show ?thesis by auto
qed

text \<open>The binary form.\<close>

definition int64 :: "int \<Rightarrow> bool" where
  "int64 i \<longleftrightarrow> - (2 ^ 63) \<le> i \<and> i < 2 ^ 63"

definition UUIDSet_storable :: "UUIDSet \<Rightarrow> bool" where
  "UUIDSet_storable u \<longleftrightarrow> length (SID u) = 16 \<and> length (Intervals u) < 2 ^ 59 \<and>
     list_all (\<lambda>i. int64 (Start i) \<and> int64 (Stop i)) (Intervals u)"

lemma length_int64_bytes [simp]: "length (int64_bytes i) = 8"
  by (simp add: int64_bytes_def)

lemma get_int64_bytes [simp]:
  "get_le64 (int64_bytes i) = Some (of_int i)"
  by (simp add: int64_bytes_def)

lemma sint_of_int64: "int64 i \<Longrightarrow> sint (of_int i :: u64) = i"
  by (simp add: int64_def signed_take_bit_int_eq_self_iff sint_sbintrunc')

lemma decode_intervals_encode:
  assumes "list_all (\<lambda>i. int64 (Start i) \<and> int64 (Stop i)) is"
  shows "decode_intervals (length is)
      (concat (map (\<lambda>i. int64_bytes (Start i) @ int64_bytes (Stop i)) is) @ rest) = Some (is, rest)"
  using assms
proof (induction "is")
  case (Cons i "is")
  then show ?case by (simp add: sint_of_int64)
qed simp

lemma UUIDSet_decode_encode:
  assumes "UUIDSet_storable u"
  shows "UUIDSet_decode (UUIDSet_encode u @ rest) = Ok (u, rest)"
proof -
  let ?n = "length (Intervals u)"
  let ?is = "concat (map (\<lambda>i. int64_bytes (Start i) @ int64_bytes (Stop i)) (Intervals u))"
  have h: "length (SID u) = 16" "?n < 2 ^ 59" using assms by (auto simp: UUIDSet_storable_def)
  have l: "length ?is = 16 * ?n" by (induction "Intervals u") (auto simp: sum_list_triv length_concat comp_def)
  have n: "sint (of_nat ?n :: u64) = int ?n" "sint (16 * of_nat ?n :: u64) = int (16 * ?n)"
    "unat (of_nat ?n :: u64) = ?n"
  proof -
    show "sint (of_nat ?n :: u64) = int ?n" using h(2) by (intro sint_of_nat_u64) simp
    have "16 * of_nat ?n = (of_nat (16 * ?n) :: u64)" by simp
    then show "sint (16 * of_nat ?n :: u64) = int (16 * ?n)"
      using h(2) sint_of_nat_u64 [of "16 * ?n"] by simp
    show "unat (of_nat ?n :: u64) = ?n" using h(2) by (simp add: unat_of_nat)
  qed
  have "u = \<lparr>SID = SID u, Intervals = Intervals u\<rparr>" by simp
  then show ?thesis
    using h decode_intervals_encode [of "Intervals u" rest] assms
    by (simp add: UUIDSet_decode_def UUIDSet_encode_def l n UUIDSet_storable_def)
qed

lemma AddSet_new: "UUID_String (SID u) \<notin> fst ` set s \<Longrightarrow> AddSet s u = s @ [(UUID_String (SID u), u)]"
  by (simp add: AddSet_def Let_def map_of_eq_None_iff [THEN iffD2])

lemma decode_sets_encode:
  assumes "distinct (map fst (s0 @ s))" "\<forall>(k, u)\<in>set s. k = UUID_String (SID u) \<and> UUIDSet_storable u"
  shows "decode_sets (length s) (concat (map (\<lambda>(_, u). UUIDSet_encode u) s)) s0 = Ok (s0 @ s)"
  using assms
proof (induction s arbitrary: s0)
  case (Cons p s)
  obtain k u where p: "p = (k, u)" by (cases p)
  have u: "k = UUID_String (SID u)" "UUIDSet_storable u" "UUID_String (SID u) \<notin> fst ` set s0"
    using Cons.prems p by auto
  show ?case
    using Cons.IH [of "s0 @ [p]"] Cons.prems u p by (simp add: UUIDSet_decode_encode AddSet_new)
qed simp

definition gtids_storable :: "MysqlGTIDSet \<Rightarrow> bool" where
  "gtids_storable s \<longleftrightarrow> length s < 2 ^ 63 \<and> distinct (map fst s) \<and>
     (\<forall>(k, u)\<in>set s. k = UUID_String (SID u) \<and> UUIDSet_storable u)"

lemma DecodeMysqlGTIDSet_Encode:
  assumes "gtids_storable s"
  shows "DecodeMysqlGTIDSet (GTIDSet_Encode s) = Ok s"
proof -
  have "nat (sint (of_nat (length s) :: u64)) = length s"
    using assms sint_of_nat_u64 [of "length s"] by (simp add: gtids_storable_def)
  then show ?thesis
    using assms decode_sets_encode [of "[]" s]
    by (simp add: DecodeMysqlGTIDSet_def GTIDSet_Encode_def gtids_storable_def)
qed

section \<open>The textual form\<close>

lemma Split_not_Nil [simp]: "Split c s \<noteq> []"
  by (induction s) (auto split: list.splits)

lemma Split_append: "Split c (xs @ c # ys) = Split c xs @ Split c ys"
  by (induction xs) (auto split: list.splits simp: Cons_eq_append_conv)

lemma Split_single: "c \<notin> set xs \<Longrightarrow> Split c xs = [xs]"
  by (induction xs) auto

lemma length_Split: "length (Split c xs) = Suc (count_list xs c)"
proof (induction xs)
  case (Cons x xs)
  then show ?case by (cases "Split c xs") auto
qed simp

lemma TrimSpace_id: "s \<noteq> [] \<Longrightarrow> \<not> is_space (hd s) \<Longrightarrow> \<not> is_space (last s) \<Longrightarrow> TrimSpace s = s"
proof -
  have d: "t \<noteq> [] \<Longrightarrow> \<not> is_space (hd t) \<Longrightarrow> dropWhile is_space t = t" for t by (cases t) auto
  assume "s \<noteq> []" "\<not> is_space (hd s)" "\<not> is_space (last s)"
  then show ?thesis using d [of s] d [of "rev s"] by (simp add: TrimSpace_def hd_rev)
qed

definition plain :: "char \<Rightarrow> bool" where
  "plain c \<longleftrightarrow> \<not> is_space c \<and> c \<noteq> CHR '':'' \<and> c \<noteq> CHR ''-'' \<and> c \<noteq> CHR '','' \<and> c \<noteq> CHR ''+''"

lemma is_digit_plain: "is_digit c \<Longrightarrow> plain c"
  by (auto simp: is_digit_def plain_def is_space_def)

lemma hex_char_plain: "n < 16 \<Longrightarrow> plain (hex_char n)"
proof -
  assume "n < 16"
  then have "hex_val (hex_char n) = Some n" by simp
  then show ?thesis by (auto simp: plain_def is_space_def hex_val_def Let_def)
qed

lemma hex_Encode_plain: "list_all plain (hex_Encode bs)"
proof (induction bs)
  case (Cons b bs)
  have "unat b < 256" using unsigned_less [of b, where 'a = nat] by simp
  then have "unat b div 16 < 16" "unat b mod 16 < 16" by auto
  then show ?case using Cons hex_char_plain by (simp add: hex_Encode_def)
qed (simp add: hex_Encode_def)

lemma dec_plain: "list_all plain (dec n)" "dec n \<noteq> []" "list_all is_digit (dec n)"
proof -
  show d: "list_all is_digit (dec n)" by (simp add: dec_digits)
  then show "list_all plain (dec n)" using is_digit_plain by (simp add: list_all_iff)
  show "dec n \<noteq> []" by (simp add: dec.simps [of n])
qed

lemma ParseInt_dec: "n < 2 ^ 63 \<Longrightarrow> ParseInt (dec n) = (int n, True)"
proof -
  assume n: "n < 2 ^ 63"
  obtain c r where c: "dec n = c # r" using dec_plain(2) [of n] by (cases "dec n") auto
  then have "plain c" using dec_plain(1) [of n] by simp
  then have "c \<noteq> CHR ''-''" "c \<noteq> CHR ''+''" by (simp_all add: plain_def)
  then show ?thesis using n dec_plain(3) [of n] dec_val_dec [of n] by (simp add: ParseInt_def c)
qed

definition gtid_interval :: "Interval \<Rightarrow> bool" where
  "gtid_interval i \<longleftrightarrow> 0 \<le> Start i \<and> Start i < Stop i \<and> Stop i < 2 ^ 63"

lemma wrap64_id: "- (2 ^ 63) \<le> i \<Longrightarrow> i < 2 ^ 63 \<Longrightarrow> wrap64 i = i"
  by (simp add: wrap64_def signed_take_bit_int_eq_self_iff)

lemma Interval_String_eq:
  assumes "gtid_interval i"
  shows "Interval_String i =
    (if Stop i = Start i + 1 then dec (nat (Start i)) else dec (nat (Start i)) @ ''-'' @ dec (nat (Stop i - 1)))"
  using assms by (simp add: Interval_String_def gtid_interval_def wrap64_id Sprintd_def)

lemma parseInterval_String:
  assumes "gtid_interval i"
  shows "parseInterval (Interval_String i) = Some i"
proof -
  have g: "0 \<le> Start i" "Start i < Stop i" "Stop i < 2 ^ 63" using assms by (auto simp: gtid_interval_def)
  have nd: "CHR ''-'' \<notin> set (dec n)" for n using dec_plain(1) [of n] by (auto simp: list_all_iff plain_def)
  have i: "i = Interval (Start i) (Stop i)" by simp
  have p: "ParseInt (dec (nat (Start i))) = (Start i, True)" "ParseInt (dec (nat (Stop i - 1))) = (Stop i - 1, True)"
    using ParseInt_dec [of "nat (Start i)"] ParseInt_dec [of "nat (Stop i - 1)"] g by simp_all
  show ?thesis
  proof (cases "Stop i = Start i + 1")
    case True
    then have w: "wrap64 (Start i + 1) = Stop i" using g wrap64_id [of "Start i + 1"] by simp
    show ?thesis using True g w p(1) i
      by (simp add: parseInterval_def Interval_String_eq [OF assms] Split_single [OF nd])
  next
    case False
    have w: "wrap64 (Stop i) = Stop i" using g wrap64_id [of "Stop i"] by simp
    have "Split (CHR ''-'') (Interval_String i) = [dec (nat (Start i)), dec (nat (Stop i - 1))]"
      using False Split_append [of "CHR ''-''" "dec (nat (Start i))" "dec (nat (Stop i - 1))"]
      by (simp add: Interval_String_eq [OF assms] Split_single [OF nd])
    then show ?thesis using g w p i by (simp add: parseInterval_def)
  qed
qed

lemma Interval_String_chars:
  assumes "gtid_interval i"
  shows "Interval_String i \<noteq> []" "\<forall>c\<in>set (Interval_String i). plain c \<or> c = CHR ''-''"
    "plain (last (Interval_String i))"
proof -
  have d: "plain (last (dec n))" for n
    using dec_plain(1,2) [of n] last_in_set by (auto simp: list_all_iff)
  show "Interval_String i \<noteq> []" "\<forall>c\<in>set (Interval_String i). plain c \<or> c = CHR ''-''"
    using dec_plain(1) assms by (auto simp: Interval_String_eq list_all_iff)
  show "plain (last (Interval_String i))" using d assms by (simp add: Interval_String_eq)
qed

lemma UUID_String_chars:
  assumes "length u = 16"
  shows "UUID_String u \<noteq> []" "\<forall>c\<in>set (UUID_String u). plain c \<or> c = CHR ''-''" "plain (hd (UUID_String u))"
    "4 \<le> count_list (UUID_String u) (CHR ''-'')"
proof -
  show "UUID_String u \<noteq> []" by (simp add: UUID_String_def)
  show "\<forall>c\<in>set (UUID_String u). plain c \<or> c = CHR ''-''"
    using hex_Encode_plain by (auto simp: UUID_String_def list_all_iff)
  have "length (hex_Encode (take 4 u)) = 8" using assms by simp
  then have ne: "hex_Encode (take 4 u) \<noteq> []" by force
  then have "hd (UUID_String u) = hd (hex_Encode (take 4 u))" by (simp add: UUID_String_def)
  then show "plain (hd (UUID_String u))" using hex_Encode_plain [of "take 4 u"] ne by (simp add: list_all_iff)
  show "4 \<le> count_list (UUID_String u) (CHR ''-'')" by (simp add: UUID_String_def)
qed

definition intervals_text :: "Interval list \<Rightarrow> string" where
  "intervals_text is = concat (map (\<lambda>i. '':'' @ Interval_String i) is)"

lemma no_colon:
  "\<forall>c\<in>set s. plain c \<or> c = CHR ''-'' \<Longrightarrow> CHR '':'' \<notin> set s"
  by (auto simp: plain_def)

lemma Split_intervals_text:
  assumes "list_all gtid_interval is" "\<forall>c\<in>set s. plain c \<or> c = CHR ''-''"
  shows "Split (CHR '':'') (s @ intervals_text is) = s # map Interval_String is"
  using assms
proof (induction "is" arbitrary: s)
  case Nil
  then show ?case using no_colon by (simp add: intervals_text_def Split_single)
next
  case (Cons i "is")
  have i: "Split (CHR '':'') (Interval_String i @ intervals_text is) = Interval_String i # map Interval_String is"
    using Cons.IH [of "Interval_String i"] Cons.prems Interval_String_chars(2) [of i] by simp
  have "s @ intervals_text (i # is) = s @ CHR '':'' # (Interval_String i @ intervals_text is)"
    by (simp add: intervals_text_def)
  then show ?case using i Split_single [OF no_colon [OF Cons.prems(2)]] by (simp add: Split_append)
qed

lemma parseIntervals_String:
  "list_all gtid_interval is \<Longrightarrow> parseIntervals (map Interval_String is) = Some is"
  by (induction "is") (auto simp: parseInterval_String)

lemma UUIDSet_String_ends:
  assumes "length (SID u) = 16" "list_all gtid_interval (Intervals u)" "Intervals u \<noteq> []"
  shows "UUIDSet_String u \<noteq> []" "\<not> is_space (hd (UUIDSet_String u))" "\<not> is_space (last (UUIDSet_String u))"
proof -
  note c = UUID_String_chars [OF assms(1)]
  obtain "is" i where i: "Intervals u = is @ [i]" using assms(3) by (metis rev_exhaust)
  then have g: "gtid_interval i" using assms(2) by simp
  show "UUIDSet_String u \<noteq> []" using c(1) by (simp add: UUIDSet_String_def)
  show "\<not> is_space (hd (UUIDSet_String u))" using c(1,3) by (simp add: UUIDSet_String_def plain_def)
  show "\<not> is_space (last (UUIDSet_String u))"
    using Interval_String_chars(1,3) [OF g] by (simp add: UUIDSet_String_def i plain_def)
qed

lemma Normalize_normal:
  assumes "normal s"
  shows "Normalize s = s"
  using Normalize_correct [OF normal_proper [OF assms]] normal_canonical assms by metis

lemma ParseUUIDSet_String:
  assumes "wf_UUIDSet u" "list_all gtid_interval (Intervals u)"
  shows "ParseUUIDSet (UUIDSet_String u) = Some u"
proof -
  have u: "length (SID u) = 16" "Intervals u \<noteq> []" "Normalize (Intervals u) = Intervals u"
    using assms(1) Normalize_normal by (auto simp: wf_UUIDSet_def)
  have t: "TrimSpace (UUIDSet_String u) = UUIDSet_String u"
    using UUIDSet_String_ends [OF u(1) assms(2) u(2)] by (rule TrimSpace_id)
  have s: "Split (CHR '':'') (UUIDSet_String u) = UUID_String (SID u) # map Interval_String (Intervals u)"
    using Split_intervals_text [OF assms(2) UUID_String_chars(2) [OF u(1)]]
    by (simp add: UUIDSet_String_def intervals_text_def)
  obtain i r where i: "Intervals u = i # r" using u(2) by (cases "Intervals u") auto
  then show ?thesis
    using parseIntervals_String [OF assms(2)] u by (simp add: ParseUUIDSet_def t s i)
qed

lemma parseIntervals_bad: "p \<in> set ps \<Longrightarrow> parseInterval p = None \<Longrightarrow> parseIntervals ps = None"
  by (induction ps) (auto split: option.splits)

text \<open>The text of a set with two UUIDs or more is not a UUID set.\<close>

lemma ParseUUIDSet_two:
  assumes "wf_UUIDSet u" "list_all gtid_interval (Intervals u)" "wf_UUIDSet v" "list_all gtid_interval (Intervals v)"
    and rest: "rest = [] \<or> \<not> is_space (last rest)"
  shows "ParseUUIDSet (UUIDSet_String u @ '','' @ UUIDSet_String v @ rest) = None"
proof -
  obtain "is" i where i: "Intervals u = is @ [i]" using assms(1) by (metis rev_exhaust wf_UUIDSet_def)
  obtain j js where j: "Intervals v = j # js" using assms(3) by (metis neq_Nil_conv wf_UUIDSet_def)
  let ?X = "Interval_String i @ '','' @ UUID_String (SID v)"
  let ?A = "UUID_String (SID u) @ intervals_text is"
  let ?s = "UUIDSet_String u @ '','' @ UUIDSet_String v @ rest"
  obtain Y where s: "?s = ?A @ CHR '':'' # ?X @ CHR '':'' # Y"
    by (simp add: UUIDSet_String_def intervals_text_def i j)
  have len: "length (SID u) = 16" "length (SID v) = 16" using assms by (auto simp: wf_UUIDSet_def)
  note ends = UUIDSet_String_ends [OF len(1) assms(2)] UUIDSet_String_ends [OF len(2) assms(4)]
  have ts: "TrimSpace ?s = ?s"
    using ends rest i j by (intro TrimSpace_id) (auto simp: last_append)
  have sp: "Split (CHR '':'') ?s = Split (CHR '':'') ?A @ ?X # Split (CHR '':'') Y"
  proof -
    have "CHR '':'' \<notin> set ?X"
      using Interval_String_chars(2) [of i] UUID_String_chars(2) [OF len(2)] assms(2) i no_colon by auto
    then have X: "Split (CHR '':'') ?X = [?X]" by (rule Split_single)
    show ?thesis unfolding s Split_append X by simp
  qed
  have bad: "parseInterval ?X = None"
  proof -
    have "5 \<le> length (Split (CHR ''-'') ?X)"
      using UUID_String_chars(4) [OF len(2)] by (simp add: length_Split)
    then show ?thesis by (auto simp: parseInterval_def split: list.splits)
  qed
  obtain a as where A: "Split (CHR '':'') ?A = a # as" by (metis Split_not_Nil neq_Nil_conv)
  obtain q qs where q: "as @ ?X # Split (CHR '':'') Y = q # qs" by (cases as) auto
  then have "?X \<in> set (q # qs)" by (metis in_set_conv_decomp)
  from parseIntervals_bad [OF this bad] have "parseIntervals (q # qs) = None" .
  moreover have "Split (CHR '':'') ?s = a # q # qs" using sp A q by simp
  ultimately show ?thesis unfolding ParseUUIDSet_def ts by (simp split: option.splits)
qed

definition gtids_text :: "MysqlGTIDSet \<Rightarrow> bool" where
  "gtids_text s \<longleftrightarrow> wf_gtids s \<and> (\<forall>(k, u)\<in>set s. list_all gtid_interval (Intervals u))"

lemma GTIDSet_String_last:
  assumes "\<forall>(k, u)\<in>set s. wf_UUIDSet u \<and> list_all gtid_interval (Intervals u)" "s \<noteq> []"
  shows "GTIDSet_String s \<noteq> [] \<and> \<not> is_space (last (GTIDSet_String s))"
  using assms
proof (induction s rule: GTIDSet_String.induct)
  case (2 k u)
  then show ?case using UUIDSet_String_ends [of u] by (simp add: wf_UUIDSet_def)
qed auto

lemma GTIDSet_Update_many:
  assumes "gtids_text t" "2 \<le> length t"
  shows "GTIDSet_Update s (GTIDSet_String t) = None"
proof -
  obtain k u l v r where t: "t = (k, u) # (l, v) # r"
    using assms(2) by (metis One_nat_def Suc_1 Suc_le_length_iff old.prod.exhaust)
  have w: "wf_UUIDSet u" "list_all gtid_interval (Intervals u)" "wf_UUIDSet v" "list_all gtid_interval (Intervals v)"
    "\<forall>(k, u)\<in>set r. wf_UUIDSet u \<and> list_all gtid_interval (Intervals u)"
    using assms(1) by (auto simp: t gtids_text_def wf_gtids_def)
  obtain rest where r: "GTIDSet_String ((l, v) # r) = UUIDSet_String v @ rest"
    "rest = [] \<or> \<not> is_space (last rest)"
  proof (cases r)
    case Nil
    then show ?thesis using that [of "[]"] by simp
  next
    case (Cons p ps)
    then show ?thesis using that [of "'','' @ GTIDSet_String r"] GTIDSet_String_last [OF w(5)] by simp
  qed
  then show ?thesis
    using ParseUUIDSet_two [OF w(1-4) r(2)] by (simp add: GTIDSet_Update_def t)
qed

lemma GTIDSet_Update_one:
  assumes "wf_gtids s" "gtids_text [(k, u)]"
  shows "\<exists>s'. GTIDSet_Update s (GTIDSet_String [(k, u)]) = Some s' \<and> wf_gtids s' \<and>
    gtids s' = gtids s \<union> gtids [(k, u)]"
proof -
  have u: "wf_UUIDSet u" "list_all gtid_interval (Intervals u)" "k = UUID_String (SID u)"
    using assms(2) by (auto simp: gtids_text_def wf_gtids_def)
  show ?thesis
    using ParseUUIDSet_String [OF u(1,2)] AddSet_wf [OF assms(1) u(1)] gtids_snoc [of "[]" k u] u(3)
    by (simp add: GTIDSet_Update_def gtids_def)
qed

end
