(* ===== verification/Meta_Store.thy ===== *)
theory Meta_Store
  imports Gtid_Set
begin

text \<open>
  The metadata of a server: \<^verbatim>\<open>src/storage/meta_storage.go\<close> and the keys of \<^verbatim>\<open>src/storage/storage.go\<close>.
  The bolt database is the list of the pairs of its one bucket in ascending order of the keys; a
  transaction that returns an error leaves it unchanged. The store also records what every commit has written to
  the file: a process that stops leaves one of these contents behind. \<^verbatim>\<open>encoding/json\<close> is a parameter of the operations
  that use it.
\<close>

section \<open>The bucket\<close>

type_synonym bucket = "(string \<times> bytes) list"

fun bucket_put :: "string \<Rightarrow> bytes \<Rightarrow> bucket \<Rightarrow> bucket" where
  "bucket_put k v [] = [(k, v)]"
| "bucket_put k v ((l, w) # b) =
     (if k < l then (k, v) # (l, w) # b else if k = l then (k, v) # b else (l, w) # bucket_put k v b)"

definition bucket_delete :: "string \<Rightarrow> bucket \<Rightarrow> bucket" where
  "bucket_delete k b = filter (\<lambda>(l, _). l \<noteq> k) b"

definition HasPrefix :: "string \<Rightarrow> string \<Rightarrow> bool" where
  "HasPrefix s p \<longleftrightarrow> take (length p) s = p"

text \<open>The pairs that a cursor visits which seeks a prefix and stops at the first key without it.\<close>

definition cursor :: "string \<Rightarrow> bucket \<Rightarrow> bucket" where
  "cursor p b = takeWhile (\<lambda>(k, _). HasPrefix k p) (dropWhile (\<lambda>(k, _). k < p) b)"

section \<open>The store\<close>

definition HardStateKey :: string where "HardStateKey = ''hard_state''"
definition ConfStateKey :: string where "ConfStateKey = ''conf_state''"
definition ExecutedGtidSetKey :: string where "ExecutedGtidSetKey = ''executed_gtids''"
definition GtidPurgedKey :: string where "GtidPurgedKey = ''gtid_purged''"
definition FdePrefix :: string where "FdePrefix = ''fde''"
definition NextBinlogPrefix :: string where "NextBinlogPrefix = ''next_binlog''"
definition MasterInfoKey :: string where "MasterInfoKey = ''master_info''"
definition PgePrefix :: string where "PgePrefix = ''pre_gtids''"
definition SyncerArgsKey :: string where "SyncerArgsKey = ''syncer_args''"
definition NeedRecoverKey :: string where "NeedRecoverKey = ''ds_need_recover''"
definition RaftClusterKey :: string where "RaftClusterKey = ''raft_cluster''"
definition AppliedIndexKey :: string where "AppliedIndexKey = ''apply_index''"
definition MetadataFile :: string where "MetadataFile = ''kingbus_meta.db''"
definition MySQLFlavor :: string where "MySQLFlavor = ''mysql''"

text \<open>\<open>ms_commits\<close> are the contents of the file after the commits of this process, the last one first.\<close>

record MetaStore =
  ms_Dir :: string
  ms_bucket :: bucket
  ms_open :: bool
  ms_commits :: "bucket list"

definition StringToBytes :: "string \<Rightarrow> bytes" where
  "StringToBytes s = map of_char s"

definition BytesToString :: "bytes \<Rightarrow> string" where
  "BytesToString b = map (\<lambda>w. char_of (unat w)) b"

text \<open>\<^verbatim>\<open>path.Join\<close> of two names without slashes and dots.\<close>

definition path_Join :: "string \<Rightarrow> string \<Rightarrow> string" where
  "path_Join a b = (if a = [] then b else if b = [] then a else a @ ''/'' @ b)"

definition NewMetaStore :: "os \<Rightarrow> string \<Rightarrow> bucket \<Rightarrow> (storage_error, MetaStore) outcome" where
  "NewMetaStore os dir contents =
     (if dir = [] then Err ErrArgsIllegal
      else if \<not> os SysOpen MetadataFile then Err (ErrOS SysOpen)
      else if \<not> os SysWrite MetadataFile then Err (ErrOS SysWrite)
      else Ok \<lparr>ms_Dir = dir, ms_bucket = contents, ms_open = True, ms_commits = []\<rparr>)"

text \<open>\<^verbatim>\<open>DB.View\<close> and \<^verbatim>\<open>DB.Update\<close>. The commit of an update is the only part of it that writes.\<close>

definition View :: "os \<Rightarrow> MetaStore \<Rightarrow> (bucket \<Rightarrow> (storage_error, 'a) outcome) \<Rightarrow> (storage_error, 'a) outcome" where
  "View os s f = (if \<not> (ms_open s \<and> os SysRead MetadataFile) then Err ErrBolt else f (ms_bucket s))"

definition commit :: "bucket \<Rightarrow> MetaStore \<Rightarrow> MetaStore" where
  "commit b s = s\<lparr>ms_bucket := b, ms_commits := b # ms_commits s\<rparr>"

definition Update ::
    "os \<Rightarrow> MetaStore \<Rightarrow> (bucket \<Rightarrow> (storage_error, bucket) outcome) \<Rightarrow> (MetaStore, unit) res" where
  "Update os s f =
     (if \<not> ms_open s then (Err ErrBolt, s)
      else case f (ms_bucket s) of
             Ok b \<Rightarrow>
               if \<not> os SysWrite MetadataFile then (Err (ErrOS SysWrite), s)
               else (Ok (), commit b s)
           | Err e \<Rightarrow> (Err e, s)
           | Crash \<Rightarrow> (Crash, s))"

definition Put :: "string \<Rightarrow> bytes \<Rightarrow> bucket \<Rightarrow> (storage_error, bucket) outcome" where
  "Put k v b =
     (if k = [] \<or> 32768 < length k \<or> 2 ^ 31 - 2 < length v then Err ErrBolt
      else Ok (bucket_put k v b))"

definition Get :: "os \<Rightarrow> MetaStore \<Rightarrow> string \<Rightarrow> (storage_error, bytes option) outcome" where
  "Get os s key =
     (if key = [] then Err ErrKeyIsNil else View os s (\<lambda>b. Ok (map_of b key)))"

definition Set :: "os \<Rightarrow> MetaStore \<Rightarrow> string \<Rightarrow> bytes \<Rightarrow> (MetaStore, unit) res" where
  "Set os s key v = Update os s (Put key v)"

definition Delete :: "os \<Rightarrow> MetaStore \<Rightarrow> string \<Rightarrow> (MetaStore, unit) res" where
  "Delete os s key = Update os s (\<lambda>b. Ok (bucket_delete key b))"

definition Close2 :: "os \<Rightarrow> MetaStore \<Rightarrow> (MetaStore, unit) res" where
  "Close2 os s =
     (if \<not> os SysClose MetadataFile then (Err (ErrOS SysClose), s\<lparr>ms_open := False\<rparr>)
      else (Ok (), s\<lparr>ms_open := False\<rparr>))"

section \<open>Raft state\<close>

record HardState =
  hs_Term :: u64
  hs_Vote :: u64
  hs_Commit :: u64

type_synonym ConfState = "u64 list"

definition InitialState ::
    "(bytes \<Rightarrow> HardState option) \<Rightarrow> (bytes \<Rightarrow> ConfState option) \<Rightarrow> os \<Rightarrow> MetaStore \<Rightarrow>
     (storage_error, HardState \<times> ConfState) outcome" where
  "InitialState unmarshal_hs unmarshal_cs os s =
     obind (Get os s HardStateKey) (\<lambda>hsValue.
     obind (case hsValue of
              None \<Rightarrow> Ok \<lparr>hs_Term = 0, hs_Vote = 0, hs_Commit = 0\<rparr>
            | Some v \<Rightarrow> (case unmarshal_hs v of None \<Rightarrow> Err ErrJson | Some hs \<Rightarrow> Ok hs)) (\<lambda>hs.
     obind (Get os s ConfStateKey) (\<lambda>csValue.
     obind (case csValue of
              None \<Rightarrow> Ok []
            | Some v \<Rightarrow> (case unmarshal_cs v of None \<Rightarrow> Err ErrJson | Some cs \<Rightarrow> Ok cs)) (\<lambda>cs.
       Ok (hs, cs)))))"

definition SaveHardState ::
    "(HardState \<Rightarrow> bytes option) \<Rightarrow> os \<Rightarrow> MetaStore \<Rightarrow> HardState \<Rightarrow> (MetaStore, unit) res" where
  "SaveHardState marshal os s st =
     (case marshal st of
        None \<Rightarrow> (Err ErrJson, s)
      | Some v \<Rightarrow> Set os s HardStateKey v)"

section \<open>GTID sets\<close>

definition SetGtidSet ::
    "os \<Rightarrow> MetaStore \<Rightarrow> string \<Rightarrow> string \<Rightarrow> MysqlGTIDSet \<Rightarrow> (MetaStore, unit) res" where
  "SetGtidSet os s flavor key gs = Set os s (path_Join flavor key) (GTIDSet_Encode gs)"

definition SetBinlogProgress :: "os \<Rightarrow> MetaStore \<Rightarrow> u64 \<Rightarrow> MysqlGTIDSet \<Rightarrow> (MetaStore, unit) res" where
  "SetBinlogProgress os s appliedIndex executedGtidSet =
     (let gtidsKey = path_Join MySQLFlavor ExecutedGtidSetKey;
          gtidsValue = GTIDSet_Encode executedGtidSet;
          appliedIndexValue = be64 appliedIndex
      in Update os s (\<lambda>b.
           obind (Put gtidsKey gtidsValue b) (\<lambda>b. Put AppliedIndexKey appliedIndexValue b)))"

definition GetGtidSet ::
    "os \<Rightarrow> MetaStore \<Rightarrow> string \<Rightarrow> string \<Rightarrow> (storage_error, MysqlGTIDSet) outcome" where
  "GetGtidSet os s flavor key =
     obind (Get os s (path_Join flavor key)) (\<lambda>v.
       case v of None \<Rightarrow> Ok [] | Some d \<Rightarrow> DecodeMysqlGTIDSet d)"

text \<open>The index at the end of a key \<^verbatim>\<open>prefix/%020d\<close>.\<close>

definition key_index :: "string \<Rightarrow> (storage_error, u64) outcome" where
  "key_index k =
     (case Split (CHR ''/'') k of
        [_, n] \<Rightarrow> (case ParseUint n of None \<Rightarrow> Err ErrKeyNotFound | Some i \<Rightarrow> Ok i)
      | _ \<Rightarrow> Err ErrKeyNotFound)"

fun exists_equal :: "MysqlGTIDSet \<Rightarrow> bucket \<Rightarrow> (storage_error, bool) outcome" where
  "exists_equal gs [] = Ok False"
| "exists_equal gs ((k, v) # b) =
     obind (DecodeMysqlGTIDSet v) (\<lambda>g. if GTIDSet_Equal g gs then Ok True else exists_equal gs b)"

definition SetPreviousGtidSet :: "os \<Rightarrow> MetaStore \<Rightarrow> u64 \<Rightarrow> MysqlGTIDSet \<Rightarrow> (MetaStore, unit) res" where
  "SetPreviousGtidSet os s raftIndex previousGtidSet =
     Update os s (\<lambda>b.
       obind (exists_equal previousGtidSet (cursor PgePrefix b)) (\<lambda>exist.
         if exist then Ok b
         else Put (path_Join PgePrefix (pad20 raftIndex)) (GTIDSet_Encode previousGtidSet) b))"

fun delete_before :: "u64 \<Rightarrow> bucket \<Rightarrow> bucket \<Rightarrow> (storage_error, bucket) outcome" where
  "delete_before lastRaftIndex [] b = Ok b"
| "delete_before lastRaftIndex ((k, v) # c) b =
     obind (key_index k) (\<lambda>raftIndex.
       delete_before lastRaftIndex c (if raftIndex < lastRaftIndex then bucket_delete k b else b))"

definition deletePreviousGtidSet :: "os \<Rightarrow> MetaStore \<Rightarrow> u64 \<Rightarrow> (MetaStore, unit) res" where
  "deletePreviousGtidSet os s lastRaftIndex =
     Update os s (\<lambda>b. delete_before lastRaftIndex (cursor PgePrefix b) b)"

text \<open>The loop of \<^verbatim>\<open>GetPreviousGtidSet\<close>; \<open>found\<close> is \<^verbatim>\<open>lastKey\<close>, set together with \<^verbatim>\<open>lastGtids\<close>.\<close>

fun last_contained ::
    "MysqlGTIDSet \<Rightarrow> string option \<Rightarrow> bucket \<Rightarrow> (storage_error, string option) outcome" where
  "last_contained slave found [] = Ok found"
| "last_contained slave found ((k, v) # b) =
     obind (DecodeMysqlGTIDSet v) (\<lambda>g.
       if slave = [] then Ok (Some k)
       else last_contained slave (if GTIDSet_Contain slave g then Some k else found) b)"

definition GetPreviousGtidSet :: "os \<Rightarrow> MetaStore \<Rightarrow> MysqlGTIDSet \<Rightarrow> (storage_error, u64) outcome" where
  "GetPreviousGtidSet os s slaveExecutedGtids =
     View os s (\<lambda>b.
       obind (last_contained slaveExecutedGtids None (cursor PgePrefix b)) (\<lambda>lastKey.
         case lastKey of None \<Rightarrow> Err ErrNotContain | Some k \<Rightarrow> key_index k))"

fun first_above :: "u64 \<Rightarrow> bucket \<Rightarrow> (storage_error, MysqlGTIDSet option) outcome" where
  "first_above firstIndex [] = Ok None"
| "first_above firstIndex ((k, v) # b) =
     obind (key_index k) (\<lambda>raftIndex.
       if firstIndex < raftIndex then obind (DecodeMysqlGTIDSet v) (\<lambda>g. Ok (Some g))
       else first_above firstIndex b)"

definition UpdatePugedGtidset :: "os \<Rightarrow> MetaStore \<Rightarrow> u64 \<Rightarrow> (MetaStore, unit) res" where
  "UpdatePugedGtidset os s firstIndex =
     sbind (View os s (\<lambda>b. first_above firstIndex (cursor PgePrefix b)), s) (\<lambda>s. s) (\<lambda>gs s.
       case gs of
         None \<Rightarrow> (Ok (), s)
       | Some g \<Rightarrow>
           if GTIDSet_String g = [] then (Ok (), s)
           else
             (case GetGtidSet os s MySQLFlavor GtidPurgedKey of
                Ok gtidPurged \<Rightarrow>
                  (case GTIDSet_Update gtidPurged (GTIDSet_String g) of
                     None \<Rightarrow> (Crash, s)
                   | Some p \<Rightarrow>
                       sbind (SetGtidSet os s MySQLFlavor GtidPurgedKey p) (\<lambda>s. s) (\<lambda>_ s.
                         deletePreviousGtidSet os s firstIndex))
              | _ \<Rightarrow> (Crash, s)))"

section \<open>Events kept by index\<close>

fun last_before :: "u64 \<Rightarrow> bytes \<Rightarrow> bucket \<Rightarrow> (storage_error, bytes) outcome" where
  "last_before i found [] = Ok found"
| "last_before i found ((k, v) # b) =
     obind (key_index k) (\<lambda>raftIndex. if raftIndex < i then last_before i v b else Ok found)"

definition GetFde :: "os \<Rightarrow> MetaStore \<Rightarrow> u64 \<Rightarrow> (storage_error, bytes) outcome" where
  "GetFde os s preGtidEventIndex =
     obind (View os s (\<lambda>b. last_before preGtidEventIndex [] (cursor FdePrefix b))) (\<lambda>fde.
       if fde = [] then Err ErrNotContain else Ok fde)"

definition generatePreviousLogName :: "string \<Rightarrow> (storage_error, string) outcome" where
  "generatePreviousLogName binlogFileName =
     (case Split (CHR ''.'') binlogFileName of
        [base, n] \<Rightarrow>
          (case ParseUint n of
             None \<Rightarrow> Crash
           | Some num \<Rightarrow> Ok (base @ ''.'' @ zero_pad 6 (dec (unat (num - 1)))))
      | _ \<Rightarrow> Crash)"

fun next_binlog :: "u64 \<Rightarrow> string \<Rightarrow> bucket \<Rightarrow> (storage_error, string) outcome" where
  "next_binlog i fileName [] = Ok fileName"
| "next_binlog i fileName ((k, v) # b) =
     obind (key_index k) (\<lambda>raftIndex.
       if raftIndex < i then next_binlog i (BytesToString v) b
       else if fileName = [] then generatePreviousLogName (BytesToString v) else Ok fileName)"

definition GetNextBinlogFile :: "os \<Rightarrow> MetaStore \<Rightarrow> u64 \<Rightarrow> (storage_error, string) outcome" where
  "GetNextBinlogFile os s startRaftIndex =
     obind (View os s (\<lambda>b. next_binlog startRaftIndex [] (cursor NextBinlogPrefix b))) (\<lambda>fileName.
       if fileName = [] then Err ErrKeyNotFound else Ok fileName)"

section \<open>The contract of the bucket\<close>

text \<open>What the store relies on: a bucket is a finite map.\<close>

locale kv_bucket =
  fixes lookup :: "'b \<Rightarrow> 'k \<Rightarrow> 'v option"
    and put :: "'k \<Rightarrow> 'v \<Rightarrow> 'b \<Rightarrow> 'b"
    and remove :: "'k \<Rightarrow> 'b \<Rightarrow> 'b"
    and invar :: "'b \<Rightarrow> bool"
  assumes lookup_put: "invar b \<Longrightarrow> lookup (put k v b) = (lookup b)(k \<mapsto> v)"
    and lookup_remove: "invar b \<Longrightarrow> lookup (remove k b) = (lookup b)(k := None)"
    and invar_put: "invar b \<Longrightarrow> invar (put k v b)"
    and invar_remove: "invar b \<Longrightarrow> invar (remove k b)"
begin

lemma put_two:
  assumes "invar b" "k \<noteq> l"
  shows "invar (put l w (put k v b))" "lookup (put l w (put k v b)) k = Some v"
    "lookup (put l w (put k v b)) l = Some w"
  using assms by (simp_all add: lookup_put invar_put)

lemma fold_remove:
  assumes "invar b"
  shows "invar (fold remove ks b)"
    "lookup (fold remove ks b) l = (if l \<in> set ks then None else lookup b l)"
proof -
  have "invar (fold remove ks b) \<and> lookup (fold remove ks b) l = (if l \<in> set ks then None else lookup b l)"
    using assms by (induction ks arbitrary: b) (simp_all add: lookup_remove invar_remove)
  then show "invar (fold remove ks b)"
    "lookup (fold remove ks b) l = (if l \<in> set ks then None else lookup b l)" by simp_all
qed

end

definition ascending :: "bucket \<Rightarrow> bool" where
  "ascending b \<longleftrightarrow> sorted_wrt (<) (map fst b)"

lemma bucket_put_keys: "set (map fst (bucket_put k v b)) = insert k (set (map fst b))"
  by (induction k v b rule: bucket_put.induct) auto

lemma ascending_put: "ascending b \<Longrightarrow> ascending (bucket_put k v b)"
proof (induction k v b rule: bucket_put.induct)
  case (2 k v l w b)
  have "\<forall>x\<in>set (map fst (bucket_put k v b)). l < x" if "\<not> k < l" "k \<noteq> l"
    using 2(2) that unfolding bucket_put_keys by (auto simp: ascending_def)
  then show ?case using 2 by (auto simp: ascending_def)
qed (simp add: ascending_def)

lemma map_of_put: "ascending b \<Longrightarrow> map_of (bucket_put k v b) = (map_of b)(k \<mapsto> v)"
proof (induction k v b rule: bucket_put.induct)
  case (2 k v l w b)
  then show ?case by (auto simp: ascending_def fun_eq_iff)
qed auto

lemma ascending_delete: "ascending b \<Longrightarrow> ascending (bucket_delete k b)"
  by (induction b) (auto simp: ascending_def bucket_delete_def)

lemma map_of_delete: "map_of (bucket_delete k b) = (map_of b)(k := None)"
  by (induction b) (auto simp: bucket_delete_def fun_eq_iff)

interpretation bk: kv_bucket map_of bucket_put bucket_delete ascending
  by unfold_locales (simp_all add: map_of_put map_of_delete ascending_put ascending_delete)

text \<open>The operations of the store on one key.\<close>

lemma commit_simps [simp]:
  "ms_bucket (commit b s) = b" "ms_open (commit b s) = ms_open s" "ms_Dir (commit b s) = ms_Dir s"
  "ms_commits (commit b s) = b # ms_commits s"
  by (simp_all add: commit_def)

lemma Update_cases:
  "Update os s f = (r, s') \<Longrightarrow>
     (r = Ok () \<and> ms_open s \<and> (\<exists>b. f (ms_bucket s) = Ok b \<and> s' = commit b s)) \<or> (r \<noteq> Ok () \<and> s' = s)"
  by (auto simp: Update_def split: if_splits outcome.splits)

text \<open>The keys with a prefix are next to each other.\<close>

lemma prefix_contiguous: "p \<le> k \<Longrightarrow> \<not> HasPrefix k p \<Longrightarrow> k < l \<Longrightarrow> \<not> HasPrefix l (p :: string)"
proof (induction p arbitrary: k l)
  case (Cons c p)
  show ?case
  proof
    assume "HasPrefix l (c # p)"
    then obtain l' where l: "l = c # l'" "HasPrefix l' p" by (cases l) (auto simp: HasPrefix_def)
    obtain d k' where k: "k = d # k'" using Cons.prems(1) by (cases k) auto
    then have "d = c" using Cons.prems(1,3) l(1) by auto
    then show False using Cons.IH [of k' l'] Cons.prems k l by (auto simp: HasPrefix_def)
  qed
qed (simp add: HasPrefix_def)

lemma HasPrefix_le: "HasPrefix k p \<Longrightarrow> \<not> k < (p :: string)"
proof (induction p arbitrary: k)
  case (Cons c p)
  then obtain k' where "k = c # k'" "HasPrefix k' p" by (cases k) (auto simp: HasPrefix_def)
  then show ?case using Cons.IH by auto
qed simp

lemma takeWhile_prefix:
  "ascending b \<Longrightarrow> \<forall>(k, v)\<in>set b. p \<le> k \<Longrightarrow>
     takeWhile (\<lambda>(k, _). HasPrefix k p) b = filter (\<lambda>(k, _). HasPrefix k p) b"
proof (induction b)
  case (Cons e b)
  obtain k v where e: "e = (k, v)" by (cases e)
  have "filter (\<lambda>(k, _). HasPrefix k p) b = []" if "\<not> HasPrefix k p"
    using Cons.prems e that prefix_contiguous [of p k] by (auto simp: ascending_def filter_empty_conv)
  then show ?case using Cons e by (auto simp: ascending_def)
qed simp

lemma cursor_filter: "ascending b \<Longrightarrow> cursor p b = filter (\<lambda>(k, _). HasPrefix k p) b"
proof (induction b)
  case (Cons e b)
  obtain k v where e: "e = (k, v)" by (cases e)
  show ?case
  proof (cases "k < p")
    case True
    then show ?thesis using Cons e HasPrefix_le [of k p] by (auto simp: cursor_def ascending_def)
  next
    case False
    then have "\<forall>(k, v)\<in>set (e # b). p \<le> k" using Cons.prems e by (auto simp: ascending_def)
    then show ?thesis using False takeWhile_prefix [OF Cons.prems] by (simp add: cursor_def e)
  qed
qed (simp add: cursor_def)

lemma filter_put_other: "\<not> P k \<Longrightarrow> filter (\<lambda>(k, _). P k) (bucket_put k v b) = filter (\<lambda>(k, _). P k) b"
  by (induction k v b rule: bucket_put.induct) auto

lemma cursor_put_other:
  "ascending b \<Longrightarrow> \<not> HasPrefix k p \<Longrightarrow> cursor p (bucket_put k v b) = cursor p b"
  by (simp add: cursor_filter ascending_put filter_put_other)

lemma cursor_fold_delete:
  "ascending b \<Longrightarrow> cursor p (fold bucket_delete ks b) = filter (\<lambda>(k, _). k \<notin> set ks) (cursor p b)"
proof (induction ks arbitrary: b)
  case (Cons k ks)
  have "cursor p (bucket_delete k b) = filter (\<lambda>(l, _). l \<noteq> k) (cursor p b)"
    using Cons.prems ascending_delete [OF Cons.prems, of k]
    by (simp add: cursor_filter) (auto simp: bucket_delete_def intro!: filter_cong)
  then show ?case using Cons.IH [OF ascending_delete [OF Cons.prems]] by (auto intro!: filter_cong)
qed simp

section \<open>The indexed entries\<close>

text \<open>The entries under a prefix, by their index in ascending order.\<close>

definition indexed :: "string \<Rightarrow> (u64 \<times> bytes) list \<Rightarrow> bucket" where
  "indexed p es = map (\<lambda>(i, v). (path_Join p (pad20 i), v)) es"

lemma slash_not_digit: "list_all is_digit s \<Longrightarrow> CHR ''/'' \<notin> set s"
  by (auto simp: list_all_iff is_digit_def)

lemma key_index_join:
  assumes "p \<noteq> []" "CHR ''/'' \<notin> set p"
  shows "key_index (path_Join p (pad20 i)) = Ok i"
proof -
  have d: "list_all is_digit (pad20 i)" "pad20 i \<noteq> []"
    by (simp_all add: pad20_def zero_pad_digits) (metis length_pad20 list.size(3) pad20_def zero_neq_numeral)
  have "Split (CHR ''/'') (path_Join p (pad20 i)) = [p, pad20 i]"
    using assms d Split_append [of "CHR ''/''" p "pad20 i"]
    by (simp add: path_Join_def Split_single slash_not_digit)
  moreover have "ParseUint (pad20 i) = Some i"
    unfolding pad20_def by (rule ParseUint_zero_pad)
  ultimately show ?thesis by (simp add: key_index_def)
qed

lemma prefix_plain: "CHR ''/'' \<notin> set PgePrefix" "PgePrefix \<noteq> []" "CHR ''/'' \<notin> set FdePrefix" "FdePrefix \<noteq> []"
  "CHR ''/'' \<notin> set NextBinlogPrefix" "NextBinlogPrefix \<noteq> []"
  by (simp_all add: PgePrefix_def FdePrefix_def NextBinlogPrefix_def)

definition gtid_entries :: "(u64 \<times> MysqlGTIDSet) list \<Rightarrow> bucket" where
  "gtid_entries es = indexed PgePrefix (map (\<lambda>(i, g). (i, GTIDSet_Encode g)) es)"

lemma gtid_entries_simps [simp]:
  "gtid_entries [] = []"
  "gtid_entries ((i, g) # es) = (path_Join PgePrefix (pad20 i), GTIDSet_Encode g) # gtid_entries es"
  by (simp_all add: gtid_entries_def indexed_def)

lemmas pge_key_index = key_index_join [OF prefix_plain(2,1)]

lemma last_contained_spec:
  assumes "list_all (\<lambda>(i, g). gtids_storable g) es" "slave \<noteq> []"
  shows "last_contained slave found (gtid_entries es) =
    Ok (case filter (\<lambda>(i, g). GTIDSet_Contain slave g) es of
          [] \<Rightarrow> found
        | x # xs \<Rightarrow> Some (path_Join PgePrefix (pad20 (fst (last (x # xs))))))"
  using assms(1)
proof (induction es arbitrary: found)
  case (Cons e es)
  obtain i g where e: "e = (i, g)" by (cases e)
  have "DecodeMysqlGTIDSet (GTIDSet_Encode g) = Ok g"
    using Cons.prems DecodeMysqlGTIDSet_Encode by (simp add: e)
  then show ?case using Cons.IH Cons.prems assms(2) by (auto simp: e split: list.split)
qed simp

lemma first_above_spec:
  assumes "list_all (\<lambda>(i, g). gtids_storable g) es"
  shows "first_above n (gtid_entries es) = Ok (map_option snd (List.find (\<lambda>(i, g). n < i) es))"
  using assms
proof (induction es)
  case (Cons e es)
  obtain i g where e: "e = (i, g)" by (cases e)
  have "DecodeMysqlGTIDSet (GTIDSet_Encode g) = Ok g"
    using Cons.prems DecodeMysqlGTIDSet_Encode by (simp add: e)
  then show ?case using Cons.IH Cons.prems by (simp add: e pge_key_index)
qed simp

lemma delete_before_spec:
  "delete_before n (gtid_entries es) b =
     Ok (fold bucket_delete (map (\<lambda>(i, g). path_Join PgePrefix (pad20 i)) (filter (\<lambda>(i, g). i < n) es)) b)"
proof (induction es arbitrary: b)
  case (Cons e es)
  obtain i g where e: "e = (i, g)" by (cases e)
  show ?case using Cons.IH by (simp add: e pge_key_index)
qed simp

lemma pge_prefix: "HasPrefix (path_Join PgePrefix (pad20 i)) PgePrefix"
  by (simp add: HasPrefix_def path_Join_def PgePrefix_def)

lemma pge_key_inj: "path_Join PgePrefix (pad20 i) = path_Join PgePrefix (pad20 j) \<longleftrightarrow> i = j"
  by (metis pge_key_index outcome.inject(1))

lemma filter_gtid_entries:
  "filter (\<lambda>(k, v). k \<notin> set (map (\<lambda>(i, g). path_Join PgePrefix (pad20 i)) (filter (\<lambda>(i, g). P i) es))) (gtid_entries es)
     = gtid_entries (filter (\<lambda>(i, g). \<not> P i) es)"
proof -
  have "(path_Join PgePrefix (pad20 i) \<in> set (map (\<lambda>(i, g). path_Join PgePrefix (pad20 i)) (filter (\<lambda>(i, g). P i) es)))
      \<longleftrightarrow> P i" if "(i, g) \<in> set es" for i g
    using that by (force simp: pge_key_inj)
  then have "filter (\<lambda>(k, v). k \<notin> set (map (\<lambda>(i, g). path_Join PgePrefix (pad20 i)) (filter (\<lambda>(i, g). P i) es))) (gtid_entries es') =
      gtid_entries (filter (\<lambda>(i, g). \<not> P i) es')" if "set es' \<subseteq> set es" for es'
    using that by (induction es') (auto simp: case_prod_beta)
  then show ?thesis by blast
qed

lemma cursor_pge_one: "cursor PgePrefix (gtid_entries [(i, g)]) = gtid_entries [(i, g)]"
proof -
  have "HasPrefix (path_Join PgePrefix (pad20 i)) PgePrefix" "\<not> path_Join PgePrefix (pad20 i) < PgePrefix"
    by (simp_all add: HasPrefix_def path_Join_def PgePrefix_def)
  then show ?thesis by (simp add: cursor_def)
qed

text \<open>What a successful write leaves in the store.\<close>

lemma Set_stores:
  assumes "ascending (ms_bucket s)" "Set os s k v = (Ok (), s')"
  shows "ms_open s" "ms_open s'" "ascending (ms_bucket s')" "map_of (ms_bucket s') = (map_of (ms_bucket s))(k \<mapsto> v)"
proof -
  have "ms_open s \<and> s' = commit (bucket_put k v (ms_bucket s)) s"
    using Update_cases [OF assms(2) [unfolded Set_def]] by (auto simp: Put_def split: if_splits)
  then show "ms_open s" "ms_open s'" "ascending (ms_bucket s')" "map_of (ms_bucket s') = (map_of (ms_bucket s))(k \<mapsto> v)"
    using bk.lookup_put [OF assms(1)] bk.invar_put [OF assms(1)] by simp_all
qed

lemma executed_key:
  "path_Join MySQLFlavor ExecutedGtidSetKey \<noteq> AppliedIndexKey" "path_Join MySQLFlavor ExecutedGtidSetKey \<noteq> []"
  "AppliedIndexKey \<noteq> path_Join MySQLFlavor ExecutedGtidSetKey" "AppliedIndexKey \<noteq> []"
  by (simp_all add: path_Join_def MySQLFlavor_def ExecutedGtidSetKey_def AppliedIndexKey_def)

lemma SetBinlogProgress_stores:
  assumes "ascending (ms_bucket s)" "SetBinlogProgress os s i g = (Ok (), s')"
  shows "ms_open s" "ms_open s'" "ascending (ms_bucket s')"
    "map_of (ms_bucket s') =
       (map_of (ms_bucket s))(path_Join MySQLFlavor ExecutedGtidSetKey \<mapsto> GTIDSet_Encode g, AppliedIndexKey \<mapsto> be64 i)"
    "ms_commits s' = ms_bucket s' # ms_commits s"
proof -
  let ?k = "path_Join MySQLFlavor ExecutedGtidSetKey"
  let ?b = "bucket_put AppliedIndexKey (be64 i) (bucket_put ?k (GTIDSet_Encode g) (ms_bucket s))"
  have "Update os s (\<lambda>b. obind (Put ?k (GTIDSet_Encode g) b) (\<lambda>b. Put AppliedIndexKey (be64 i) b)) = (Ok (), s')"
    using assms(2) by (simp add: SetBinlogProgress_def Let_def)
  then have "ms_open s \<and> s' = commit ?b s"
    by (auto simp: Put_def obind_eq_Ok split: if_splits dest!: Update_cases)
  then show "ms_open s" "ms_open s'" "ascending (ms_bucket s')" "map_of (ms_bucket s') =
       (map_of (ms_bucket s))(?k \<mapsto> GTIDSet_Encode g, AppliedIndexKey \<mapsto> be64 i)"
    "ms_commits s' = ms_bucket s' # ms_commits s"
    using bk.lookup_put [OF assms(1)] bk.lookup_put [OF bk.invar_put [OF assms(1)]] bk.invar_put [OF assms(1)]
    by (simp_all add: bk.invar_put)
qed

section \<open>Properties\<close>

text \<open>C22: \<^verbatim>\<open>SetBinlogProgress\<close> writes the applied index and the executed GTID set together or not at all: every
  content of the file that it brings about has both of them, so that a process that stops at any moment of the
  call leaves either both or none. When it returns no error both are read back and no other key is changed, and when
  it returns an error nothing was written.\<close>

theorem SetBinlogProgress_atomic:
  assumes "ascending (ms_bucket s)" "gtids_storable g"
    and "SetBinlogProgress os s i g = (r, s')" "os SysRead MetadataFile"
  shows "(\<exists>new. ms_commits s' = new @ ms_commits s \<and>
      list_all (\<lambda>b. map_of b AppliedIndexKey = Some (be64 i) \<and>
        map_of b (path_Join MySQLFlavor ExecutedGtidSetKey) = Some (GTIDSet_Encode g)) new) \<and>
    (if r = Ok ()
     then Get os s' AppliedIndexKey = Ok (Some (be64 i)) \<and>
      GetGtidSet os s' MySQLFlavor ExecutedGtidSetKey = Ok g \<and> ascending (ms_bucket s') \<and>
      (\<forall>k. k \<noteq> AppliedIndexKey \<and> k \<noteq> path_Join MySQLFlavor ExecutedGtidSetKey \<longrightarrow>
        Get os s' k = Get os s k)
     else s' = s)"
proof (cases "r = Ok ()")
  case True
  then have ok: "SetBinlogProgress os s i g = (Ok (), s')" using assms(3) by simp
  show ?thesis
    using True SetBinlogProgress_stores [OF assms(1) ok] executed_key assms(2,4) DecodeMysqlGTIDSet_Encode
    by (simp add: Get_def View_def GetGtidSet_def)
next
  case False
  then have "s' = s" using assms(3) Update_cases [of os s _ r s'] by (auto simp: SetBinlogProgress_def Let_def)
  then show ?thesis using False by simp
qed

definition empty_store :: MetaStore where
  "empty_store = \<lparr>ms_Dir = ''data'', ms_bucket = [], ms_open = True, ms_commits = []\<rparr>"

theorem SetBinlogProgress_atomic_witness:
  "GetGtidSet os_ok (snd (SetBinlogProgress os_ok empty_store 5 [])) MySQLFlavor ExecutedGtidSetKey = Ok [] \<and>
   list_all (\<lambda>b. map_of b AppliedIndexKey = Some (be64 5)) (ms_commits (snd (SetBinlogProgress os_ok empty_store 5 [])))"
proof -
  obtain s' where s': "SetBinlogProgress os_ok empty_store 5 [] = (Ok (), s')"
    by (simp add: SetBinlogProgress_def Let_def Update_def Put_def empty_store_def path_Join_def
        MySQLFlavor_def ExecutedGtidSetKey_def AppliedIndexKey_def GTIDSet_Encode_def be64_def)
  then show ?thesis
    using SetBinlogProgress_atomic [OF _ _ s']
    by (auto simp: ascending_def empty_store_def gtids_storable_def list_all_iff)
qed

text \<open>C23: for a slave that has executed transactions, \<^verbatim>\<open>GetPreviousGtidSet\<close> returns the raft index of the
  last previous-GTIDs event whose transactions the slave has all executed, and \<^verbatim>\<open>ErrNotContain\<close> when
  there is none.\<close>

theorem GetPreviousGtidSet_last:
  assumes "ms_open s" "os SysRead MetadataFile" "cursor PgePrefix (ms_bucket s) = gtid_entries es"
    and "list_all (\<lambda>(i, g). gtids_storable g \<and> wf_gtids g) es" "wf_gtids slave" "slave \<noteq> []"
  shows "GetPreviousGtidSet os s slave =
    (case filter (\<lambda>(i, g). gtids g \<subseteq> gtids slave) es of
       [] \<Rightarrow> Err ErrNotContain
     | x # xs \<Rightarrow> Ok (fst (last (x # xs))))"
proof -
  have st: "list_all (\<lambda>(i, g). gtids_storable g) es" using assms(4) by (auto simp: list_all_iff)
  have "filter (\<lambda>(i, g). GTIDSet_Contain slave g) es = filter (\<lambda>(i, g). gtids g \<subseteq> gtids slave) es"
  proof (rule filter_cong [OF refl])
    fix e assume "e \<in> set es"
    then have "wf_gtids (snd e)" using assms(4) by (auto simp: list_all_iff)
    then show "(case e of (i, g) \<Rightarrow> GTIDSet_Contain slave g) = (case e of (i, g) \<Rightarrow> gtids g \<subseteq> gtids slave)"
      using GTIDSet_Contain_iff [OF assms(5)] by (simp add: case_prod_beta)
  qed
  then show ?thesis
    using assms(1-3) last_contained_spec [OF st assms(6)]
    by (simp add: GetPreviousGtidSet_def View_def pge_key_index split: list.split)
qed

definition one_uuid :: UUIDSet where
  "one_uuid = \<lparr>SID = replicate 16 1, Intervals = [Interval 1 5]\<rparr>"

theorem GetPreviousGtidSet_last_witness:
  "GetPreviousGtidSet os_ok (empty_store\<lparr>ms_bucket := gtid_entries [(3, [])]\<rparr>)
     [(UUID_String (SID one_uuid), one_uuid)] = Ok 3"
proof -
  show ?thesis
    using GetPreviousGtidSet_last [of "empty_store\<lparr>ms_bucket := gtid_entries [(3, [])]\<rparr>" os_ok "[(3, [])]"
        "[(UUID_String (SID one_uuid), one_uuid)]"] cursor_pge_one
    by (simp add: empty_store_def gtids_storable_def wf_gtids_def one_uuid_def wf_UUIDSet_def proper_def gtids_def)
qed

text \<open>C25: when the previous-GTIDs event that follows the first index left in the log has transactions of
  two servers or more, \<^verbatim>\<open>UpdatePugedGtidset\<close> does not return: it parses the text of the whole set as the
  set of one UUID, fails and ends the process.\<close>

theorem UpdatePugedGtidset_two_uuids_crash:
  assumes "ms_open s" "os SysRead MetadataFile" "cursor PgePrefix (ms_bucket s) = gtid_entries es"
    and "list_all (\<lambda>(i, g). gtids_storable g) es"
    and "List.find (\<lambda>(i, g). n < i) es = Some (i, g)" "gtids_text g" "2 \<le> length g"
  shows "fst (UpdatePugedGtidset os s n) = Crash"
proof -
  obtain k u l v r where g: "g = (k, u) # (l, v) # r"
    using assms(7) by (metis One_nat_def Suc_1 Suc_le_length_iff old.prod.exhaust)
  then have "GTIDSet_String g \<noteq> []" by simp
  moreover have "GTIDSet_Update p (GTIDSet_String g) = None" for p
    by (rule GTIDSet_Update_many [OF assms(6,7)])
  ultimately show ?thesis
    using assms(1-5) first_above_spec [OF assms(4)]
    by (simp add: UpdatePugedGtidset_def View_def split: outcome.split)
qed

definition two_uuids :: MysqlGTIDSet where
  "two_uuids =
     [(UUID_String (SID one_uuid), one_uuid),
      (UUID_String (replicate 16 2), \<lparr>SID = replicate 16 2, Intervals = [Interval 1 9]\<rparr>)]"

lemma two_uuids_ok: "gtids_storable two_uuids" "gtids_text two_uuids" "length two_uuids = 2"
proof -
  have "UUID_String (replicate 16 (1 :: byte)) \<noteq> UUID_String (replicate 16 2)"
    using UUID_String_inj [of "replicate 16 (1 :: byte)" "replicate 16 2"] by simp
  then show "gtids_storable two_uuids" "gtids_text two_uuids" "length two_uuids = 2"
    by (simp_all add: two_uuids_def one_uuid_def gtids_storable_def UUIDSet_storable_def int64_def
        gtids_text_def wf_gtids_def wf_UUIDSet_def proper_def gtid_interval_def)
qed

theorem UpdatePugedGtidset_two_uuids_crash_witness:
  "fst (UpdatePugedGtidset os_ok (empty_store\<lparr>ms_bucket := gtid_entries [(7, two_uuids)]\<rparr>) 3) = Crash"
  using UpdatePugedGtidset_two_uuids_crash
    [of "empty_store\<lparr>ms_bucket := gtid_entries [(7, two_uuids)]\<rparr>" os_ok "[(7, two_uuids)]" 3 7 two_uuids]
    two_uuids_ok cursor_pge_one
  by (simp add: empty_store_def)

text \<open>C24: when that event has the transactions of one server, \<^verbatim>\<open>UpdatePugedGtidset\<close> returns without an
  error, adds them to the purged set, and forgets exactly the previous-GTIDs events below the first
  index. (The new purged set must be within the sizes that the store can hold.)\<close>

theorem UpdatePugedGtidset_one_uuid:
  assumes s: "ms_open s" "all_ok os" "ascending (ms_bucket s)" "cursor PgePrefix (ms_bucket s) = gtid_entries es"
    and es: "list_all (\<lambda>(i, g). gtids_storable g) es"
    and g: "List.find (\<lambda>(i, g). n < i) es = Some (j, [(k, u)])" "gtids_text [(k, u)]"
    and p: "GetGtidSet os s MySQLFlavor GtidPurgedKey = Ok p" "wf_gtids p"
      "GTIDSet_Update p (GTIDSet_String [(k, u)]) = Some p'" "gtids_storable p'"
      "length (GTIDSet_Encode p') \<le> 2 ^ 31 - 2"
    and u: "UpdatePugedGtidset os s n = (r, s')"
  shows "r = Ok () \<and> GetGtidSet os s' MySQLFlavor GtidPurgedKey = Ok p' \<and>
    gtids p' = gtids p \<union> gtids [(k, u)] \<and>
    cursor PgePrefix (ms_bucket s') = gtid_entries (filter (\<lambda>(i, g). \<not> i < n) es)"
proof -
  obtain gk where gk: "gk = path_Join MySQLFlavor GtidPurgedKey" by simp
  have gk_props: "gk \<noteq> []" "length gk \<le> 32768" "\<not> HasPrefix gk PgePrefix"
    by (simp_all add: gk path_Join_def MySQLFlavor_def GtidPurgedKey_def HasPrefix_def PgePrefix_def)
  let ?b = "bucket_put gk (GTIDSet_Encode p') (ms_bucket s)"
  let ?ks = "map (\<lambda>(i, g). path_Join PgePrefix (pad20 i)) (filter (\<lambda>(i, g). i < n) es)"
  have os: "os SysRead MetadataFile" "os SysWrite MetadataFile" using s(2) by (simp_all add: all_ok_def)
  have "UUIDSet_String u \<noteq> []"
    using g(2) UUIDSet_String_ends(1) [of u] by (simp add: gtids_text_def wf_gtids_def wf_UUIDSet_def)
  moreover have "SetGtidSet os s MySQLFlavor GtidPurgedKey p' = (Ok (), commit ?b s)"
    using s(1) os(2) gk_props(1,2) p(5)
    by (simp add: SetGtidSet_def Set_def Update_def Put_def flip: gk)
  moreover have "deletePreviousGtidSet os (commit ?b s) n =
      (Ok (), commit (fold bucket_delete ?ks ?b) (commit ?b s))"
    using s os(2) cursor_put_other [OF s(3) gk_props(3)] delete_before_spec
    by (simp add: deletePreviousGtidSet_def Update_def)
  ultimately have r: "r = Ok ()" "s' = commit (fold bucket_delete ?ks ?b) (commit ?b s)"
    using u s g(1) first_above_spec [OF es] p(1,3) os(1) by (simp_all add: UpdatePugedGtidset_def View_def)
  have asc: "ascending ?b" by (rule ascending_put [OF s(3)])
  have "gk \<notin> set ?ks" using gk_props(3) by (auto simp: pge_prefix)
  then have "map_of (ms_bucket s') gk = Some (GTIDSet_Encode p')"
    using bk.fold_remove(2) [OF asc, of ?ks gk] bk.lookup_put [OF s(3)] by (simp add: r(2))
  then have "GetGtidSet os s' MySQLFlavor GtidPurgedKey = Ok p'"
    using gk_props(1) s(1) os(1) DecodeMysqlGTIDSet_Encode [OF p(4)]
    by (simp add: GetGtidSet_def Get_def View_def r(2) flip: gk)
  moreover have "gtids p' = gtids p \<union> gtids [(k, u)]"
    using GTIDSet_Update_one [OF p(2) g(2)] p(3) by auto
  moreover have "cursor PgePrefix (ms_bucket s') = gtid_entries (filter (\<lambda>(i, g). \<not> i < n) es)"
    using cursor_fold_delete [OF asc] cursor_put_other [OF s(3) gk_props(3)] s(4)
      filter_gtid_entries [of "\<lambda>i. i < n" es] by (simp add: r(2))
  ultimately show ?thesis using r(1) by blast
qed

theorem UpdatePugedGtidset_one_uuid_witness:
  "fst (UpdatePugedGtidset os_ok (empty_store\<lparr>ms_bucket := gtid_entries [(7, [(UUID_String (SID one_uuid), one_uuid)])]\<rparr>) 3)
     = Ok ()"
proof -
  let ?g = "[(UUID_String (SID one_uuid), one_uuid)]" and ?s = "empty_store\<lparr>ms_bucket := gtid_entries [(7, [(UUID_String (SID one_uuid), one_uuid)])]\<rparr>"
  have g: "gtids_storable ?g" "gtids_text ?g"
    by (simp_all add: one_uuid_def gtids_storable_def UUIDSet_storable_def int64_def
        gtids_text_def wf_gtids_def wf_UUIDSet_def proper_def gtid_interval_def)
  have k: "path_Join MySQLFlavor GtidPurgedKey \<noteq> path_Join PgePrefix (pad20 7)" "path_Join MySQLFlavor GtidPurgedKey \<noteq> []"
    by (simp_all add: path_Join_def MySQLFlavor_def GtidPurgedKey_def PgePrefix_def)
  have "wf_UUIDSet one_uuid" "list_all gtid_interval (Intervals one_uuid)"
    using g(2) by (simp_all add: gtids_text_def wf_gtids_def)
  then have up: "GTIDSet_Update [] (GTIDSet_String ?g) = Some ?g"
    by (simp add: GTIDSet_Update_def ParseUUIDSet_String AddSet_def Let_def)
  obtain r s' where u: "UpdatePugedGtidset os_ok ?s 3 = (r, s')" by (cases "UpdatePugedGtidset os_ok ?s 3")
  have "length (GTIDSet_Encode ?g) \<le> 2 ^ 31 - 2"
    by (simp add: GTIDSet_Encode_def UUIDSet_encode_def one_uuid_def)
  then show ?thesis
    using UpdatePugedGtidset_one_uuid [of ?s os_ok "[(7, ?g)]" 3 7 "UUID_String (SID one_uuid)" one_uuid "[]" ?g r s']
      g up u k cursor_pge_one
    by (simp add: empty_store_def ascending_def GetGtidSet_def Get_def View_def wf_gtids_def)
qed



end
