(* ===== verification/Binlog_Event.thy ===== *)
theory Binlog_Event
  imports Meta_Store
begin

text \<open>
  What kingbus reads of a binlog event: the header and the bodies of the query, GTID and rotate events
  (\<^verbatim>\<open>event.go\<close> and \<^verbatim>\<open>const.go\<close> of the vendored go-mysql replication package). A read beyond the end of
  the data is a panic of the process.
\<close>

type_synonym EventType = byte

definition START_EVENT_V3 :: EventType where "START_EVENT_V3 = 1"
definition QUERY_EVENT :: EventType where "QUERY_EVENT = 2"
definition STOP_EVENT :: EventType where "STOP_EVENT = 3"
definition ROTATE_EVENT :: EventType where "ROTATE_EVENT = 4"
definition INTVAR_EVENT :: EventType where "INTVAR_EVENT = 5"
definition LOAD_EVENT :: EventType where "LOAD_EVENT = 6"
definition SLAVE_EVENT :: EventType where "SLAVE_EVENT = 7"
definition CREATE_FILE_EVENT :: EventType where "CREATE_FILE_EVENT = 8"
definition APPEND_BLOCK_EVENT :: EventType where "APPEND_BLOCK_EVENT = 9"
definition EXEC_LOAD_EVENT :: EventType where "EXEC_LOAD_EVENT = 10"
definition DELETE_FILE_EVENT :: EventType where "DELETE_FILE_EVENT = 11"
definition NEW_LOAD_EVENT :: EventType where "NEW_LOAD_EVENT = 12"
definition RAND_EVENT :: EventType where "RAND_EVENT = 13"
definition USER_VAR_EVENT :: EventType where "USER_VAR_EVENT = 14"
definition FORMAT_DESCRIPTION_EVENT :: EventType where "FORMAT_DESCRIPTION_EVENT = 15"
definition XID_EVENT :: EventType where "XID_EVENT = 16"
definition BEGIN_LOAD_QUERY_EVENT :: EventType where "BEGIN_LOAD_QUERY_EVENT = 17"
definition EXECUTE_LOAD_QUERY_EVENT :: EventType where "EXECUTE_LOAD_QUERY_EVENT = 18"
definition TABLE_MAP_EVENT :: EventType where "TABLE_MAP_EVENT = 19"
definition WRITE_ROWS_EVENTv0 :: EventType where "WRITE_ROWS_EVENTv0 = 20"
definition UPDATE_ROWS_EVENTv0 :: EventType where "UPDATE_ROWS_EVENTv0 = 21"
definition DELETE_ROWS_EVENTv0 :: EventType where "DELETE_ROWS_EVENTv0 = 22"
definition WRITE_ROWS_EVENTv1 :: EventType where "WRITE_ROWS_EVENTv1 = 23"
definition UPDATE_ROWS_EVENTv1 :: EventType where "UPDATE_ROWS_EVENTv1 = 24"
definition DELETE_ROWS_EVENTv1 :: EventType where "DELETE_ROWS_EVENTv1 = 25"
definition INCIDENT_EVENT :: EventType where "INCIDENT_EVENT = 26"
definition HEARTBEAT_EVENT :: EventType where "HEARTBEAT_EVENT = 27"
definition ROWS_QUERY_EVENT :: EventType where "ROWS_QUERY_EVENT = 29"
definition WRITE_ROWS_EVENTv2 :: EventType where "WRITE_ROWS_EVENTv2 = 30"
definition UPDATE_ROWS_EVENTv2 :: EventType where "UPDATE_ROWS_EVENTv2 = 31"
definition DELETE_ROWS_EVENTv2 :: EventType where "DELETE_ROWS_EVENTv2 = 32"
definition GTID_EVENT :: EventType where "GTID_EVENT = 33"
definition ANONYMOUS_GTID_EVENT :: EventType where "ANONYMOUS_GTID_EVENT = 34"
definition PREVIOUS_GTIDS_EVENT :: EventType where "PREVIOUS_GTIDS_EVENT = 35"
definition TRANSACTION_CONTEXT_EVENT :: EventType where "TRANSACTION_CONTEXT_EVENT = 36"
definition VIEW_CHANGE_EVENT :: EventType where "VIEW_CHANGE_EVENT = 37"
definition XA_PREPARE_LOG_EVENT :: EventType where "XA_PREPARE_LOG_EVENT = 38"

lemmas event_types = START_EVENT_V3_def QUERY_EVENT_def STOP_EVENT_def ROTATE_EVENT_def INTVAR_EVENT_def
  LOAD_EVENT_def SLAVE_EVENT_def CREATE_FILE_EVENT_def APPEND_BLOCK_EVENT_def EXEC_LOAD_EVENT_def
  DELETE_FILE_EVENT_def NEW_LOAD_EVENT_def RAND_EVENT_def USER_VAR_EVENT_def FORMAT_DESCRIPTION_EVENT_def
  XID_EVENT_def BEGIN_LOAD_QUERY_EVENT_def EXECUTE_LOAD_QUERY_EVENT_def TABLE_MAP_EVENT_def
  WRITE_ROWS_EVENTv0_def UPDATE_ROWS_EVENTv0_def DELETE_ROWS_EVENTv0_def WRITE_ROWS_EVENTv1_def
  UPDATE_ROWS_EVENTv1_def DELETE_ROWS_EVENTv1_def INCIDENT_EVENT_def HEARTBEAT_EVENT_def
  ROWS_QUERY_EVENT_def WRITE_ROWS_EVENTv2_def UPDATE_ROWS_EVENTv2_def DELETE_ROWS_EVENTv2_def
  GTID_EVENT_def ANONYMOUS_GTID_EVENT_def PREVIOUS_GTIDS_EVENT_def TRANSACTION_CONTEXT_EVENT_def
  VIEW_CHANGE_EVENT_def XA_PREPARE_LOG_EVENT_def

definition LOG_EVENT_IGNORABLE_F :: u16 where "LOG_EVENT_IGNORABLE_F = 0x80"
definition EventHeaderSize :: nat where "EventHeaderSize = 19"
definition BinlogChecksumLength :: nat where "BinlogChecksumLength = 4"
definition SidLength :: nat where "SidLength = 16"

record EventHeader =
  Timestamp :: u32
  h_EventType :: EventType
  ServerID :: u32
  EventSize :: u32
  LogPos :: u32
  Flags :: u16

definition EventHeader_Decode :: "bytes \<Rightarrow> (storage_error, EventHeader) outcome" where
  "EventHeader_Decode data =
     (if length data < EventHeaderSize then Err ErrEvent
      else
        obind (must (get_le32 data)) (\<lambda>timestamp.
        obind (must (get_le32 (drop 5 data))) (\<lambda>serverID.
        obind (must (get_le32 (drop 9 data))) (\<lambda>eventSize.
        obind (must (get_le32 (drop 13 data))) (\<lambda>logPos.
        obind (must (get_le16 (drop 17 data))) (\<lambda>flags.
          if eventSize < of_nat EventHeaderSize then Err ErrEvent
          else Ok \<lparr>Timestamp = timestamp, h_EventType = data ! 4, ServerID = serverID,
                   EventSize = eventSize, LogPos = logPos, Flags = flags\<rparr>))))))"

text \<open>The query of a query event: after thirteen fixed bytes, the status variables, the schema and a zero.\<close>

definition QueryEvent_Decode :: "bytes \<Rightarrow> (storage_error, bytes) outcome" where
  "QueryEvent_Decode data =
     (if length data < 13 then Crash
      else
        let schemaLength = unat (data ! 8)
        in obind (must (get_le16 (drop 11 data))) (\<lambda>statusVarsLength.
             let pos = 13 + unat statusVarsLength + schemaLength + 1
             in if length data < pos then Crash else Ok (drop pos data)))"

record GTIDEvent =
  CommitFlag :: byte
  ge_SID :: bytes
  GNO :: int
  LastCommitted :: int
  SequenceNumber :: int

definition GTIDEvent_Decode :: "bytes \<Rightarrow> (storage_error, GTIDEvent) outcome" where
  "GTIDEvent_Decode data =
     (if length data < 1 + SidLength + 8 then Crash
      else
        obind (must (get_le64 (drop (1 + SidLength) data))) (\<lambda>gno.
        let e = \<lparr>CommitFlag = data ! 0, ge_SID = take SidLength (drop 1 data), GNO = sint gno,
                 LastCommitted = 0, SequenceNumber = 0\<rparr>
        in if 42 \<le> length data \<and> data ! 25 = 2
           then obind (must (get_le64 (drop 26 data))) (\<lambda>lc.
                obind (must (get_le64 (drop 34 data))) (\<lambda>sn.
                  Ok (e\<lparr>LastCommitted := sint lc, SequenceNumber := sint sn\<rparr>)))
           else Ok e))"

definition RotateEvent_Decode :: "bytes \<Rightarrow> (storage_error, u64 \<times> bytes) outcome" where
  "RotateEvent_Decode data =
     obind (must (get_le64 data)) (\<lambda>position. Ok (position, drop 8 data))"

definition PreviousGtidsLogEvent_Decode :: "bytes \<Rightarrow> (storage_error, MysqlGTIDSet) outcome" where
  "PreviousGtidsLogEvent_Decode data = DecodeMysqlGTIDSet data"

section \<open>Events as the master writes them\<close>

text \<open>
  The bytes of an event with the body \<open>body\<close>: the header, whose size field counts the header, the body
  and the checksum.
\<close>

definition event_bytes :: "EventHeader \<Rightarrow> bytes \<Rightarrow> bytes \<Rightarrow> bytes" where
  "event_bytes h body crc =
     le32 (Timestamp h) @ [h_EventType h] @ le32 (ServerID h) @ le32 (EventSize h) @ le32 (LogPos h)
     @ le16 (Flags h) @ body @ crc"

definition event_ok :: "EventHeader \<Rightarrow> bytes \<Rightarrow> bytes \<Rightarrow> bool" where
  "event_ok h body crc \<longleftrightarrow>
     length crc = BinlogChecksumLength \<and>
     unat (EventSize h) = EventHeaderSize + length body + BinlogChecksumLength"

lemma EventHeader_Decode_bytes:
  assumes "event_ok h body crc"
  shows "EventHeader_Decode (event_bytes h body crc) = Ok h"
    "drop EventHeaderSize (event_bytes h body crc) = body @ crc"
    "length (event_bytes h body crc) = unat (EventSize h)"
  using assms
  by (simp_all add: EventHeader_Decode_def event_bytes_def event_ok_def EventHeaderSize_def
      BinlogChecksumLength_def nth_append word_less_nat_alt)

definition query_body :: "bytes \<Rightarrow> bytes \<Rightarrow> bytes \<Rightarrow> bytes \<Rightarrow> bytes" where
  "query_body fixed status schema query =
     take 8 fixed @ [of_nat (length schema)] @ drop 8 fixed @ le16 (of_nat (length status)) @ status @ schema
     @ [0] @ query"

lemma QueryEvent_Decode_body:
  assumes "length fixed = 10" "length schema < 2 ^ 8" "length status < 2 ^ 16"
  shows "QueryEvent_Decode (query_body fixed status schema query) = Ok query"
proof -
  let ?pre = "take 8 fixed @ [of_nat (length schema)] @ drop 8 fixed @ le16 (of_nat (length status)) @ status
    @ schema @ [0]"
  have body: "query_body fixed status schema query = ?pre @ query" by (simp add: query_body_def)
  have len: "length ?pre = 13 + length status + length schema + 1" using assms(1) by simp
  have "unat (query_body fixed status schema query ! 8) = length schema"
    "get_le16 (drop 11 (query_body fixed status schema query)) = Some (of_nat (length status))"
    "unat (of_nat (length status) :: u16) = length status"
    using assms by (simp_all add: query_body_def nth_append unat_of_nat)
  moreover have "drop (13 + length status + length schema + 1) (query_body fixed status schema query) = query"
    unfolding body by (simp only: len [symmetric] drop_append) simp
  moreover have "13 + length status + length schema + 1 \<le> length (query_body fixed status schema query)"
    unfolding body using len by simp
  ultimately show ?thesis by (simp add: QueryEvent_Decode_def Let_def)
qed

definition gtid_body :: "byte \<Rightarrow> bytes \<Rightarrow> u64 \<Rightarrow> bytes" where
  "gtid_body flag sid gno = [flag] @ sid @ le64 gno"

lemma GTIDEvent_Decode_body:
  assumes "length sid = 16"
  shows "GTIDEvent_Decode (gtid_body flag sid gno) =
    Ok \<lparr>CommitFlag = flag, ge_SID = sid, GNO = sint gno, LastCommitted = 0, SequenceNumber = 0\<rparr>"
  using assms by (simp add: GTIDEvent_Decode_def gtid_body_def SidLength_def Let_def)

end
