(* ===== verification/Trx_Boundary.thy ===== *)
theory Trx_Boundary
  imports Binlog_Event
begin

text \<open>
  The transaction boundary parser: \<^verbatim>\<open>src/mysql/trx_boundary_parser.go\<close>. It classifies binlog events and
  follows the transactions of a stream of events as a state machine.
\<close>

section \<open>The parser\<close>

datatype EventBoundaryType =
    EventBoundaryTypeError | EventBoundaryTypeGtid | EventBoundaryTypeBeginTrx
  | EventBoundaryTypeEndTrx | EventBoundaryTypeEndXaTrx | EventBoundaryTypePreStatement
  | EventBoundaryTypeStatement | EventBoundaryTypeIncident | EventBoundaryTypeIgnore

datatype eventParserState =
    EventParserNone | EventParserGtid | EventParserDDL | EventParserDML | EventParserError

definition IsInsideTransaction :: "eventParserState \<Rightarrow> bool" where
  "IsInsideTransaction p \<longleftrightarrow> p \<noteq> EventParserError \<and> p \<noteq> EventParserNone"

definition IsNotInsideTransaction :: "eventParserState \<Rightarrow> bool" where
  "IsNotInsideTransaction p \<longleftrightarrow> p = EventParserNone"

definition IsError :: "eventParserState \<Rightarrow> bool" where
  "IsError p \<longleftrightarrow> p = EventParserError"

definition Reset :: "eventParserState \<Rightarrow> eventParserState" where
  "Reset p = EventParserNone"

text \<open>
  \<^verbatim>\<open>strings.ToUpper\<close>, as far as the parser can see it: the ASCII letters, and the two letters outside of
  ASCII whose upper case is an ASCII letter (the dotless i and the long s, here in UTF-8). No other
  letter can become part of the words that the parser looks for.
\<close>

fun ToUpper :: "string \<Rightarrow> string" where
  "ToUpper [] = []"
| "ToUpper (c # d # s) =
     (if c = CHR 0xC4 \<and> d = CHR 0xB1 then CHR ''I'' # ToUpper s
      else if c = CHR 0xC5 \<and> d = CHR 0xBF then CHR ''S'' # ToUpper s
      else (if 97 \<le> (of_char c :: nat) \<and> of_char c \<le> (122 :: nat) then char_of ((of_char c :: nat) - 32) else c)
           # ToUpper (d # s))"
| "ToUpper [c] =
     [if 97 \<le> (of_char c :: nat) \<and> of_char c \<le> (122 :: nat) then char_of ((of_char c :: nat) - 32) else c]"

definition query_boundary :: "string \<Rightarrow> EventBoundaryType" where
  "query_boundary query =
     (if query = ''BEGIN'' \<or> query = ''XA START'' then EventBoundaryTypeBeginTrx
      else if HasPrefix query ''ROLLBACK'' \<or> HasPrefix query ''ROLLBACK TO '' then EventBoundaryTypeEndTrx
      else if HasPrefix query ''XA ROLLBACK'' then EventBoundaryTypeEndXaTrx
      else EventBoundaryTypeStatement)"

definition statement_events :: "EventType list" where
  "statement_events =
     [EXECUTE_LOAD_QUERY_EVENT, TABLE_MAP_EVENT, APPEND_BLOCK_EVENT, BEGIN_LOAD_QUERY_EVENT,
      ROWS_QUERY_EVENT, WRITE_ROWS_EVENTv2, UPDATE_ROWS_EVENTv2, DELETE_ROWS_EVENTv2,
      WRITE_ROWS_EVENTv1, UPDATE_ROWS_EVENTv1, DELETE_ROWS_EVENTv1, WRITE_ROWS_EVENTv0,
      UPDATE_ROWS_EVENTv0, DELETE_ROWS_EVENTv0, VIEW_CHANGE_EVENT]"

definition ignored_events :: "EventType list" where
  "ignored_events =
     [ROTATE_EVENT, FORMAT_DESCRIPTION_EVENT, HEARTBEAT_EVENT, PREVIOUS_GTIDS_EVENT, START_EVENT_V3,
      STOP_EVENT, LOAD_EVENT, SLAVE_EVENT, CREATE_FILE_EVENT, DELETE_FILE_EVENT, NEW_LOAD_EVENT,
      EXEC_LOAD_EVENT, TRANSACTION_CONTEXT_EVENT]"

definition GetEventBoundaryType ::
    "EventHeader \<Rightarrow> bytes \<Rightarrow> (storage_error, EventBoundaryType) outcome" where
  "GetEventBoundaryType h eventBody =
     (let t = h_EventType h
      in if t = GTID_EVENT \<or> t = ANONYMOUS_GTID_EVENT then Ok EventBoundaryTypeGtid
         else if t = QUERY_EVENT then
           obind (QueryEvent_Decode eventBody) (\<lambda>query. Ok (query_boundary (ToUpper (BytesToString query))))
         else if t = XID_EVENT then Ok EventBoundaryTypeEndTrx
         else if t = XA_PREPARE_LOG_EVENT then Ok EventBoundaryTypeEndTrx
         else if t \<in> set [INTVAR_EVENT, RAND_EVENT, USER_VAR_EVENT] then Ok EventBoundaryTypePreStatement
         else if t \<in> set statement_events then Ok EventBoundaryTypeStatement
         else if t = INCIDENT_EVENT then Ok EventBoundaryTypeIncident
         else if t \<in> set ignored_events then Ok EventBoundaryTypeIgnore
         else if Flags h = LOG_EVENT_IGNORABLE_F then Ok EventBoundaryTypeIgnore
         else Ok EventBoundaryTypeError)"

text \<open>\<^verbatim>\<open>UpdateState\<close>: the new state, which is stored in any case, and whether it returns \<^verbatim>\<open>ErrUpdateState\<close>.\<close>

fun UpdateState :: "eventParserState \<Rightarrow> EventBoundaryType \<Rightarrow> eventParserState \<times> bool" where
  "UpdateState p EventBoundaryTypeGtid = (EventParserGtid, p \<noteq> EventParserNone)"
| "UpdateState p EventBoundaryTypeBeginTrx =
     (EventParserDML, p \<in> {EventParserDDL, EventParserDML, EventParserError})"
| "UpdateState p EventBoundaryTypeEndTrx = (EventParserNone, p \<noteq> EventParserDML)"
| "UpdateState p EventBoundaryTypeEndXaTrx =
     (EventParserNone, p \<in> {EventParserNone, EventParserDDL, EventParserError})"
| "UpdateState p EventBoundaryTypeStatement =
     (if p = EventParserDML then p else EventParserNone, p = EventParserError)"
| "UpdateState p EventBoundaryTypePreStatement =
     (if p \<in> {EventParserNone, EventParserGtid} then EventParserDDL
      else if p \<in> {EventParserDDL, EventParserDML} then p
      else EventParserNone, p = EventParserError)"
| "UpdateState p EventBoundaryTypeIncident = (EventParserNone, False)"
| "UpdateState p EventBoundaryTypeIgnore = (p, False)"
| "UpdateState p EventBoundaryTypeError = (EventParserError, True)"

section \<open>The streams it accepts\<close>

text \<open>A run of the parser over a stream; \<open>None\<close> when an update returns an error.\<close>

fun parse_run :: "eventParserState \<Rightarrow> EventBoundaryType list \<Rightarrow> eventParserState option" where
  "parse_run p [] = Some p"
| "parse_run p (t # ts) = (case UpdateState p t of (p', err) \<Rightarrow> if err then None else parse_run p' ts)"

text \<open>
  The transactions, as the comment of the source describes them: a DDL is an optional GTID, then
  statements that prepare (user variables and the like), then the statement; a DML is an optional
  GTID, \<^verbatim>\<open>BEGIN\<close>, statements, and an end. An incident ends whatever is open, and \<^verbatim>\<open>XA ROLLBACK\<close> may
  follow a GTID directly.
\<close>

definition gtid_opt :: "EventBoundaryType list \<Rightarrow> bool" where
  "gtid_opt g \<longleftrightarrow> g = [] \<or> g = [EventBoundaryTypeGtid]"

inductive transaction :: "EventBoundaryType list \<Rightarrow> bool" where
  ddl: "gtid_opt g \<Longrightarrow> set pre \<subseteq> {EventBoundaryTypePreStatement} \<Longrightarrow>
    e \<in> {EventBoundaryTypeStatement, EventBoundaryTypeIncident} \<Longrightarrow> transaction (g @ pre @ [e])"
| dml: "gtid_opt g \<Longrightarrow> set body \<subseteq> {EventBoundaryTypeStatement, EventBoundaryTypePreStatement} \<Longrightarrow>
    e \<in> {EventBoundaryTypeEndTrx, EventBoundaryTypeEndXaTrx, EventBoundaryTypeIncident} \<Longrightarrow>
    transaction (g @ EventBoundaryTypeBeginTrx # body @ [e])"
| xa_rollback: "transaction [EventBoundaryTypeGtid, EventBoundaryTypeEndXaTrx]"

definition not_ignored :: "EventBoundaryType list \<Rightarrow> EventBoundaryType list" where
  "not_ignored ts = filter (\<lambda>t. t \<noteq> EventBoundaryTypeIgnore) ts"

lemma not_ignored_simps [simp]:
  "not_ignored [] = []"
  "not_ignored (t # ts) = (if t = EventBoundaryTypeIgnore then not_ignored ts else t # not_ignored ts)"
  by (simp_all add: not_ignored_def)

lemma parse_run_not_ignored: "parse_run p (not_ignored ts) = parse_run p ts"
  by (induction ts arbitrary: p) (auto split: prod.split)

lemma parse_run_append:
  "parse_run p (xs @ ys) = (case parse_run p xs of None \<Rightarrow> None | Some p' \<Rightarrow> parse_run p' ys)"
  by (induction xs arbitrary: p) (auto split: prod.split)

lemma parse_run_pre:
  "set pre \<subseteq> {EventBoundaryTypePreStatement} \<Longrightarrow> parse_run EventParserDDL pre = Some EventParserDDL"
  by (induction pre) auto

lemma parse_run_body:
  "set body \<subseteq> {EventBoundaryTypeStatement, EventBoundaryTypePreStatement} \<Longrightarrow>
     parse_run EventParserDML body = Some EventParserDML"
  by (induction body) auto

lemma transaction_accepted: "transaction ts \<Longrightarrow> parse_run EventParserNone ts = Some EventParserNone"
proof (induction rule: transaction.induct)
  case (ddl g pre e)
  then show ?case using parse_run_pre
    by (cases pre) (auto simp: gtid_opt_def parse_run_append)
next
  case (dml g body e)
  then show ?case using parse_run_body [OF dml(2)] by (auto simp: gtid_opt_def parse_run_append)
qed simp

text \<open>What is left of a transaction in each state.\<close>

definition ddl_tail :: "EventBoundaryType list \<Rightarrow> bool" where
  "ddl_tail u \<longleftrightarrow> (\<exists>pre e. u = pre @ [e] \<and> set pre \<subseteq> {EventBoundaryTypePreStatement} \<and>
     e \<in> {EventBoundaryTypeStatement, EventBoundaryTypeIncident})"

definition dml_tail :: "EventBoundaryType list \<Rightarrow> bool" where
  "dml_tail u \<longleftrightarrow> (\<exists>body e. u = body @ [e] \<and> set body \<subseteq> {EventBoundaryTypeStatement, EventBoundaryTypePreStatement} \<and>
     e \<in> {EventBoundaryTypeEndTrx, EventBoundaryTypeEndXaTrx, EventBoundaryTypeIncident})"

lemma tails:
  "e \<in> {EventBoundaryTypeStatement, EventBoundaryTypeIncident} \<Longrightarrow> ddl_tail [e]"
  "ddl_tail u \<Longrightarrow> ddl_tail (EventBoundaryTypePreStatement # u)"
  "e \<in> {EventBoundaryTypeEndTrx, EventBoundaryTypeEndXaTrx, EventBoundaryTypeIncident} \<Longrightarrow> dml_tail [e]"
  "dml_tail u \<Longrightarrow> t \<in> {EventBoundaryTypeStatement, EventBoundaryTypePreStatement} \<Longrightarrow> dml_tail (t # u)"
proof -
  show "ddl_tail (EventBoundaryTypePreStatement # u)" if "ddl_tail u"
    using that unfolding ddl_tail_def by (metis append_Cons insert_subset list.simps(15) singletonI)
  show "dml_tail (t # u)" if "dml_tail u" "t \<in> {EventBoundaryTypeStatement, EventBoundaryTypePreStatement}"
    using that unfolding dml_tail_def by (metis append_Cons insert_subset list.simps(15))
qed (auto simp: ddl_tail_def dml_tail_def)

lemma ddl_split:
  assumes "parse_run EventParserDDL ts = Some EventParserNone" "EventBoundaryTypeIgnore \<notin> set ts"
  shows "\<exists>u v. ts = u @ v \<and> ddl_tail u \<and> parse_run EventParserNone v = Some EventParserNone"
  using assms
proof (induction ts)
  case (Cons t ts)
  have one: ?case if "ddl_tail [t]" "parse_run EventParserNone ts = Some EventParserNone"
    using that by (intro exI [of _ "[t]"] exI [of _ ts]) simp
  show ?case
  proof (cases t)
    case EventBoundaryTypePreStatement
    then obtain u v where "ts = u @ v" "ddl_tail u" "parse_run EventParserNone v = Some EventParserNone"
      using Cons by auto
    then show ?thesis using tails(2) EventBoundaryTypePreStatement by (metis append_Cons)
  qed (use one tails(1) [of t] Cons.prems in auto)
qed simp

lemma dml_split:
  assumes "parse_run EventParserDML ts = Some EventParserNone" "EventBoundaryTypeIgnore \<notin> set ts"
  shows "\<exists>u v. ts = u @ v \<and> dml_tail u \<and> parse_run EventParserNone v = Some EventParserNone"
  using assms
proof (induction ts)
  case (Cons t ts)
  have IH: ?case if "parse_run EventParserDML ts = Some EventParserNone"
    "t \<in> {EventBoundaryTypeStatement, EventBoundaryTypePreStatement}"
    using Cons.IH [OF that(1)] Cons.prems(2) tails(4) that(2) by (metis append_Cons list.set_intros(2))
  have one: ?case if "dml_tail [t]" "parse_run EventParserNone ts = Some EventParserNone"
    using that by (intro exI [of _ "[t]"] exI [of _ ts]) simp
  show ?case using IH one tails(3) [of t] Cons.prems by (cases t) auto
qed simp

lemma transaction_of_tails:
  assumes "gtid_opt g"
  shows "ddl_tail u \<Longrightarrow> transaction (g @ u)" "dml_tail u \<Longrightarrow> transaction (g @ EventBoundaryTypeBeginTrx # u)"
  using assms by (auto simp: ddl_tail_def dml_tail_def intro: transaction.intros)

text \<open>One step: a stream that the parser accepts starts with a transaction.\<close>

lemma first_transaction:
  assumes "parse_run EventParserNone ts = Some EventParserNone" "ts \<noteq> []" "EventBoundaryTypeIgnore \<notin> set ts"
  obtains u v where "ts = u @ v" "transaction u" "u \<noteq> []" "parse_run EventParserNone v = Some EventParserNone"
proof -
  note found = that
  have starts: thesis if g: "gtid_opt g" and ts: "ts = g @ t # r"
    and r: "t \<in> {EventBoundaryTypeStatement, EventBoundaryTypeIncident} \<and> parse_run EventParserNone r = Some EventParserNone \<or>
      t = EventBoundaryTypePreStatement \<and> parse_run EventParserDDL r = Some EventParserNone \<or>
      t = EventBoundaryTypeBeginTrx \<and> parse_run EventParserDML r = Some EventParserNone" for g t r
  proof -
    have ni: "EventBoundaryTypeIgnore \<notin> set r" using assms(3) ts by simp
    from r consider (one) "ddl_tail [t]" "parse_run EventParserNone r = Some EventParserNone"
      | (ddl) "t = EventBoundaryTypePreStatement" "parse_run EventParserDDL r = Some EventParserNone"
      | (dml) "t = EventBoundaryTypeBeginTrx" "parse_run EventParserDML r = Some EventParserNone"
      using tails(1) by blast
    then show thesis
    proof cases
      case one
      then show ?thesis using found [of "g @ [t]" r] transaction_of_tails(1) [OF g] ts by simp
    next
      case ddl
      then obtain u v where "r = u @ v" "ddl_tail u" "parse_run EventParserNone v = Some EventParserNone"
        using ddl_split ni by blast
      then show ?thesis using found [of "g @ t # u" v] transaction_of_tails(1) [OF g tails(2)] ts ddl(1) by simp
    next
      case dml
      then obtain u v where "r = u @ v" "dml_tail u" "parse_run EventParserNone v = Some EventParserNone"
        using dml_split ni by blast
      then show ?thesis using found [of "g @ t # u" v] transaction_of_tails(2) [OF g] ts dml(1) by simp
    qed
  qed
  obtain t r where t: "ts = t # r" using assms(2) by (cases ts) auto
  show thesis
  proof (cases "t = EventBoundaryTypeGtid")
    case False
    then show ?thesis using assms(1,3) t by (intro starts [of "[]" t r]) (cases t; simp add: gtid_opt_def)+
  next
    case True
    then obtain t' r' where t': "r = t' # r'" using assms(1) t by (cases r) auto
    show ?thesis
    proof (cases "t' = EventBoundaryTypeEndXaTrx")
      case True
      then show ?thesis using found [of "[t, t']" r'] transaction.xa_rollback \<open>t = EventBoundaryTypeGtid\<close> assms(1) t t' by simp
    next
      case False
      then show ?thesis using assms(1,3) t t' \<open>t = EventBoundaryTypeGtid\<close>
        by (intro starts [of "[t]" t' r']) (cases t'; simp add: gtid_opt_def)+
    qed
  qed
qed

lemma accepted_transactions:
  assumes "parse_run EventParserNone ts = Some EventParserNone" "EventBoundaryTypeIgnore \<notin> set ts"
  shows "\<exists>us. ts = concat us \<and> list_all transaction us"
  using assms
proof (induction "length ts" arbitrary: ts rule: less_induct)
  case less
  show ?case
  proof (cases "ts = []")
    case True
    then show ?thesis by (intro exI [of _ "[]"]) simp
  next
    case False
    then obtain u v where uv: "ts = u @ v" "transaction u" "u \<noteq> []" "parse_run EventParserNone v = Some EventParserNone"
      using first_transaction [OF less.prems(1) _ less.prems(2)] by metis
    then obtain us where "v = concat us" "list_all transaction us" using less.hyps [of v] less.prems(2) by auto
    then show ?thesis using uv by (intro exI [of _ "u # us"]) simp
  qed
qed

section \<open>Properties\<close>

text \<open>C27: the parser accepts a stream, and is outside of a transaction at its end, exactly when the stream
  without the events it ignores is a sequence of complete transactions.\<close>

theorem parser_accepts_transactions:
  "(\<exists>p. parse_run EventParserNone ts = Some p \<and> IsNotInsideTransaction p) \<longleftrightarrow>
   (\<exists>us. not_ignored ts = concat us \<and> list_all transaction us)"
proof -
  have "parse_run EventParserNone (concat us) = Some EventParserNone" if "list_all transaction us" for us
    using that by (induction us) (auto simp: parse_run_append transaction_accepted)
  moreover have "EventBoundaryTypeIgnore \<notin> set (not_ignored ts)" by (simp add: not_ignored_def)
  ultimately show ?thesis
    using accepted_transactions [of "not_ignored ts"] parse_run_not_ignored [of EventParserNone ts]
    by (auto simp: IsNotInsideTransaction_def)
qed

text \<open>\<^verbatim>\<open>COMMIT\<close> does not end a transaction, although the comments of the parser say that it does: the
  query event counts as a statement, and a DML transaction stays open after it.\<close>

theorem commit_is_a_statement:
  assumes "h_EventType h = QUERY_EVENT" "length fixed = 10" "length schema < 2 ^ 8" "length status < 2 ^ 16"
    "ToUpper (BytesToString query) = ''COMMIT''"
  shows "\<exists>t. GetEventBoundaryType h (query_body fixed status schema query) = Ok t \<and>
    t = EventBoundaryTypeStatement \<and> UpdateState EventParserDML t = (EventParserDML, False)"
  using assms
  by (simp add: GetEventBoundaryType_def QueryEvent_Decode_body query_boundary_def HasPrefix_def event_types)

definition query_header :: EventHeader where
  "query_header = \<lparr>Timestamp = 0, h_EventType = QUERY_EVENT, ServerID = 1, EventSize = 47, LogPos = 100, Flags = 0\<rparr>"

theorem commit_is_a_statement_witness:
  "GetEventBoundaryType query_header (query_body (replicate 10 0) [] [] (StringToBytes ''commit'')) =
     Ok EventBoundaryTypeStatement"
proof -
  have "ToUpper (BytesToString (StringToBytes ''commit'')) = ''COMMIT''" by code_simp
  then show ?thesis
    using commit_is_a_statement [of query_header "replicate 10 0" "[]" "[]" "StringToBytes ''commit''"]
    by (simp add: query_header_def)
qed

text \<open>Rolling back to a savepoint ends the transaction for the parser, although the transaction goes on:
  a query that starts with \<^verbatim>\<open>ROLLBACK TO\<close> is the end of a transaction like \<^verbatim>\<open>ROLLBACK\<close>.\<close>

theorem rollback_to_savepoint_ends:
  assumes "h_EventType h = QUERY_EVENT" "length fixed = 10" "length schema < 2 ^ 8" "length status < 2 ^ 16"
    "HasPrefix (ToUpper (BytesToString query)) ''ROLLBACK TO ''"
  shows "\<exists>t. GetEventBoundaryType h (query_body fixed status schema query) = Ok t \<and>
    UpdateState EventParserDML t = (EventParserNone, False)"
proof -
  let ?q = "ToUpper (BytesToString query)"
  obtain r where q: "?q = ''ROLLBACK TO '' @ r"
    using assms(5) unfolding HasPrefix_def by (metis append_take_drop_id)
  have "query_boundary ?q = EventBoundaryTypeEndTrx" unfolding q by (simp add: query_boundary_def HasPrefix_def)
  then show ?thesis using assms(1-4)
    by (simp add: GetEventBoundaryType_def QueryEvent_Decode_body event_types)
qed

theorem rollback_to_savepoint_ends_witness:
  "\<exists>t. GetEventBoundaryType query_header (query_body (replicate 10 0) [] [] (StringToBytes ''rollback to a'')) = Ok t \<and>
     UpdateState EventParserDML t = (EventParserNone, False)"
proof -
  have "HasPrefix (ToUpper (BytesToString (StringToBytes ''rollback to a''))) ''ROLLBACK TO ''" by code_simp
  then show ?thesis
    using rollback_to_savepoint_ends [of query_header "replicate 10 0" "[]" "[]" "StringToBytes ''rollback to a''"]
    by (simp add: query_header_def)
qed

end
