(* ===== verification/Binlog_Progress.thy ===== *)
theory Binlog_Progress
  imports Trx_Boundary
begin

text \<open>
  The progress of receiving the binlog: \<^verbatim>\<open>src/server/binlog_progress.go\<close>. It follows the transactions of
  the applied events, collects the GTIDs of the complete ones, and stores them with the raft index
  from time to time. The operations work on the progress and on the store it shares with the server;
  the two readings of the clock that an update makes are an argument, in nanoseconds.
\<close>

section \<open>The progress\<close>

record BinlogProgress =
  currentGtid :: string
  lastSaveGtid :: string
  lastBinlogFile :: string
  lastFilePosition :: u32
  executedGtidSetStr :: string
  trxBoundaryParser :: eventParserState
  persistentTime :: int
  persistentAppliedIndex :: u64
  executedGtidSet :: MysqlGTIDSet

definition persistentCount :: u64 where "persistentCount = 10000"
definition persistentTimeInterval :: int where "persistentTimeInterval = 4 * 10 ^ 9"

definition newBinlogProgress :: "os \<Rightarrow> MetaStore \<Rightarrow> (storage_error, BinlogProgress) outcome" where
  "newBinlogProgress os st =
     obind (GetGtidSet os st MySQLFlavor ExecutedGtidSetKey) (\<lambda>gs.
       Ok \<lparr>currentGtid = [], lastSaveGtid = [], lastBinlogFile = [], lastFilePosition = 0,
           executedGtidSetStr = GTIDSet_String gs, trxBoundaryParser = EventParserNone,
           persistentTime = 0, persistentAppliedIndex = 0, executedGtidSet = gs\<rparr>)"

type_synonym progress_state = "BinlogProgress \<times> MetaStore"

text \<open>\<^verbatim>\<open>reset\<close>; it leaves \<^verbatim>\<open>lastSaveGtid\<close> as it is.\<close>

definition BinlogProgress_reset :: "os \<Rightarrow> string \<Rightarrow> progress_state \<Rightarrow> (progress_state, unit) res" where
  "BinlogProgress_reset os gs = (\<lambda>(p, st).
     let p = p\<lparr>trxBoundaryParser := EventParserNone, currentGtid := [], lastBinlogFile := [],
               lastFilePosition := 0, persistentAppliedIndex := 0, persistentTime := 0\<rparr>;
         done = (\<lambda>p. p\<lparr>executedGtidSetStr := GTIDSet_String (executedGtidSet p)\<rparr>)
     in if gs = [] then (Ok (), (done p, st))
        else case GTIDSet_Update (executedGtidSet p) gs of
               None \<Rightarrow> (Err ErrGtid, (p, st))
             | Some g \<Rightarrow>
                 let p = p\<lparr>executedGtidSet := g\<rparr>
                 in sbind (SetGtidSet os st MySQLFlavor ExecutedGtidSetKey g) (\<lambda>st. (p, st))
                      (\<lambda>_ (p, st). (Ok (), (done p, st))))"

text \<open>The end of \<^verbatim>\<open>updateProcess\<close>: the GTID of a transaction that is complete.\<close>

definition addCurrentGtid :: "os \<Rightarrow> int \<times> int \<Rightarrow> u64 \<Rightarrow> progress_state \<Rightarrow> (progress_state, unit) res" where
  "addCurrentGtid os clock raftIndex = (\<lambda>(p, st).
     let currentGtidStr = currentGtid p
     in if \<not> (IsNotInsideTransaction (trxBoundaryParser p) \<and> currentGtidStr \<noteq> [] \<and> lastSaveGtid p \<noteq> currentGtidStr)
        then (Ok (), (p, st))
        else case GTIDSet_Update (executedGtidSet p) currentGtidStr of
               None \<Rightarrow> (Err ErrGtid, (p, st))
             | Some g \<Rightarrow>
                 let p = p\<lparr>executedGtidSet := g, lastSaveGtid := currentGtidStr, executedGtidSetStr := GTIDSet_String g\<rparr>
                 in if raftIndex - persistentAppliedIndex p > persistentCount \<or>
                       fst clock - persistentTime p > persistentTimeInterval
                    then sbind (SetBinlogProgress os st raftIndex g) (\<lambda>st. (p, st)) (\<lambda>_ (p, st).
                           (Ok (), (p\<lparr>persistentAppliedIndex := raftIndex, persistentTime := snd clock\<rparr>, st)))
                    else (Ok (), (p, st)))"

definition updateBoundary ::
    "os \<Rightarrow> int \<times> int \<Rightarrow> u64 \<Rightarrow> EventBoundaryType \<Rightarrow> progress_state \<Rightarrow> (progress_state, unit) res" where
  "updateBoundary os clock raftIndex eventBoundaryType = (\<lambda>(p, st).
     case UpdateState (trxBoundaryParser p) eventBoundaryType of
       (newParserState, err) \<Rightarrow>
         if err
         then (Ok (), (p\<lparr>trxBoundaryParser := Reset newParserState, currentGtid := []\<rparr>, st))
         else addCurrentGtid os clock raftIndex (p\<lparr>trxBoundaryParser := newParserState\<rparr>, st))"

definition updateProcess ::
    "os \<Rightarrow> int \<times> int \<Rightarrow> u64 \<Rightarrow> bytes \<Rightarrow> progress_state \<Rightarrow> (progress_state, unit) res" where
  "updateProcess os clock raftIndex eventRawData = (\<lambda>(p, st).
     sbind (EventHeader_Decode eventRawData, (p, st)) (\<lambda>s. s) (\<lambda>h (p, st).
       let p = p\<lparr>lastFilePosition := LogPos h\<rparr>;
           eventRawData = drop EventHeaderSize eventRawData;
           eventLen = int (unat (EventSize h)) - int EventHeaderSize
       in if int (length eventRawData) \<noteq> eventLen then (Err ErrEvent, (p, st))
          else if length eventRawData < BinlogChecksumLength then (Crash, (p, st))
          else
            sbind (GetEventBoundaryType h (take (length eventRawData - BinlogChecksumLength) eventRawData), (p, st))
              (\<lambda>s. s) (updateBoundary os clock raftIndex)))"

definition ExecutedGtidSetClone :: "BinlogProgress \<Rightarrow> MysqlGTIDSet" where
  "ExecutedGtidSetClone p = GTIDSet_Clone (executedGtidSet p)"

section \<open>GTIDs\<close>

text \<open>The transactions that the text of a UUID set denotes.\<close>

definition gtid_of :: "string \<Rightarrow> (string \<times> int) set" where
  "gtid_of str =
     (case ParseUUIDSet str of None \<Rightarrow> {} | Some u \<Rightarrow> {UUID_String (SID u)} \<times> covers (Intervals u))"

lemma hex_Decode_length: "hex_Decode s = Some b \<Longrightarrow> length s = 2 * length b"
  by (induction s arbitrary: b rule: hex_Decode.induct) (auto split: option.splits)

lemma decodeCanonical_length: "decodeCanonical t = Some u \<Longrightarrow> length t = 36 \<Longrightarrow> length u = 16"
  using hex_Decode_length by (fastforce simp: decodeCanonical_def split: if_splits)

lemma decodePlain_length: "decodePlain t = Some u \<Longrightarrow> length u = 16"
  using hex_Decode_length decodeCanonical_length by (fastforce simp: decodePlain_def split: if_splits)

lemma UUID_FromString_length: "UUID_FromString t = Some u \<Longrightarrow> length u = 16"
  using decodePlain_length hex_Decode_length [of t u] decodeCanonical_length [of t u]
  by (auto simp: UUID_FromString_def Let_def split: if_splits)

lemma parseInterval_proper: "parseInterval s = Some i \<Longrightarrow> proper i"
  by (auto simp: parseInterval_def proper_def Let_def split: list.splits if_splits prod.splits)

lemma parseIntervals_proper: "parseIntervals ps = Some is \<Longrightarrow> list_all proper is \<and> length is = length ps"
  by (induction ps arbitrary: "is") (auto simp: parseInterval_proper split: option.splits)

lemma Normalize_Nil_iff: "Normalize s = [] \<longleftrightarrow> s = []"
proof -
  have "sort s = [] \<longleftrightarrow> s = []" by (metis length_0_conv length_sort)
  then show ?thesis by (auto simp: Normalize_def normalize_loop_not_Nil split: list.splits)
qed

lemma ParseUUIDSet_wf: "ParseUUIDSet str = Some u \<Longrightarrow> wf_UUIDSet u"
proof -
  assume "ParseUUIDSet str = Some u"
  then obtain sid p ps "is" where
    "UUID_FromString sid = Some (SID u)" "parseIntervals (p # ps) = Some is" "Intervals u = Normalize is"
    by (auto simp: ParseUUIDSet_def simp del: parseIntervals.simps split: list.splits option.splits)
  then show ?thesis
    using UUID_FromString_length [of sid] parseIntervals_proper [of "p # ps" "is"] Normalize_correct(2) [of "is"]
      Normalize_Nil_iff [of "is"]
    by (cases "is") (auto simp: wf_UUIDSet_def)
qed

lemma GTIDSet_Update_wf:
  assumes "wf_gtids s" "GTIDSet_Update s str = Some s'"
  shows "wf_gtids s'" "gtids s' = gtids s \<union> gtid_of str"
proof -
  obtain u where u: "ParseUUIDSet str = Some u" "s' = AddSet s u" using assms(2) by (auto simp: GTIDSet_Update_def)
  show "wf_gtids s'" "gtids s' = gtids s \<union> gtid_of str"
    using AddSet_wf [OF assms(1) ParseUUIDSet_wf [OF u(1)]] u by (simp_all add: gtid_of_def)
qed

lemma GTIDSet_Update_None: "GTIDSet_Update s str = None \<longleftrightarrow> ParseUUIDSet str = None"
  by (simp add: GTIDSet_Update_def)

section \<open>What an update does\<close>

text \<open>
  The transactions of the progress: those that are complete, and with the one that is still open.
\<close>

definition open_gtid :: "BinlogProgress \<Rightarrow> (string \<times> int) set" where
  "open_gtid p = (if currentGtid p \<noteq> [] \<and> lastSaveGtid p \<noteq> currentGtid p then gtid_of (currentGtid p) else {})"

definition executed :: "BinlogProgress \<Rightarrow> (string \<times> int) set" where
  "executed p = gtids (executedGtidSet p)"

text \<open>The invariant of the progress.\<close>

definition progress_ok :: "BinlogProgress \<Rightarrow> bool" where
  "progress_ok p \<longleftrightarrow> wf_gtids (executedGtidSet p) \<and> executedGtidSetStr p = GTIDSet_String (executedGtidSet p) \<and>
     (lastSaveGtid p \<noteq> [] \<longrightarrow> gtid_of (lastSaveGtid p) \<subseteq> executed p) \<and> trxBoundaryParser p \<noteq> EventParserError"

lemma progress_okD:
  assumes "progress_ok p"
  shows "wf_gtids (executedGtidSet p)" "executedGtidSetStr p = GTIDSet_String (executedGtidSet p)"
    "lastSaveGtid p \<noteq> [] \<Longrightarrow> gtid_of (lastSaveGtid p) \<subseteq> gtids (executedGtidSet p)"
    "trxBoundaryParser p \<noteq> EventParserError"
  using assms by (auto simp: progress_ok_def executed_def)

text \<open>All transactions up to and with the open one.\<close>

lemma executed_open: "progress_ok p \<Longrightarrow> currentGtid p \<noteq> [] \<Longrightarrow> executed p \<union> open_gtid p = executed p \<union> gtid_of (currentGtid p)"
  using progress_okD(3) [of p] by (auto simp: open_gtid_def executed_def)

lemma addCurrentGtid_effect:
  assumes "addCurrentGtid os clock i (p, st) = (Ok (), (p', st'))" "progress_ok p"
  shows "progress_ok p'" "trxBoundaryParser p' = trxBoundaryParser p" "currentGtid p' = currentGtid p"
    "executed p' = executed p \<union> (if IsNotInsideTransaction (trxBoundaryParser p) then open_gtid p else {})"
    "open_gtid p' = (if IsNotInsideTransaction (trxBoundaryParser p) then {} else open_gtid p)"
proof -
  let ?add = "IsNotInsideTransaction (trxBoundaryParser p) \<and> currentGtid p \<noteq> [] \<and> lastSaveGtid p \<noteq> currentGtid p"
  have "progress_ok p' \<and> trxBoundaryParser p' = trxBoundaryParser p \<and> currentGtid p' = currentGtid p \<and>
    executed p' = executed p \<union> (if IsNotInsideTransaction (trxBoundaryParser p) then open_gtid p else {}) \<and>
    open_gtid p' = (if IsNotInsideTransaction (trxBoundaryParser p) then {} else open_gtid p)"
  proof (cases ?add)
    case False
    then have "p' = p" using assms(1) by (simp add: addCurrentGtid_def)
    then show ?thesis using assms(2) False by (auto simp: open_gtid_def)
  next
    case True
    then obtain g where g: "GTIDSet_Update (executedGtidSet p) (currentGtid p) = Some g"
      using assms(1) by (auto simp: addCurrentGtid_def Let_def split: option.splits)
    have p': "executedGtidSet p' = g" "lastSaveGtid p' = currentGtid p" "executedGtidSetStr p' = GTIDSet_String g"
      "trxBoundaryParser p' = trxBoundaryParser p" "currentGtid p' = currentGtid p"
      using assms(1) True g by (auto simp: addCurrentGtid_def Let_def sbind_eq_Ok split: if_splits)
    show ?thesis
      using True p' GTIDSet_Update_wf [OF progress_okD(1) [OF assms(2)] g] progress_okD(4) [OF assms(2)]
      by (auto simp: progress_ok_def executed_def open_gtid_def)
  qed
  then show "progress_ok p'" "trxBoundaryParser p' = trxBoundaryParser p" "currentGtid p' = currentGtid p"
    "executed p' = executed p \<union> (if IsNotInsideTransaction (trxBoundaryParser p) then open_gtid p else {})"
    "open_gtid p' = (if IsNotInsideTransaction (trxBoundaryParser p) then {} else open_gtid p)" by blast+
qed

text \<open>The header and the boundary type of an event, when it is complete.\<close>

definition event_boundary :: "bytes \<Rightarrow> (EventHeader \<times> EventBoundaryType) option" where
  "event_boundary data =
     (case EventHeader_Decode data of
        Ok h \<Rightarrow>
          let body = drop EventHeaderSize data
          in if int (length body) \<noteq> int (unat (EventSize h)) - int EventHeaderSize \<or> length body < BinlogChecksumLength
             then None
             else (case GetEventBoundaryType h (take (length body - BinlogChecksumLength) body) of
                     Ok t \<Rightarrow> Some (h, t) | _ \<Rightarrow> None)
      | _ \<Rightarrow> None)"

text \<open>An update, by the boundary type of its event.\<close>

lemma updateProcess_boundary:
  "updateProcess os clock i data (p, st) = (Ok (), s') \<longleftrightarrow>
     (\<exists>h t. event_boundary data = Some (h, t) \<and>
        updateBoundary os clock i t (p\<lparr>lastFilePosition := LogPos h\<rparr>, st) = (Ok (), s'))"
proof (cases "EventHeader_Decode data")
  case (Ok h)
  let ?body = "drop EventHeaderSize data"
  show ?thesis
  proof (cases "GetEventBoundaryType h (take (length ?body - BinlogChecksumLength) ?body)")
    case (Ok t)
    then show ?thesis using \<open>EventHeader_Decode data = Ok h\<close> by (simp add: updateProcess_def event_boundary_def Let_def)
  qed (simp_all add: updateProcess_def event_boundary_def Let_def Ok)
qed (simp_all add: updateProcess_def event_boundary_def)

lemma UpdateState_no_error: "UpdateState q t = (q', False) \<Longrightarrow> q \<noteq> EventParserError \<Longrightarrow> q' \<noteq> EventParserError"
  by (cases t; cases q) auto

lemma updateBoundary_effect:
  assumes u: "updateBoundary os clock i t (p, st) = (Ok (), (p', st'))" and ok: "progress_ok p"
    and q: "UpdateState (trxBoundaryParser p) t = (q, err)"
  shows "progress_ok p'" "lastFilePosition p' = lastFilePosition p"
    "trxBoundaryParser p' = (if err then EventParserNone else q)"
    "executed p' = executed p \<union> (if \<not> err \<and> IsNotInsideTransaction q then open_gtid p else {})"
    "open_gtid p' = (if err \<or> IsNotInsideTransaction q then {} else open_gtid p)"
proof -
  have "progress_ok p' \<and> lastFilePosition p' = lastFilePosition p \<and>
    trxBoundaryParser p' = (if err then EventParserNone else q) \<and>
    executed p' = executed p \<union> (if \<not> err \<and> IsNotInsideTransaction q then open_gtid p else {}) \<and>
    open_gtid p' = (if err \<or> IsNotInsideTransaction q then {} else open_gtid p)"
  proof (cases err)
    case True
    then show ?thesis using u q ok by (auto simp: updateBoundary_def Reset_def progress_ok_def executed_def open_gtid_def)
  next
    case False
    let ?p = "p\<lparr>trxBoundaryParser := q\<rparr>"
    have a: "addCurrentGtid os clock i (?p, st) = (Ok (), (p', st'))" using u q False by (simp add: updateBoundary_def)
    have ok': "progress_ok ?p"
      using ok UpdateState_no_error [of "trxBoundaryParser p" t q] q False by (auto simp: progress_ok_def executed_def)
    have "lastFilePosition p' = lastFilePosition p"
      using a by (auto simp: addCurrentGtid_def Let_def sbind_eq_Ok split: if_splits option.splits)
    moreover have "executed ?p = executed p" "open_gtid ?p = open_gtid p" by (simp_all add: executed_def open_gtid_def)
    ultimately show ?thesis using addCurrentGtid_effect [OF a ok'] False by simp
  qed
  then show "progress_ok p'" "lastFilePosition p' = lastFilePosition p"
    "trxBoundaryParser p' = (if err then EventParserNone else q)"
    "executed p' = executed p \<union> (if \<not> err \<and> IsNotInsideTransaction q then open_gtid p else {})"
    "open_gtid p' = (if err \<or> IsNotInsideTransaction q then {} else open_gtid p)" by blast+
qed

text \<open>Where the event ends in the binlog file plays no part in the rest.\<close>

lemma lastFilePosition_irrelevant [simp]:
  "progress_ok (p\<lparr>lastFilePosition := x\<rparr>) = progress_ok p" "executed (p\<lparr>lastFilePosition := x\<rparr>) = executed p"
  "open_gtid (p\<lparr>lastFilePosition := x\<rparr>) = open_gtid p"
  by (simp_all add: progress_ok_def executed_def open_gtid_def)

section \<open>Two progresses side by side\<close>

text \<open>
  \<open>agrees X p q\<close>: the progress \<open>q\<close> is at the same place of the stream as \<open>p\<close>, and has executed the transactions
  \<open>X\<close> in addition. A server that restarts reads again events which it had applied before it stopped; its
  progress agrees with the one that was lost.
\<close>

definition agrees :: "(string \<times> int) set \<Rightarrow> BinlogProgress \<Rightarrow> BinlogProgress \<Rightarrow> bool" where
  "agrees X p q \<longleftrightarrow> progress_ok p \<and> progress_ok q \<and> trxBoundaryParser p = trxBoundaryParser q \<and>
     executed q = executed p \<union> X \<and> executed q \<union> open_gtid q = executed p \<union> open_gtid p \<union> X"

lemma agrees_lastFilePosition [simp]:
  "agrees X (p\<lparr>lastFilePosition := x\<rparr>) (q\<lparr>lastFilePosition := y\<rparr>) = agrees X p q"
  by (simp add: agrees_def)

lemma updateBoundary_agrees:
  assumes "agrees X p q" "updateBoundary os clock i t (p, st) = (Ok (), (p', st'))"
    "updateBoundary os' clock' i' t (q, ut) = (Ok (), (q', ut'))"
  shows "agrees X p' q'"
proof -
  have ok: "progress_ok p" "progress_ok q" "trxBoundaryParser q = trxBoundaryParser p"
    using assms(1) by (auto simp: agrees_def)
  obtain r err where r: "UpdateState (trxBoundaryParser p) t = (r, err)" by fastforce
  then have r': "UpdateState (trxBoundaryParser q) t = (r, err)" using ok(3) by simp
  show ?thesis
    using updateBoundary_effect [OF assms(2) ok(1) r] updateBoundary_effect [OF assms(3) ok(2) r'] assms(1)
    by (auto simp: agrees_def)
qed

lemma updateProcess_agrees:
  assumes "agrees X p q" "updateProcess os clock i data (p, st) = (Ok (), (p', st'))"
    "updateProcess os' clock' i' data (q, ut) = (Ok (), (q', ut'))"
  shows "agrees X p' q'"
proof -
  obtain h t where "event_boundary data = Some (h, t)"
    "updateBoundary os clock i t (p\<lparr>lastFilePosition := LogPos h\<rparr>, st) = (Ok (), (p', st'))"
    "updateBoundary os' clock' i' t (q\<lparr>lastFilePosition := LogPos h\<rparr>, ut) = (Ok (), (q', ut'))"
    using assms(2,3) unfolding updateProcess_boundary by force
  then show ?thesis using updateBoundary_agrees assms(1) agrees_lastFilePosition by metis
qed

text \<open>The server stores the GTID of a GTID event in the progress.\<close>

lemma currentGtid_ok: "progress_ok p \<Longrightarrow> progress_ok (p\<lparr>currentGtid := g\<rparr>)"
  by (simp add: progress_ok_def executed_def)

lemma currentGtid_agrees:
  assumes "agrees X p q" "g \<noteq> []"
  shows "agrees X (p\<lparr>currentGtid := g\<rparr>) (q\<lparr>currentGtid := g\<rparr>)"
proof -
  have ok: "progress_ok (p\<lparr>currentGtid := g\<rparr>)" "progress_ok (q\<lparr>currentGtid := g\<rparr>)"
    using assms(1) currentGtid_ok by (auto simp: agrees_def)
  have "executed (p\<lparr>currentGtid := g\<rparr>) = executed p" "executed (q\<lparr>currentGtid := g\<rparr>) = executed q"
    by (simp_all add: executed_def)
  then show ?thesis
    using assms ok executed_open [OF ok(1)] executed_open [OF ok(2)] by (auto simp: agrees_def)
qed

lemma reset_effect:
  assumes "BinlogProgress_reset os gs (p, st) = (Ok (), (p', st'))" "progress_ok p"
  shows "progress_ok p'" "trxBoundaryParser p' = EventParserNone" "open_gtid p' = {}"
    "executed p' = executed p \<union> (if gs = [] then {} else gtid_of gs)"
proof -
  have "progress_ok p' \<and> trxBoundaryParser p' = EventParserNone \<and> open_gtid p' = {} \<and>
    executed p' = executed p \<union> (if gs = [] then {} else gtid_of gs)"
  proof (cases "gs = []")
    case True
    have "executedGtidSet p' = executedGtidSet p" "lastSaveGtid p' = lastSaveGtid p" "currentGtid p' = []"
      "executedGtidSetStr p' = GTIDSet_String (executedGtidSet p)" "trxBoundaryParser p' = EventParserNone"
      using assms(1) True by (simp_all add: BinlogProgress_reset_def Let_def) auto
    then show ?thesis
      using progress_okD [OF assms(2)] True by (simp add: progress_ok_def executed_def open_gtid_def)
  next
    case False
    then obtain g where g: "GTIDSet_Update (executedGtidSet p) gs = Some g"
      using assms(1) by (cases "GTIDSet_Update (executedGtidSet p) gs") (simp_all add: BinlogProgress_reset_def Let_def)
    have "executedGtidSet p' = g" "lastSaveGtid p' = lastSaveGtid p" "currentGtid p' = []"
      "executedGtidSetStr p' = GTIDSet_String g" "trxBoundaryParser p' = EventParserNone"
      using assms(1) False g by (auto simp: BinlogProgress_reset_def Let_def sbind_eq_Ok)
    then show ?thesis
      using progress_okD [OF assms(2)] GTIDSet_Update_wf [OF progress_okD(1) [OF assms(2)] g] False
      by (auto simp: progress_ok_def executed_def open_gtid_def)
  qed
  then show "progress_ok p'" "trxBoundaryParser p' = EventParserNone" "open_gtid p' = {}"
    "executed p' = executed p \<union> (if gs = [] then {} else gtid_of gs)" by blast+
qed

lemma reset_agrees:
  assumes "agrees X p q" "BinlogProgress_reset os gs (p, st) = (Ok (), (p', st'))"
    "BinlogProgress_reset os' gs (q, ut) = (Ok (), (q', ut'))"
  shows "agrees X p' q'"
proof -
  have ok: "progress_ok p" "progress_ok q" using assms(1) by (auto simp: agrees_def)
  show ?thesis
    using assms(1) reset_effect [OF assms(2) ok(1)] reset_effect [OF assms(3) ok(2)] by (auto simp: agrees_def)
qed

section \<open>What is stored\<close>

text \<open>An update writes to the store only when a transaction ends, and then the progress up to its end.\<close>

lemma updateProcess_store:
  assumes "updateProcess os clock i data (p, st) = (Ok (), (p', st'))"
  shows "st' = st \<or> SetBinlogProgress os st i (executedGtidSet p') = (Ok (), st') \<and>
    trxBoundaryParser p' = EventParserNone \<and> lastSaveGtid p' = currentGtid p'"
proof -
  obtain h t where "event_boundary data = Some (h, t)" and u: "updateBoundary os clock i t (p\<lparr>lastFilePosition := LogPos h\<rparr>, st) = (Ok (), (p', st'))"
    using assms unfolding updateProcess_boundary by blast
  obtain q err where "UpdateState (trxBoundaryParser p) t = (q, err)" by fastforce
  then show ?thesis
    using u by (cases err) (auto simp: updateBoundary_def addCurrentGtid_def IsNotInsideTransaction_def Let_def sbind_eq_Ok
        split: if_splits option.splits)
qed

lemma newBinlogProgress_reads:
  assumes "newBinlogProgress os st = Ok q" "wf_gtids (executedGtidSet q)"
  shows "progress_ok q" "trxBoundaryParser q = EventParserNone" "open_gtid q = {}"
    "GetGtidSet os st MySQLFlavor ExecutedGtidSetKey = Ok (executedGtidSet q)"
  using assms by (auto simp: newBinlogProgress_def obind_eq_Ok progress_ok_def open_gtid_def)

text \<open>What the progress knows of the store: nothing since the start of the process or a reset, or the stored index.\<close>

definition knows_stored :: "BinlogProgress \<Rightarrow> MetaStore \<Rightarrow> bool" where
  "knows_stored p st \<longleftrightarrow>
     persistentAppliedIndex p = 0 \<and> persistentTime p = 0 \<or>
     map_of (ms_bucket st) AppliedIndexKey = Some (be64 (persistentAppliedIndex p))"

lemma addCurrentGtid_stored:
  assumes "addCurrentGtid os (now, later) i (p, st) = (Ok (), (p', st'))" "ascending (ms_bucket st)" "knows_stored p st"
    and "persistentTimeInterval < now"
  shows "knows_stored p' st'"
    "lastSaveGtid p' \<noteq> lastSaveGtid p \<Longrightarrow> \<exists>j. map_of (ms_bucket st') AppliedIndexKey = Some (be64 j) \<and>
       i - j \<le> persistentCount \<and> (j = i \<and> persistentTime p' = later \<or> now - persistentTime p \<le> persistentTimeInterval)"
proof -
  consider (same) "p' = p" "st' = st"
    | (kept) "st' = st" "persistentAppliedIndex p' = persistentAppliedIndex p" "persistentTime p' = persistentTime p"
      "i - persistentAppliedIndex p \<le> persistentCount" "now - persistentTime p \<le> persistentTimeInterval"
    | (stored) g where "SetBinlogProgress os st i g = (Ok (), st')" "persistentAppliedIndex p' = i" "persistentTime p' = later"
    using assms(1) by (auto simp: addCurrentGtid_def Let_def sbind_eq_Ok split: if_splits option.splits)
  then have "knows_stored p' st' \<and> (lastSaveGtid p' \<noteq> lastSaveGtid p \<longrightarrow>
     (\<exists>j. map_of (ms_bucket st') AppliedIndexKey = Some (be64 j) \<and> i - j \<le> persistentCount \<and>
        (j = i \<and> persistentTime p' = later \<or> now - persistentTime p \<le> persistentTimeInterval)))"
  proof cases
    case same
    then show ?thesis using assms(3) by simp
  next
    case kept
    then show ?thesis using assms(3,4) by (auto simp: knows_stored_def)
  next
    case stored
    then show ?thesis using SetBinlogProgress_stores(4) [OF assms(2) stored(1)]
      by (auto simp: knows_stored_def intro!: exI [of _ i])
  qed
  then show "knows_stored p' st'"
    "lastSaveGtid p' \<noteq> lastSaveGtid p \<Longrightarrow> \<exists>j. map_of (ms_bucket st') AppliedIndexKey = Some (be64 j) \<and>
       i - j \<le> persistentCount \<and> (j = i \<and> persistentTime p' = later \<or> now - persistentTime p \<le> persistentTimeInterval)" by blast+
qed

text \<open>C28: how far the store can be behind: when an update adds the GTID of a transaction, the store holds an applied index
  that is at most \<^verbatim>\<open>persistentCount\<close> behind the raft index, and it was written by this update or at most
  \<^verbatim>\<open>persistentTimeInterval\<close> ago. A restart therefore repeats a bounded part of the log. What the progress knows of the
  store stays true with every update. (The clock is more than that interval after the year 1970, where it starts.)\<close>

theorem stored_progress_bound:
  assumes "updateProcess os (now, later) i data (p, st) = (Ok (), (p', st'))" "ascending (ms_bucket st)" "knows_stored p st"
    and "persistentTimeInterval < now"
  shows "knows_stored p' st' \<and>
    (lastSaveGtid p' \<noteq> lastSaveGtid p \<longrightarrow> (\<exists>j. map_of (ms_bucket st') AppliedIndexKey = Some (be64 j) \<and>
       i - j \<le> persistentCount \<and> (j = i \<and> persistentTime p' = later \<or> now - persistentTime p \<le> persistentTimeInterval)))"
proof -
  obtain h t where "event_boundary data = Some (h, t)" and u: "updateBoundary os (now, later) i t (p\<lparr>lastFilePosition := LogPos h\<rparr>, st) = (Ok (), (p', st'))"
    using assms(1) unfolding updateProcess_boundary by blast
  obtain q err where q: "UpdateState (trxBoundaryParser p) t = (q, err)" by fastforce
  show ?thesis
  proof (cases err)
    case True
    then show ?thesis using u q assms(3) by (auto simp: updateBoundary_def knows_stored_def)
  next
    case False
    let ?p = "p\<lparr>lastFilePosition := LogPos h, trxBoundaryParser := q\<rparr>"
    have "addCurrentGtid os (now, later) i (?p, st) = (Ok (), (p', st'))" using u q False by (simp add: updateBoundary_def)
    moreover have "knows_stored ?p st" using assms(3) by (simp add: knows_stored_def)
    ultimately show ?thesis using addCurrentGtid_stored [of os now later i ?p st p' st'] assms(2,4) by simp
  qed
qed

text \<open>A sample: the end of a transaction, and the progress before it.\<close>

definition xid_event :: bytes where
  "xid_event = event_bytes
     \<lparr>Timestamp = 0, h_EventType = XID_EVENT, ServerID = 1, EventSize = 31, LogPos = 200, Flags = 0\<rparr>
     (replicate 8 0) (replicate 4 0)"

definition sample_gtid :: string where
  "sample_gtid = ''01010101-0101-0101-0101-010101010101:5''"

definition sample_set :: MysqlGTIDSet where
  "sample_set = [(''01010101-0101-0101-0101-010101010101'', \<lparr>SID = replicate 16 1, Intervals = [Interval 5 6]\<rparr>)]"

definition in_transaction :: BinlogProgress where
  "in_transaction =
     \<lparr>currentGtid = sample_gtid, lastSaveGtid = [], lastBinlogFile = [], lastFilePosition = 0,
      executedGtidSetStr = [], trxBoundaryParser = EventParserDML, persistentTime = 0,
      persistentAppliedIndex = 0, executedGtidSet = []\<rparr>"

lemma sample_update: "GTIDSet_Update [] sample_gtid = Some sample_set"
  by code_simp

lemma xid_boundary: "\<exists>h. event_boundary xid_event = Some (h, EventBoundaryTypeEndTrx)"
proof -
  let ?h = "\<lparr>Timestamp = 0, h_EventType = XID_EVENT, ServerID = 1, EventSize = 31, LogPos = 200, Flags = 0\<rparr> :: EventHeader"
  have "event_ok ?h (replicate 8 0) (replicate 4 0)"
    by (simp add: event_ok_def BinlogChecksumLength_def EventHeaderSize_def)
  then have "EventHeader_Decode xid_event = Ok ?h" "drop EventHeaderSize xid_event = replicate 8 0 @ replicate 4 0"
    using EventHeader_Decode_bytes unfolding xid_event_def by blast+
  moreover have "GetEventBoundaryType ?h b = Ok EventBoundaryTypeEndTrx" for b
    by (simp add: GetEventBoundaryType_def event_types)
  ultimately show ?thesis by (simp add: event_boundary_def BinlogChecksumLength_def EventHeaderSize_def)
qed

lemma sample_end:
  "\<exists>p' st'. updateProcess os_ok c 20000 xid_event (in_transaction, empty_store) = (Ok (), (p', st')) \<and>
     executedGtidSet p' = sample_set \<and> lastSaveGtid p' = sample_gtid"
proof -
  obtain h where h: "event_boundary xid_event = Some (h, EventBoundaryTypeEndTrx)" using xid_boundary by blast
  obtain st' where "SetBinlogProgress os_ok empty_store 20000 sample_set = (Ok (), st')"
    by (simp add: SetBinlogProgress_def Let_def Update_def Put_def empty_store_def path_Join_def MySQLFlavor_def
        ExecutedGtidSetKey_def AppliedIndexKey_def sample_set_def GTIDSet_Encode_def UUIDSet_encode_def be64_def)
  then have "\<exists>p'. updateBoundary os_ok c 20000 EventBoundaryTypeEndTrx (in_transaction\<lparr>lastFilePosition := LogPos h\<rparr>, empty_store)
      = (Ok (), (p', st')) \<and> executedGtidSet p' = sample_set \<and> lastSaveGtid p' = sample_gtid"
    using sample_update
    by (simp add: updateBoundary_def addCurrentGtid_def in_transaction_def IsNotInsideTransaction_def persistentCount_def
        sample_gtid_def Let_def)
  then show ?thesis using h unfolding updateProcess_boundary by blast
qed

theorem stored_progress_bound_witness:
  "\<exists>p' st' j. updateProcess os_ok (5 * 10 ^ 9, 6 * 10 ^ 9) 20000 xid_event (in_transaction, empty_store) = (Ok (), (p', st')) \<and>
     map_of (ms_bucket st') AppliedIndexKey = Some (be64 j) \<and> 20000 - j \<le> persistentCount"
proof -
  obtain p' st' where u: "updateProcess os_ok (5 * 10 ^ 9, 6 * 10 ^ 9) 20000 xid_event (in_transaction, empty_store) = (Ok (), (p', st'))"
    "lastSaveGtid p' = sample_gtid" using sample_end by blast
  have "knows_stored in_transaction empty_store" "lastSaveGtid p' \<noteq> lastSaveGtid in_transaction"
    using u(2) by (simp_all add: knows_stored_def in_transaction_def sample_gtid_def)
  then show ?thesis using stored_progress_bound [OF u(1)] u(1)
    by (auto simp: empty_store_def ascending_def persistentTimeInterval_def)
qed

end
