(* ===== verification/Conf_Change.thy ===== *)
theory Conf_Change
  imports Raft_Entry
begin

text \<open>
  Changes of the configuration of the cluster: \<^verbatim>\<open>raftpb.ConfChange\<close> of the vendored etcd raft
  (\<^verbatim>\<open>src/vendor/github.com/coreos/etcd/raft/raftpb/raft.pb.go\<close>) with its generated codec. Its type is an \<^verbatim>\<open>int32\<close>.
\<close>

definition ConfChangeAddNode :: u32 where "ConfChangeAddNode = 0"
definition ConfChangeRemoveNode :: u32 where "ConfChangeRemoveNode = 1"
definition ConfChangeUpdateNode :: u32 where "ConfChangeUpdateNode = 2"

lemmas conf_change_types = ConfChangeAddNode_def ConfChangeRemoveNode_def ConfChangeUpdateNode_def

record ConfChange =
  cc_ID :: u64
  cc_Type :: u32
  NodeID :: u64
  Context :: "bytes option"
  cc_XXX_unrecognized :: bytes

definition new_ConfChange :: ConfChange where
  "new_ConfChange = \<lparr>cc_ID = 0, cc_Type = 0, NodeID = 0, Context = None, cc_XXX_unrecognized = []\<rparr>"

definition ConfChange_Size :: "ConfChange \<Rightarrow> nat" where
  "ConfChange_Size m =
     1 + sovRecord (cc_ID m) + (1 + sovRecord (scast (cc_Type m))) + (1 + sovRecord (NodeID m))
     + (case Context m of None \<Rightarrow> 0 | Some d \<Rightarrow> 1 + length d + sovRecord (of_nat (length d)))
     + length (cc_XXX_unrecognized m)"

definition ConfChange_MarshalTo :: "ConfChange \<Rightarrow> bytes" where
  "ConfChange_MarshalTo m =
     (0x08 # encodeVarintRecord (cc_ID m))
     @ (0x10 # encodeVarintRecord (scast (cc_Type m)))
     @ (0x18 # encodeVarintRecord (NodeID m))
     @ (case Context m of None \<Rightarrow> [] | Some d \<Rightarrow> 0x22 # encodeVarintRecord (of_nat (length d)) @ d)
     @ cc_XXX_unrecognized m"

definition ConfChange_Marshal :: "ConfChange \<Rightarrow> (pb_error, bytes) outcome" where
  "ConfChange_Marshal m =
     (let dAtA = ConfChange_MarshalTo m in if length dAtA \<le> ConfChange_Size m then Ok dAtA else Crash)"

definition ConfChange_field ::
    "nat \<Rightarrow> ConfChange \<Rightarrow> int \<Rightarrow> nat \<Rightarrow> bytes \<Rightarrow> bytes \<Rightarrow> (pb_error, ConfChange \<times> bytes) outcome" where
  "ConfChange_field l m fieldNum wireType pre rest =
     (if fieldNum = 1 then
        obind (readVarintField wireType rest) (\<lambda>(v, rest'). Ok (m\<lparr>cc_ID := v\<rparr>, rest'))
      else if fieldNum = 2 then
        obind (readVarintField wireType rest) (\<lambda>(v, rest'). Ok (m\<lparr>cc_Type := v\<rparr>, rest'))
      else if fieldNum = 3 then
        obind (readVarintField wireType rest) (\<lambda>(v, rest'). Ok (m\<lparr>NodeID := v\<rparr>, rest'))
      else if fieldNum = 4 then
        (if wireType \<noteq> 2 then Err WrongWireType
         else obind (readBytesField l rest) (\<lambda>(d, rest'). Ok (m\<lparr>Context := Some d\<rparr>, rest')))
      else
        obind (skipUnknown l pre)
          (\<lambda>(d, rest'). Ok (m\<lparr>cc_XXX_unrecognized := cc_XXX_unrecognized m @ d\<rparr>, rest')))"

lemma ConfChange_field_consumes:
  assumes "ConfChange_field l m f w pre rest = Ok (m', rest')" "readTag pre = Inr (f, w, rest)"
  shows "length rest' < length pre"
proof -
  have "pre \<noteq> []" "length rest < length pre"
    using readTag_consumes [OF assms(2)] by auto
  then show ?thesis
    using assms(1)
    by (auto simp: ConfChange_field_def obind_eq_Ok split: if_splits
        dest!: readVarintField_consumes readBytesField_consumes skipUnknown_consumes)
qed

function ConfChange_Unmarshal_loop :: "nat \<Rightarrow> ConfChange \<Rightarrow> bytes \<Rightarrow> (pb_error, ConfChange) outcome" where
  "ConfChange_Unmarshal_loop l m pre =
     (if pre = [] then Ok m
      else case readTag pre of
        Inl e \<Rightarrow> Err e
      | Inr (fieldNum, wireType, rest) \<Rightarrow>
          (case ConfChange_field l m fieldNum wireType pre rest of
             Ok (m', rest') \<Rightarrow> ConfChange_Unmarshal_loop l m' rest'
           | Err e \<Rightarrow> Err e
           | Crash \<Rightarrow> Crash))"
  by pat_completeness auto
termination
  by (relation "measure (\<lambda>(l, m, pre). length pre)") (auto intro: ConfChange_field_consumes)

definition ConfChange_Unmarshal :: "ConfChange \<Rightarrow> bytes \<Rightarrow> (pb_error, ConfChange) outcome" where
  "ConfChange_Unmarshal m dAtA = ConfChange_Unmarshal_loop (length dAtA) m dAtA"

declare ConfChange_Unmarshal_loop.simps [simp del]

lemma length_ConfChange_MarshalTo: "length (ConfChange_MarshalTo e) = ConfChange_Size e"
  by (simp add: ConfChange_MarshalTo_def ConfChange_Size_def length_encodeVarintRecord split: option.split)

lemma ConfChange_Marshal_eq: "ConfChange_Marshal m = Ok (ConfChange_MarshalTo m)"
  by (simp add: ConfChange_Marshal_def Let_def length_ConfChange_MarshalTo)

definition ConfChange_storable :: "ConfChange \<Rightarrow> bool" where
  "ConfChange_storable m \<longleftrightarrow> cc_XXX_unrecognized m = [] \<and> ConfChange_Size m < 2 ^ 63"

lemma ConfChange_Unmarshal_MarshalTo:
  assumes "ConfChange_storable m"
  shows "ConfChange_Unmarshal m0 (ConfChange_MarshalTo m)
    = Ok (m0\<lparr>cc_ID := cc_ID m, cc_Type := cc_Type m, NodeID := NodeID m,
         Context := (case Context m of None \<Rightarrow> Context m0 | Some d \<Rightarrow> Some d)\<rparr>)"
  using assms
  by (cases "Context m")
    (simp_all add: ConfChange_storable_def ConfChange_Unmarshal_def ConfChange_MarshalTo_def
      ConfChange_Unmarshal_loop.simps ConfChange_field_def ConfChange_Size_def length_encodeVarintRecord)

interpretation ccc: message_codec ConfChange_Size ConfChange_Marshal ConfChange_Unmarshal new_ConfChange ConfChange_storable
proof unfold_locales
  fix m :: ConfChange and b
  show "\<exists>b. ConfChange_Marshal m = Ok b \<and> length b = ConfChange_Size m"
    by (simp add: ConfChange_Marshal_eq length_ConfChange_MarshalTo)
  assume "ConfChange_storable m" "ConfChange_Marshal m = Ok b"
  then show "ConfChange_Unmarshal new_ConfChange b = Ok m"
    by (cases m) (auto simp: ConfChange_Marshal_eq ConfChange_Unmarshal_MarshalTo new_ConfChange_def
        ConfChange_storable_def split: option.split)
qed

end
