(* ===== verification/Membership.thy ===== *)
theory Membership
  imports Meta_Store Conf_Change "HOL-Library.AList" "HOL-Library.Multiset"
begin

text \<open>
  The members of the raft cluster: \<^verbatim>\<open>src/raft/membership/member.go\<close> and \<^verbatim>\<open>cluster.go\<close>. A Go map is the list of
  its pairs in the order in which \<^verbatim>\<open>range\<close> visits them. The operations that save the cluster work on the
  cluster and the store. \<^verbatim>\<open>encoding/json\<close>, the requests to other members and the comparison of URLs
  (which resolves names) are parameters.
\<close>

section \<open>SHA-1\<close>

text \<open>\<^verbatim>\<open>crypto/sha1\<close>, from which the ids of members and clusters are made.\<close>

definition sha1_pad :: "bytes \<Rightarrow> bytes" where
  "sha1_pad m = m @ [0x80] @ replicate ((119 - length m mod 64) mod 64) 0 @ be64 (of_nat (8 * length m))"

fun be32_words :: "bytes \<Rightarrow> u32 list" where
  "be32_words (b3 # b2 # b1 # b0 # bs) =
     (ucast b0 OR push_bit 8 (ucast b1) OR push_bit 16 (ucast b2) OR push_bit 24 (ucast b3)) # be32_words bs"
| "be32_words _ = []"

definition sha1_schedule :: "u32 list \<Rightarrow> u32 list" where
  "sha1_schedule block =
     fold (\<lambda>t w. w @ [word_rotl 1 (w ! (t - 3) XOR w ! (t - 8) XOR w ! (t - 14) XOR w ! (t - 16))]) [16..<80] block"

definition sha1_round :: "nat \<times> u32 \<Rightarrow> u32 list \<Rightarrow> u32 list" where
  "sha1_round = (\<lambda>(t, w) h.
     let a = h ! 0; b = h ! 1; c = h ! 2; d = h ! 3; e = h ! 4;
         (f, k) = (if t < 20 then ((b AND c) OR (NOT b AND d), 0x5A827999)
                   else if t < 40 then (b XOR c XOR d, 0x6ED9EBA1)
                   else if t < 60 then ((b AND c) OR (b AND d) OR (c AND d), 0x8F1BBCDC)
                   else (b XOR c XOR d, 0xCA62C1D6))
     in [word_rotl 5 a + f + e + k + w, a, word_rotl 30 b, c, d])"

definition sha1_block :: "u32 list \<Rightarrow> u32 list \<Rightarrow> u32 list" where
  "sha1_block h block = map2 (+) h (fold sha1_round (enumerate 0 (sha1_schedule block)) h)"

fun sha1_blocks :: "nat \<Rightarrow> u32 list \<Rightarrow> u32 list \<Rightarrow> u32 list" where
  "sha1_blocks 0 ws h = h"
| "sha1_blocks (Suc n) ws h = sha1_blocks n (drop 16 ws) (sha1_block h (take 16 ws))"

definition sha1_Sum :: "bytes \<Rightarrow> bytes" where
  "sha1_Sum m =
     (let ws = be32_words (sha1_pad m)
      in concat (map (rev \<circ> le32)
           (sha1_blocks (length ws div 16) ws [0x67452301, 0xEFCDAB89, 0x98BADCFE, 0x10325476, 0xC3D2E1F0])))"

text \<open>\<^verbatim>\<open>binary.BigEndian.Uint64(hash[:8])\<close>.\<close>

definition hash_id :: "bytes \<Rightarrow> u64" where
  "hash_id b = the (get_be64 (sha1_Sum b))"

section \<open>Members\<close>

text \<open>\<^verbatim>\<open>Member\<close> with the fields of the embedded \<^verbatim>\<open>RaftAttributes\<close> and \<^verbatim>\<open>Attributes\<close>.\<close>

type_synonym ID = u64

record RaftAttributes =
  ra_PeerURLs :: "string list"

record Attributes =
  attr_Name :: string
  attr_AdminURLs :: "string list"

record Member =
  Member_ID :: ID
  PeerURLs :: "string list"
  Member_Name :: string
  AdminURLs :: "string list"

definition NewMember :: "string \<Rightarrow> string list \<Rightarrow> string list \<Rightarrow> int option \<Rightarrow> Member" where
  "NewMember name peerURLs adminURLs now =
     (let urls = sort peerURLs;
          b = StringToBytes name @ concat (map StringToBytes urls)
              @ (case now of None \<Rightarrow> [] | Some t \<Rightarrow> StringToBytes (Sprintd t))
      in \<lparr>Member_ID = hash_id b, PeerURLs = urls, Member_Name = name, AdminURLs = adminURLs\<rparr>)"

text \<open>\<^verbatim>\<open>PickPeerURL\<close> with the number that \<^verbatim>\<open>rand.Intn\<close> draws.\<close>

definition PickPeerURL :: "(nat \<Rightarrow> nat) \<Rightarrow> Member \<Rightarrow> ('e, string) outcome" where
  "PickPeerURL intn m =
     (if length (PeerURLs m) = 0 then Crash else must (index (PeerURLs m) (intn (length (PeerURLs m)))))"

definition Member_Clone :: "Member option \<Rightarrow> Member option" where
  "Member_Clone m =
     (case m of None \<Rightarrow> None
      | Some m \<Rightarrow> Some \<lparr>Member_ID = Member_ID m, PeerURLs = PeerURLs m, Member_Name = Member_Name m, AdminURLs = AdminURLs m\<rparr>)"

definition IsStarted :: "Member \<Rightarrow> bool" where
  "IsStarted m \<longleftrightarrow> length (Member_Name m) \<noteq> 0"

definition sort_by_id :: "Member list \<Rightarrow> Member list" where
  "sort_by_id ms = sort_key Member_ID ms"

text \<open>
  \<^verbatim>\<open>sort.Sort(MembersByPeerURLs(ms))\<close>: sorting two members or more looks at the first URL of each of them,
  which panics when it has none. The order that it leaves between members with the same first URL is not specified; here
  they keep theirs.
\<close>

definition sort_by_peer_urls :: "Member list \<Rightarrow> Member list option" where
  "sort_by_peer_urls ms =
     (if 2 \<le> length ms \<and> \<not> list_all (\<lambda>m. PeerURLs m \<noteq> []) ms then None
      else Some (sort_key (\<lambda>m. hd (PeerURLs m)) ms))"

section \<open>The cluster\<close>

datatype membership_error =
    ErrIDRemoved | ErrIDExists | ErrIDNotFound | ErrPeerURLexists
  | ErrIdenticalID | ErrNoneID | ErrMemberCount | ErrUnmatchedMember | ErrNoMembers | ErrNoResponse

record RaftCluster =
  Cluster_ID :: ID
  MembersMap :: "(ID \<times> Member) list"
  RemovedMap :: "(ID \<times> bool) list"

definition raft_None :: u64 where "raft_None = 0"

definition NewCluster :: RaftCluster where
  "NewCluster = \<lparr>Cluster_ID = 0, MembersMap = [], RemovedMap = []\<rparr>"

definition MemberIDs :: "RaftCluster \<Rightarrow> ID list" where
  "MemberIDs c = sort (map (\<lambda>(_, m). Member_ID m) (MembersMap c))"

definition genID :: "RaftCluster \<Rightarrow> RaftCluster" where
  "genID c = c\<lparr>Cluster_ID := hash_id (concat (map be64 (MemberIDs c)))\<rparr>"

fun add_urls :: "RaftCluster \<Rightarrow> (string \<times> string list) list \<Rightarrow> (membership_error, RaftCluster) outcome" where
  "add_urls c [] = Ok c"
| "add_urls c ((name, urls) # urlsmap) =
     (let m = NewMember name urls [] None
      in if map_of (MembersMap c) (Member_ID m) \<noteq> None then Err ErrIdenticalID
         else if Member_ID m = raft_None then Err ErrNoneID
         else add_urls (c\<lparr>MembersMap := AList.update (Member_ID m) m (MembersMap c)\<rparr>) urlsmap)"

definition NewClusterFromURLsMap :: "(string \<times> string list) list \<Rightarrow> (membership_error, RaftCluster) outcome" where
  "NewClusterFromURLsMap urlsmap = obind (add_urls NewCluster urlsmap) (\<lambda>c. Ok (genID c))"

definition members_map :: "Member list \<Rightarrow> (ID \<times> Member) list" where
  "members_map ms = fold (\<lambda>m. AList.update (Member_ID m) m) ms []"

definition NewClusterFromMembers :: "ID \<Rightarrow> Member list \<Rightarrow> RaftCluster" where
  "NewClusterFromMembers i membs = NewCluster\<lparr>Cluster_ID := i, MembersMap := members_map membs\<rparr>"

definition Members :: "RaftCluster \<Rightarrow> Member list" where
  "Members c = sort_by_id (map (\<lambda>(_, m). the (Member_Clone (Some m))) (MembersMap c))"

definition Cluster_Member :: "RaftCluster \<Rightarrow> ID \<Rightarrow> Member option" where
  "Cluster_Member c i = Member_Clone (map_of (MembersMap c) i)"

definition MemberByName :: "RaftCluster \<Rightarrow> string \<Rightarrow> ('e, Member option) outcome" where
  "MemberByName c name =
     (case filter (\<lambda>(_, m). Member_Name m = name) (MembersMap c) of
        [] \<Rightarrow> Ok None
      | [(_, m)] \<Rightarrow> Ok (Member_Clone (Some m))
      | _ \<Rightarrow> Crash)"

definition IsIDRemoved :: "RaftCluster \<Rightarrow> ID \<Rightarrow> bool" where
  "IsIDRemoved c i \<longleftrightarrow> map_of (RemovedMap c) i = Some True"

definition Cluster_PeerURLs :: "RaftCluster \<Rightarrow> string list" where
  "Cluster_PeerURLs c = sort (concat (map (\<lambda>(_, m). PeerURLs m) (MembersMap c)))"

definition SetID :: "RaftCluster \<Rightarrow> ID \<Rightarrow> RaftCluster" where
  "SetID c i = c\<lparr>Cluster_ID := i\<rparr>"

definition GetRaftClusterFromStorage ::
    "(bytes \<Rightarrow> RaftCluster option) \<Rightarrow> os \<Rightarrow> MetaStore \<Rightarrow> (storage_error, RaftCluster) outcome" where
  "GetRaftClusterFromStorage unmarshal os st =
     (case Get os st RaftClusterKey of
        Ok (Some value) \<Rightarrow> must (unmarshal value)
      | Ok None \<Rightarrow> Err ErrKeyNotFound
      | _ \<Rightarrow> Crash)"

definition SaveToStorage ::
    "(RaftCluster \<Rightarrow> bytes option) \<Rightarrow> os \<Rightarrow> RaftCluster \<Rightarrow> MetaStore \<Rightarrow> (MetaStore, unit) res" where
  "SaveToStorage marshal os c st =
     (case marshal c of
        None \<Rightarrow> (Err ErrJson, st)
      | Some value \<Rightarrow>
          (case Set os st RaftClusterKey value of
             (Ok _, st) \<Rightarrow> (Ok (), st)
           | (_, st) \<Rightarrow> (Crash, st)))"

definition membersFromStore ::
    "(bytes \<Rightarrow> RaftCluster option) \<Rightarrow> os \<Rightarrow> MetaStore \<Rightarrow>
     ('e, (ID \<times> Member) list \<times> (ID \<times> bool) list) outcome" where
  "membersFromStore unmarshal os st =
     (case GetRaftClusterFromStorage unmarshal os st of
        Ok c \<Rightarrow> Ok (MembersMap c, RemovedMap c)
      | Err e \<Rightarrow> if e = ErrKeyNotFound then Ok ([], []) else Crash
      | Crash \<Rightarrow> Crash)"

text \<open>The check that no URL of the proposed member belongs to one of the given members.\<close>

definition check_urls ::
    "(bytes \<Rightarrow> Member option) \<Rightarrow> Member list \<Rightarrow> bytes \<Rightarrow> (membership_error, unit) outcome" where
  "check_urls unmarshal_m ms context =
     obind (must (unmarshal_m context)) (\<lambda>m.
       if list_ex (\<lambda>u. u \<in> set (concat (map PeerURLs ms))) (PeerURLs m) then Err ErrPeerURLexists else Ok ())"

definition ValidateConfigurationChange ::
    "(bytes \<Rightarrow> RaftCluster option) \<Rightarrow> (bytes \<Rightarrow> Member option) \<Rightarrow> os \<Rightarrow> MetaStore \<Rightarrow> ConfChange \<Rightarrow>
     (membership_error, unit) outcome" where
  "ValidateConfigurationChange unmarshal unmarshal_m os st cc =
     obind (membersFromStore unmarshal os st) (\<lambda>(members, removed).
       let i = NodeID cc
       in if map_of removed i = Some True then Err ErrIDRemoved
          else if cc_Type cc = ConfChangeAddNode then
            (if map_of members i \<noteq> None then Err ErrIDExists
             else check_urls unmarshal_m (map snd members) (nil_bytes (Context cc)))
          else if cc_Type cc = ConfChangeRemoveNode then
            (if map_of members i = None then Err ErrIDNotFound else Ok ())
          else if cc_Type cc = ConfChangeUpdateNode then
            (if map_of members i = None then Err ErrIDNotFound
             else check_urls unmarshal_m (filter (\<lambda>m. Member_ID m \<noteq> i) (map snd members)) (nil_bytes (Context cc)))
          else Crash)"

type_synonym cluster_state = "RaftCluster \<times> MetaStore"

text \<open>Saving the cluster after a change; an error is fatal.\<close>

definition save_change ::
    "(RaftCluster \<Rightarrow> bytes option) \<Rightarrow> os \<Rightarrow> cluster_state \<Rightarrow> (cluster_state, unit) res" where
  "save_change marshal os = (\<lambda>(c, st).
     case SaveToStorage marshal os c st of
       (Ok _, st) \<Rightarrow> (Ok (), (c, st))
     | (_, st) \<Rightarrow> (Crash, (c, st)))"

definition AddMember ::
    "(RaftCluster \<Rightarrow> bytes option) \<Rightarrow> os \<Rightarrow> Member \<Rightarrow> cluster_state \<Rightarrow> (cluster_state, unit) res" where
  "AddMember marshal os m = (\<lambda>(c, st).
     save_change marshal os (c\<lparr>MembersMap := AList.update (Member_ID m) m (MembersMap c)\<rparr>, st))"

definition RemoveMember ::
    "(RaftCluster \<Rightarrow> bytes option) \<Rightarrow> os \<Rightarrow> ID \<Rightarrow> cluster_state \<Rightarrow> (cluster_state, unit) res" where
  "RemoveMember marshal os i = (\<lambda>(c, st).
     save_change marshal os
       (c\<lparr>MembersMap := AList.delete i (MembersMap c), RemovedMap := AList.update i True (RemovedMap c)\<rparr>, st))"

definition UpdateAttributes ::
    "(RaftCluster \<Rightarrow> bytes option) \<Rightarrow> os \<Rightarrow> ID \<Rightarrow> Attributes \<Rightarrow> cluster_state \<Rightarrow> (cluster_state, unit) res" where
  "UpdateAttributes marshal os i attr = (\<lambda>(c, st).
     case map_of (MembersMap c) i of
       Some m \<Rightarrow>
         save_change marshal os
           (c\<lparr>MembersMap := AList.update i (m\<lparr>Member_Name := attr_Name attr, AdminURLs := attr_AdminURLs attr\<rparr>) (MembersMap c)\<rparr>, st)
     | None \<Rightarrow> if map_of (RemovedMap c) i = None then (Crash, (c, st)) else (Ok (), (c, st)))"

definition UpdateRaftAttributes ::
    "(RaftCluster \<Rightarrow> bytes option) \<Rightarrow> os \<Rightarrow> ID \<Rightarrow> RaftAttributes \<Rightarrow> cluster_state \<Rightarrow> (cluster_state, unit) res" where
  "UpdateRaftAttributes marshal os i raftAttr = (\<lambda>(c, st).
     case map_of (MembersMap c) i of
       None \<Rightarrow> (Crash, (c, st))
     | Some m \<Rightarrow>
         save_change marshal os (c\<lparr>MembersMap := AList.update i (m\<lparr>PeerURLs := ra_PeerURLs raftAttr\<rparr>) (MembersMap c)\<rparr>, st))"

definition IsReadyToAddNewMember :: "RaftCluster \<Rightarrow> bool" where
  "IsReadyToAddNewMember c =
     (let nmembers = 1 + length (MembersMap c);
          nstarted = length (filter (\<lambda>(_, m). IsStarted m) (MembersMap c))
      in if nstarted = 1 \<and> nmembers = 2 then True
         else let nquorum = nmembers div 2 + 1 in \<not> nstarted < nquorum)"

definition IsReadyToRemoveMember :: "RaftCluster \<Rightarrow> ID \<Rightarrow> bool" where
  "IsReadyToRemoveMember c i =
     (let others = filter (\<lambda>(_, m). Member_ID m \<noteq> i) (MembersMap c);
          nmembers = length others;
          nstarted = length (filter (\<lambda>(_, m). IsStarted m) others);
          nquorum = nmembers div 2 + 1
      in \<not> nstarted < nquorum)"

section \<open>Joining a cluster\<close>

text \<open>\<^verbatim>\<open>netutil.URLStringsEqual\<close>, which may ask a name server, is the parameter \<open>url_eq\<close>.\<close>

fun assign_ids ::
    "(string list \<Rightarrow> string list \<Rightarrow> bool) \<Rightarrow> Member list \<Rightarrow> Member list \<Rightarrow> Member list option" where
  "assign_ids url_eq (e # ems) (l # lms) =
     (if \<not> url_eq (PeerURLs e) (PeerURLs l) then None
      else map_option (Cons (l\<lparr>Member_ID := Member_ID e\<rparr>)) (assign_ids url_eq ems lms))"
| "assign_ids url_eq _ lms = Some lms"

definition ValidateClusterAndAssignIDs ::
    "(string list \<Rightarrow> string list \<Rightarrow> bool) \<Rightarrow> RaftCluster \<Rightarrow> RaftCluster \<Rightarrow> (membership_error, RaftCluster) outcome" where
  "ValidateClusterAndAssignIDs url_eq local existing =
     (let ems = Members existing; lms = Members local
      in if length ems \<noteq> length lms then Err ErrMemberCount
         else
           obind (must (sort_by_peer_urls ems)) (\<lambda>ems.
           obind (must (sort_by_peer_urls lms)) (\<lambda>lms.
             case assign_ids url_eq ems lms of
               None \<Rightarrow> Err ErrUnmatchedMember
             | Some lms \<Rightarrow> Ok (local\<lparr>MembersMap := members_map lms\<rparr>))))"

text \<open>\<^verbatim>\<open>types.IDFromString\<close>: \<^verbatim>\<open>strconv.ParseUint(s, 16, 64)\<close>.\<close>

definition IDFromString :: "string \<Rightarrow> ID option" where
  "IDFromString s =
     (if s = [] \<or> \<not> list_all (\<lambda>c. hex_val c \<noteq> None) s then None
      else let n = foldl (\<lambda>n c. 16 * n + the (hex_val c)) 0 s in if n < 2 ^ 64 then Some (of_nat n) else None)"

text \<open>
  A request to a member: \<open>None\<close> when it fails, otherwise the body (\<open>None\<close> when it cannot be read) and the header
  \<^verbatim>\<open>X-Etcd-Cluster-ID\<close>.
\<close>

type_synonym http_get = "string \<Rightarrow> (bytes option \<times> string) option"

fun getClusterFromRemotePeers ::
    "(bytes \<Rightarrow> Member list option) \<Rightarrow> http_get \<Rightarrow> string list \<Rightarrow> (membership_error, RaftCluster) outcome" where
  "getClusterFromRemotePeers unmarshal_ms get [] = Err ErrNoResponse"
| "getClusterFromRemotePeers unmarshal_ms get (u # urls) =
     (case get (u @ ''/members'') of
        Some (Some b, header) \<Rightarrow>
          (case (unmarshal_ms b, IDFromString header) of
             (Some membs, Some i) \<Rightarrow>
               if length membs > 0 then Ok (NewClusterFromMembers i membs) else Err ErrNoMembers
           | _ \<Rightarrow> getClusterFromRemotePeers unmarshal_ms get urls)
      | _ \<Rightarrow> getClusterFromRemotePeers unmarshal_ms get urls)"

definition GetClusterFromRemotePeers ::
    "(bytes \<Rightarrow> Member list option) \<Rightarrow> http_get \<Rightarrow> string list \<Rightarrow> (membership_error, RaftCluster) outcome" where
  "GetClusterFromRemotePeers unmarshal_ms get urls = getClusterFromRemotePeers unmarshal_ms get urls"

definition GetRemotePeerURLs :: "RaftCluster \<Rightarrow> string \<Rightarrow> string list" where
  "GetRemotePeerURLs cl local = sort (concat (map PeerURLs (filter (\<lambda>m. Member_Name m \<noteq> local) (Members cl))))"

definition getRemotePeerURLs :: "RaftCluster \<Rightarrow> string \<Rightarrow> string list" where
  "getRemotePeerURLs cl local = sort (concat (map PeerURLs (filter (\<lambda>m. Member_Name m \<noteq> local) (Members cl))))"

definition IsMemberBootstrapped ::
    "(bytes \<Rightarrow> Member list option) \<Rightarrow> http_get \<Rightarrow> RaftCluster \<Rightarrow> string \<Rightarrow> ('e, bool) outcome" where
  "IsMemberBootstrapped unmarshal_ms get cl member =
     (case getClusterFromRemotePeers unmarshal_ms get (getRemotePeerURLs cl member) of
        Ok rcl \<Rightarrow>
          obind (MemberByName cl member) (\<lambda>m.
          obind (must m) (\<lambda>m.
            case Cluster_Member rcl (Member_ID m) of None \<Rightarrow> Ok False | Some _ \<Rightarrow> Ok False))
      | Err _ \<Rightarrow> Ok False
      | Crash \<Rightarrow> Crash)"

section \<open>The invariant\<close>

lemma Member_Clone_same [simp]: "Member_Clone m = m"
  by (cases m) (simp_all add: Member_Clone_def)

text \<open>Two clusters that differ only in the order of iteration of their maps.\<close>

definition same_cluster :: "RaftCluster \<Rightarrow> RaftCluster \<Rightarrow> bool" where
  "same_cluster c d \<longleftrightarrow> Cluster_ID c = Cluster_ID d \<and> mset (MembersMap c) = mset (MembersMap d) \<and>
     mset (RemovedMap c) = mset (RemovedMap d)"

text \<open>
  The maps are maps, members are stored under their ids, no member has an id that was removed, and no two
  members share a peer URL.
\<close>

definition wf_cluster :: "RaftCluster \<Rightarrow> bool" where
  "wf_cluster c \<longleftrightarrow> distinct (map fst (MembersMap c)) \<and> distinct (map fst (RemovedMap c)) \<and>
     (\<forall>(i, m)\<in>set (MembersMap c). Member_ID m = i \<and> \<not> IsIDRemoved c i) \<and>
     (\<forall>(i, m)\<in>set (MembersMap c). \<forall>(j, n)\<in>set (MembersMap c). i \<noteq> j \<longrightarrow> set (PeerURLs m) \<inter> set (PeerURLs n) = {})"

lemma wf_cluster_iff:
  "wf_cluster c \<longleftrightarrow> distinct (map fst (MembersMap c)) \<and> distinct (map fst (RemovedMap c)) \<and>
     (\<forall>i m. (i, m) \<in> set (MembersMap c) \<longrightarrow> Member_ID m = i \<and> \<not> IsIDRemoved c i) \<and>
     (\<forall>i m j n. (i, m) \<in> set (MembersMap c) \<longrightarrow> (j, n) \<in> set (MembersMap c) \<longrightarrow> i \<noteq> j \<longrightarrow>
        set (PeerURLs m) \<inter> set (PeerURLs n) = {})"
proof -
  have 1: "(\<forall>(i, m)\<in>S. P i m) \<longleftrightarrow> (\<forall>i m. (i, m) \<in> S \<longrightarrow> P i m)" for S :: "(ID \<times> Member) set" and P by auto
  show ?thesis unfolding wf_cluster_def 1 by blast
qed

lemma wf_clusterD:
  assumes "wf_cluster c"
  shows "distinct (map fst (MembersMap c))" "distinct (map fst (RemovedMap c))"
    "(i, m) \<in> set (MembersMap c) \<Longrightarrow> Member_ID m = i" "(i, m) \<in> set (MembersMap c) \<Longrightarrow> \<not> IsIDRemoved c i"
    "(i, m) \<in> set (MembersMap c) \<Longrightarrow> (j, n) \<in> set (MembersMap c) \<Longrightarrow> i \<noteq> j \<Longrightarrow> set (PeerURLs m) \<inter> set (PeerURLs n) = {}"
  using assms unfolding wf_cluster_iff by blast+

lemma set_update: "distinct (map fst al) \<Longrightarrow> set (AList.update k v al) = insert (k, v) {x \<in> set al. fst x \<noteq> k}"
proof (induction al)
  case (Cons a al)
  have "{x \<in> set al. fst x \<noteq> k} = set al" if "fst a = k" using Cons.prems that by (auto simp: image_iff)
  then show ?case using Cons by (cases a) auto
qed simp

lemma mset_distinct_map_of: "mset al = mset bl \<Longrightarrow> distinct (map fst al) \<Longrightarrow> map_of al = map_of bl"
  by (metis map_of_inject_set mset_eq_setD mset_map distinct_map distinct_count_atmost_1)

lemma wf_add:
  assumes "wf_cluster c" "\<not> IsIDRemoved c i" "Member_ID m = i"
    and "\<And>j n. (j, n) \<in> set (MembersMap c) \<Longrightarrow> j \<noteq> i \<Longrightarrow> set (PeerURLs m) \<inter> set (PeerURLs n) = {}"
  shows "wf_cluster (c\<lparr>MembersMap := AList.update i m (MembersMap c)\<rparr>)"
proof -
  let ?c = "c\<lparr>MembersMap := AList.update i m (MembersMap c)\<rparr>"
  have s: "set (MembersMap ?c) = insert (i, m) {x \<in> set (MembersMap c). fst x \<noteq> i}"
    using set_update [OF wf_clusterD(1) [OF assms(1)]] by simp
  have r: "IsIDRemoved ?c = IsIDRemoved c" by (simp add: IsIDRemoved_def fun_eq_iff)
  show ?thesis
    unfolding wf_cluster_iff s r
    using assms wf_clusterD [OF assms(1)] by (auto simp: distinct_update) blast+
qed

lemma wf_remove:
  assumes "wf_cluster c"
  shows "wf_cluster (c\<lparr>MembersMap := AList.delete i (MembersMap c), RemovedMap := AList.update i True (RemovedMap c)\<rparr>)"
proof -
  let ?c = "c\<lparr>MembersMap := AList.delete i (MembersMap c), RemovedMap := AList.update i True (RemovedMap c)\<rparr>"
  have s: "set (MembersMap ?c) = {x \<in> set (MembersMap c). fst x \<noteq> i}" by (auto simp: AList.delete_eq)
  have r: "IsIDRemoved ?c j \<longleftrightarrow> j = i \<or> IsIDRemoved c j" for j by (simp add: IsIDRemoved_def update_conv')
  show ?thesis
    unfolding wf_cluster_iff s
    using wf_clusterD [OF assms] r by (auto simp: distinct_update distinct_delete) blast+
qed

section \<open>The cluster in the store\<close>

text \<open>
  \<^verbatim>\<open>encoding/json\<close> writes strings as UTF-8 and replaces the bytes that are not. \<open>valid_utf8\<close> is \<^verbatim>\<open>utf8.Valid\<close>: sequences of one
  to four bytes, none longer than needed, without surrogates and nothing above \<^verbatim>\<open>U+10FFFF\<close>.
\<close>

definition continuation :: "byte \<Rightarrow> bool" where
  "continuation b \<longleftrightarrow> 0x80 \<le> b \<and> b \<le> 0xBF"

fun valid_utf8 :: "bytes \<Rightarrow> bool" where
  "valid_utf8 [] = True"
| "valid_utf8 (a # r) =
     (if a < 0x80 then valid_utf8 r
      else case r of
        [] \<Rightarrow> False
      | b # r \<Rightarrow>
          if 0xC2 \<le> a \<and> a \<le> 0xDF then continuation b \<and> valid_utf8 r
          else case r of
            [] \<Rightarrow> False
          | c # r \<Rightarrow>
              if 0xE0 \<le> a \<and> a \<le> 0xEF then
                continuation b \<and> continuation c \<and> (a = 0xE0 \<longrightarrow> 0xA0 \<le> b) \<and> (a = 0xED \<longrightarrow> b \<le> 0x9F) \<and> valid_utf8 r
              else case r of
                [] \<Rightarrow> False
              | d # r \<Rightarrow>
                  0xF0 \<le> a \<and> a \<le> 0xF4 \<and> continuation b \<and> continuation c \<and> continuation d \<and>
                  (a = 0xF0 \<longrightarrow> 0x90 \<le> b) \<and> (a = 0xF4 \<longrightarrow> b \<le> 0x8F) \<and> valid_utf8 r)"

text \<open>The clusters that JSON can represent: the two lists are maps, and all strings are UTF-8.\<close>

definition text_member :: "Member \<Rightarrow> bool" where
  "text_member m \<longleftrightarrow> list_all (\<lambda>s. valid_utf8 (StringToBytes s)) (Member_Name m # PeerURLs m @ AdminURLs m)"

definition text_cluster :: "RaftCluster \<Rightarrow> bool" where
  "text_cluster c \<longleftrightarrow> distinct (map fst (MembersMap c)) \<and> distinct (map fst (RemovedMap c)) \<and>
     list_all (\<lambda>(i, m). text_member m) (MembersMap c)"

text \<open>What the cluster relies on of \<^verbatim>\<open>encoding/json\<close>: for such a cluster decoding gives back what was encoded, up to the
  order of maps.\<close>

definition json_ok :: "(RaftCluster \<Rightarrow> bytes option) \<Rightarrow> (bytes \<Rightarrow> RaftCluster option) \<Rightarrow> bool" where
  "json_ok marshal unmarshal \<longleftrightarrow>
     (\<forall>c v. text_cluster c \<and> marshal c = Some v \<longrightarrow> (\<exists>d. unmarshal v = Some d \<and> same_cluster c d))"

lemma text_cluster_update:
  assumes "text_cluster c" "text_member m"
  shows "text_cluster (c\<lparr>MembersMap := AList.update i m (MembersMap c)\<rparr>)"
proof -
  have "set (AList.update i m ms) \<subseteq> insert (i, m) (set ms)" for ms :: "(ID \<times> Member) list"
    by (induction ms) auto
  then have "\<forall>x\<in>set (AList.update i m (MembersMap c)). x = (i, m) \<or> x \<in> set (MembersMap c)" by blast
  then show ?thesis using assms by (fastforce simp: text_cluster_def distinct_update list_all_iff)
qed

definition saved :: "(bytes \<Rightarrow> RaftCluster option) \<Rightarrow> RaftCluster \<Rightarrow> MetaStore \<Rightarrow> bool" where
  "saved unmarshal c st \<longleftrightarrow>
     (\<exists>v d. map_of (ms_bucket st) RaftClusterKey = Some v \<and> unmarshal v = Some d \<and> same_cluster c d)"

lemma save_change_Ok:
  assumes "save_change marshal os (c, st) = (Ok (), (c', st'))"
  shows "\<exists>v. marshal c = Some v \<and> Set os st RaftClusterKey v = (Ok (), st') \<and> c' = c"
proof -
  obtain v where v: "marshal c = Some v" using assms by (cases "marshal c") (auto simp: save_change_def SaveToStorage_def)
  obtain r u where r: "Set os st RaftClusterKey v = (r, u)" by fastforce
  then have "r = Ok () \<and> u = st' \<and> c' = c"
    using assms v by (cases r) (simp_all add: save_change_def SaveToStorage_def)
  then show ?thesis using v r by simp
qed

lemma save_change_saves:
  assumes "save_change marshal os (c, st) = (Ok (), (c', st'))" "json_ok marshal unmarshal" "ascending (ms_bucket st)"
    and "text_cluster c"
  shows "c' = c" "saved unmarshal c st'" "ascending (ms_bucket st')" "ms_open st'"
    "\<And>k. k \<noteq> RaftClusterKey \<Longrightarrow> map_of (ms_bucket st') k = map_of (ms_bucket st) k"
proof -
  obtain v where v: "marshal c = Some v" "Set os st RaftClusterKey v = (Ok (), st')" "c' = c"
    using save_change_Ok [OF assms(1)] by blast
  show "c' = c" by (rule v(3))
  show "saved unmarshal c st'"
    using assms(2,4) v(1) Set_stores(4) [OF assms(3) v(2)] by (auto simp: saved_def json_ok_def)
  show "ascending (ms_bucket st')" "ms_open st'"
    "\<And>k. k \<noteq> RaftClusterKey \<Longrightarrow> map_of (ms_bucket st') k = map_of (ms_bucket st) k"
    using Set_stores [OF assms(3) v(2)] by simp_all
qed

lemma membersFromStore_saved:
  assumes "membersFromStore unmarshal os st = Ok (members, removed)" "saved unmarshal c st"
  shows "mset members = mset (MembersMap c)" "mset removed = mset (RemovedMap c)"
  using assms
  by (auto simp: membersFromStore_def GetRaftClusterFromStorage_def Get_def View_def saved_def same_cluster_def
      split: if_splits outcome.splits option.splits)

lemma GetRaftCluster_saved:
  assumes "saved unmarshal c st" "ms_open st" "os SysRead MetadataFile"
  shows "\<exists>d. GetRaftClusterFromStorage unmarshal os st = Ok d \<and> same_cluster c d"
  using assms by (auto simp: GetRaftClusterFromStorage_def Get_def View_def saved_def RaftClusterKey_def)

text \<open>What a change that was found valid is about.\<close>

lemma Validate_members:
  assumes "ValidateConfigurationChange unmarshal unmarshal_m os st cc = Ok ()" "saved unmarshal c st" "wf_cluster c"
  obtains members where "set members = set (MembersMap c)" "map_of members = map_of (MembersMap c)"
    "\<not> IsIDRemoved c (NodeID cc)"
    "cc_Type cc = ConfChangeAddNode \<Longrightarrow> map_of members (NodeID cc) = None"
    "cc_Type cc = ConfChangeAddNode \<Longrightarrow> check_urls unmarshal_m (map snd members) (nil_bytes (Context cc)) = Ok ()"
    "cc_Type cc = ConfChangeRemoveNode \<Longrightarrow> map_of members (NodeID cc) \<noteq> None"
    "cc_Type cc = ConfChangeUpdateNode \<Longrightarrow>
       check_urls unmarshal_m (filter (\<lambda>m. Member_ID m \<noteq> NodeID cc) (map snd members)) (nil_bytes (Context cc)) = Ok ()"
proof -
  note found = that
  obtain members removed where m: "membersFromStore unmarshal os st =
      (Ok (members, removed) :: (membership_error, (ID \<times> Member) list \<times> (ID \<times> bool) list) outcome)"
    using assms(1) by (auto simp: ValidateConfigurationChange_def obind_eq_Ok)
  note eq = membersFromStore_saved [OF m assms(2)]
  have mo: "map_of members = map_of (MembersMap c)" "map_of removed = map_of (RemovedMap c)"
    using mset_distinct_map_of [OF eq(1) [symmetric]] mset_distinct_map_of [OF eq(2) [symmetric]] wf_clusterD [OF assms(3)]
    by simp_all
  show ?thesis
    by (rule found [of members]; use assms(1) m mo eq in \<open>auto simp: ValidateConfigurationChange_def IsIDRemoved_def Let_def
        conf_change_types
        dest: mset_eq_setD split: if_splits\<close>)
qed

lemma check_urls_Ok:
  assumes "check_urls unmarshal_m ms context = Ok ()"
  obtains m where "unmarshal_m context = Some m" "\<And>n. n \<in> set ms \<Longrightarrow> set (PeerURLs m) \<inter> set (PeerURLs n) = {}"
proof (cases "unmarshal_m context")
  case (Some m)
  then show ?thesis using that [of m] assms by (auto simp: check_urls_def list_ex_iff split: if_splits)
qed (use assms in \<open>simp add: check_urls_def\<close>)

lemma valid_add:
  assumes "ValidateConfigurationChange unmarshal unmarshal_m os st cc = Ok ()" "saved unmarshal c st" "wf_cluster c"
    and "cc_Type cc = ConfChangeAddNode" "unmarshal_m (nil_bytes (Context cc)) = Some m" "Member_ID m = NodeID cc"
  shows "wf_cluster (c\<lparr>MembersMap := AList.update (Member_ID m) m (MembersMap c)\<rparr>)"
    "map_of (MembersMap c) (Member_ID m) = None"
proof -
  obtain members where ms: "set members = set (MembersMap c)" "map_of members = map_of (MembersMap c)"
    "\<not> IsIDRemoved c (NodeID cc)" "map_of members (NodeID cc) = None"
    "check_urls unmarshal_m (map snd members) (nil_bytes (Context cc)) = Ok ()"
    by (rule Validate_members [OF assms(1-3)]) (use assms(4) in auto)
  have "set (PeerURLs m) \<inter> set (PeerURLs n) = {}" if n: "(j, n) \<in> set (MembersMap c)" for j n
  proof -
    have "n \<in> set (map snd members)" using n ms(1) by force
    then show ?thesis using check_urls_Ok [OF ms(5)] assms(5) by (metis option.inject)
  qed
  then show "wf_cluster (c\<lparr>MembersMap := AList.update (Member_ID m) m (MembersMap c)\<rparr>)"
    using wf_add [OF assms(3)] ms(3) assms(6) by metis
  show "map_of (MembersMap c) (Member_ID m) = None" using ms(2,4) assms(6) by simp
qed

lemma valid_update:
  assumes "ValidateConfigurationChange unmarshal unmarshal_m os st cc = Ok ()" "saved unmarshal c st" "wf_cluster c"
    and "cc_Type cc = ConfChangeUpdateNode" "unmarshal_m (nil_bytes (Context cc)) = Some m" "map_of (MembersMap c) (NodeID cc) = Some l"
  shows "wf_cluster (c\<lparr>MembersMap := AList.update (NodeID cc) (l\<lparr>PeerURLs := PeerURLs m\<rparr>) (MembersMap c)\<rparr>)"
proof -
  obtain members where ms: "set members = set (MembersMap c)" "\<not> IsIDRemoved c (NodeID cc)"
    "check_urls unmarshal_m (filter (\<lambda>m. Member_ID m \<noteq> NodeID cc) (map snd members)) (nil_bytes (Context cc)) = Ok ()"
    by (rule Validate_members [OF assms(1-3)]) (use assms(4) in auto)
  have l: "Member_ID l = NodeID cc" using wf_clusterD(3) [OF assms(3)] map_of_SomeD [OF assms(6)] by metis
  have "set (PeerURLs m) \<inter> set (PeerURLs n) = {}" if n: "(j, n) \<in> set (MembersMap c)" "j \<noteq> NodeID cc" for j n
  proof -
    have "n \<in> snd ` set members" "Member_ID n \<noteq> NodeID cc"
      using n ms(1) wf_clusterD(3) [OF assms(3) n(1)] by (simp_all add: rev_image_eqI)
    then have "n \<in> set (filter (\<lambda>m. Member_ID m \<noteq> NodeID cc) (map snd members))" by simp
    then show ?thesis using check_urls_Ok [OF ms(3)] assms(5) by (metis option.inject)
  qed
  then show ?thesis using wf_add [OF assms(3) ms(2), of "l\<lparr>PeerURLs := PeerURLs m\<rparr>"] l by simp
qed

lemma valid_remove:
  assumes "ValidateConfigurationChange unmarshal unmarshal_m os st cc = Ok ()" "saved unmarshal c st" "wf_cluster c"
    and "cc_Type cc = ConfChangeRemoveNode"
  shows "\<exists>m. map_of (MembersMap c) (NodeID cc) = Some m"
  by (rule Validate_members [OF assms(1-3)]) (use assms(4) in auto)

lemma wf_attributes:
  assumes "wf_cluster c" "map_of (MembersMap c) i = Some m"
  shows "wf_cluster (c\<lparr>MembersMap := AList.update i (m\<lparr>Member_Name := n, AdminURLs := us\<rparr>) (MembersMap c)\<rparr>)"
proof -
  have "Member_ID m = i" "\<not> IsIDRemoved c i"
    using wf_clusterD(3,4) [OF assms(1)] map_of_SomeD [OF assms(2)] by auto
  then show ?thesis
    using wf_add [OF assms(1), of i "m\<lparr>Member_Name := n, AdminURLs := us\<rparr>"] wf_clusterD(5) [OF assms(1) map_of_SomeD [OF assms(2)]]
    by simp
qed

section \<open>Ids\<close>

text \<open>The members of a configuration, and the cluster that is made of them.\<close>

definition config_members :: "(string \<times> string list) list \<Rightarrow> Member list" where
  "config_members us = map (\<lambda>(n, u). NewMember n u [] None) us"

lemma add_urls_result:
  "add_urls c us = Ok d \<longleftrightarrow>
     distinct (map Member_ID (config_members us)) \<and> raft_None \<notin> set (map Member_ID (config_members us)) \<and>
     set (map Member_ID (config_members us)) \<inter> fst ` set (MembersMap c) = {} \<and>
     d = c\<lparr>MembersMap := MembersMap c @ map (\<lambda>m. (Member_ID m, m)) (config_members us)\<rparr>"
proof (induction c us rule: add_urls.induct)
  case (2 c name urls us)
  let ?m = "NewMember name urls [] None"
  have app: "i \<notin> fst ` set al \<Longrightarrow> AList.update i m al = al @ [(i, m)]" for i :: ID and m :: Member and al
    by (induction al) auto
  show ?case
  proof (cases "map_of (MembersMap c) (Member_ID ?m) = None \<and> Member_ID ?m \<noteq> raft_None")
    case True
    then have "Member_ID ?m \<notin> fst ` set (MembersMap c)" by (simp add: map_of_eq_None_iff)
    then show ?thesis
      using True 2 [OF refl] by (auto simp: Let_def app config_members_def)
  next
    case False
    then show ?thesis by (auto simp: Let_def map_of_eq_None_iff config_members_def)
  qed
qed (auto simp: config_members_def)

lemma add_urls_no_crash: "add_urls c us \<noteq> Crash"
  by (induction c us rule: add_urls.induct) (auto simp: Let_def)

lemma NewMember_perm: "mset u = mset v \<Longrightarrow> NewMember n u a t = NewMember n v a t"
proof -
  assume "mset u = mset v"
  then have "sort u = sort v" by (metis sorted_list_of_multiset_mset)
  then show ?thesis by (simp add: NewMember_def)
qed

text \<open>Two outcomes that are the same cluster, or both an error.\<close>

definition same_outcome :: "('e, RaftCluster) outcome \<Rightarrow> ('e, RaftCluster) outcome \<Rightarrow> bool" where
  "same_outcome r r' =
     (case (r, r') of (Ok c, Ok d) \<Rightarrow> same_cluster c d | (Err _, Err _) \<Rightarrow> True | _ \<Rightarrow> False)"

definition config_mset :: "(string \<times> string list) list \<Rightarrow> (string \<times> string multiset) multiset" where
  "config_mset us = mset (map (\<lambda>(n, u). (n, mset u)) us)"

lemma config_members_mset:
  assumes "config_mset us = config_mset vs"
  shows "mset (config_members us) = mset (config_members vs)"
proof -
  let ?g = "\<lambda>(n, M). NewMember n (sorted_list_of_multiset M) [] None"
  have "config_members ws = map ?g (map (\<lambda>(n, u). (n, mset u)) ws)" for ws
    by (auto simp: config_members_def sorted_list_of_multiset_mset intro!: NewMember_perm)
  then have "mset (config_members ws) = image_mset ?g (config_mset ws)" for ws
    by (simp only: mset_map config_mset_def)
  then show ?thesis using assms by simp
qed

text \<open>C29: every server of a new cluster computes the same cluster: neither the order in which Go iterates over the
  configured members nor the order of the URLs of a member makes a difference to the ids of the members, to
  the id of the cluster, or to whether the configuration is accepted.\<close>

theorem bootstrap_ids_agree:
  assumes "config_mset us = config_mset vs"
  shows "same_outcome (NewClusterFromURLsMap us) (NewClusterFromURLsMap vs)"
proof -
  let ?c = "\<lambda>ws. NewCluster\<lparr>MembersMap := map (\<lambda>m. (Member_ID m, m)) (config_members ws)\<rparr>"
  let ?ok = "\<lambda>ws. distinct (map Member_ID (config_members ws)) \<and> raft_None \<notin> set (map Member_ID (config_members ws))"
  have ms: "mset (config_members us) = mset (config_members vs)" by (rule config_members_mset [OF assms])
  have mi: "mset (map Member_ID (config_members us)) = mset (map Member_ID (config_members vs))"
    unfolding mset_map ms ..
  have ok: "?ok us \<longleftrightarrow> ?ok vs" using mset_eq_imp_distinct_iff [OF mi] mset_eq_setD [OF mi] by simp
  have r: "add_urls NewCluster ws = Ok d \<longleftrightarrow> ?ok ws \<and> d = ?c ws" for ws d
    by (subst add_urls_result) (simp add: NewCluster_def)
  have ids: "MemberIDs (?c us) = MemberIDs (?c vs)"
    unfolding MemberIDs_def by (rule properties_for_sort [symmetric]) (use mi in \<open>simp_all add: comp_def\<close>)
  show ?thesis
  proof (cases "?ok us")
    case True
    then have "add_urls NewCluster us = Ok (?c us)" "add_urls NewCluster vs = Ok (?c vs)" using r ok by simp_all
    moreover have "mset (MembersMap (?c us)) = mset (MembersMap (?c vs))" using ms by simp
    ultimately show ?thesis
      using ids by (simp add: NewClusterFromURLsMap_def same_outcome_def same_cluster_def genID_def)
  next
    case False
    then obtain e f where "add_urls NewCluster us = Err e" "add_urls NewCluster vs = Err f"
      using r [of us] r [of vs] ok add_urls_no_crash [of NewCluster us] add_urls_no_crash [of NewCluster vs]
      by (cases "add_urls NewCluster us"; cases "add_urls NewCluster vs") auto
    then show ?thesis by (simp add: NewClusterFromURLsMap_def same_outcome_def)
  qed
qed

theorem bootstrap_ids_agree_witness:
  "same_outcome (NewClusterFromURLsMap [(''a'', [''http://10.0.0.1:1'']), (''b'', [''http://10.0.0.2:1'', ''http://10.0.0.3:1''])])
     (NewClusterFromURLsMap [(''b'', [''http://10.0.0.3:1'', ''http://10.0.0.2:1'']), (''a'', [''http://10.0.0.1:1''])])"
  by (rule bootstrap_ids_agree) (simp add: config_mset_def)

section \<open>Quorums\<close>

definition started :: "RaftCluster \<Rightarrow> nat" where
  "started c = length (filter (\<lambda>(_, m). IsStarted m) (MembersMap c))"

lemma filter_by_id:
  assumes "wf_cluster c"
  shows "filter (\<lambda>(_, m). Member_ID m \<noteq> i) (MembersMap c) = AList.delete i (MembersMap c)"
proof -
  have "filter (\<lambda>(_, m). Member_ID m \<noteq> i) al = AList.delete i al" if "\<forall>(j, m)\<in>set al. Member_ID m = j" for al
    using that by (induction al) auto
  moreover have "\<forall>(j, m)\<in>set (MembersMap c). Member_ID m = j" using wf_clusterD(3) [OF assms] by auto
  ultimately show ?thesis by blast
qed

text \<open>C30: removing a member that \<^verbatim>\<open>IsReadyToRemoveMember\<close> allows leaves a cluster in which the started members are a
  majority: the cluster can still elect a leader.\<close>

theorem remove_keeps_quorum:
  assumes "wf_cluster c" "IsReadyToRemoveMember c i" "RemoveMember marshal os i (c, st) = (Ok (), (c', st'))"
  shows "length (MembersMap c') < 2 * started c'"
proof -
  have "MembersMap c' = AList.delete i (MembersMap c)"
    using assms(3)
    by (auto simp: RemoveMember_def save_change_def split: prod.splits outcome.splits)
  then show ?thesis using assms(2) filter_by_id [OF assms(1)] by (simp add: IsReadyToRemoveMember_def started_def Let_def)
qed

text \<open>C31: adding a member that \<^verbatim>\<open>IsReadyToAddNewMember\<close> allows leaves a cluster in which the started members are a
  majority, unless it is the second member of a cluster with one started member.\<close>

theorem add_keeps_quorum:
  assumes "IsReadyToAddNewMember c" "map_of (MembersMap c) (Member_ID m) = None"
    and "AddMember marshal os m (c, st) = (Ok (), (c', st'))"
  shows "length (MembersMap c') < 2 * started c' \<or> (length (MembersMap c) = 1 \<and> started c = 1)"
proof -
  have app: "i \<notin> fst ` set al \<Longrightarrow> AList.update i m al = al @ [(i, m)]" for i and al :: "(ID \<times> Member) list"
    by (induction al) auto
  have "MembersMap c' = MembersMap c @ [(Member_ID m, m)]"
    using assms(2,3) app [of "Member_ID m" "MembersMap c"]
    by (auto simp: AddMember_def save_change_def map_of_eq_None_iff split: prod.splits outcome.splits)
  then show ?thesis using assms(1) by (auto simp: IsReadyToAddNewMember_def started_def Let_def split: if_splits)
qed

section \<open>Joining\<close>

lemma assign_ids_result:
  assumes "assign_ids url_eq ems lms = Some ns" "length ems = length lms"
  shows "Member_ID ` set ns = Member_ID ` set ems"
    "n \<in> set ns \<Longrightarrow> \<exists>e\<in>set ems. \<exists>l\<in>set lms. n = l\<lparr>Member_ID := Member_ID e\<rparr> \<and> url_eq (PeerURLs e) (PeerURLs l)"
proof -
  have "Member_ID ` set ns = Member_ID ` set ems \<and> (\<forall>n\<in>set ns. \<exists>e\<in>set ems. \<exists>l\<in>set lms.
      n = l\<lparr>Member_ID := Member_ID e\<rparr> \<and> url_eq (PeerURLs e) (PeerURLs l))"
    using assms
  proof (induction url_eq ems lms arbitrary: ns rule: assign_ids.induct)
    case (1 url_eq e ems l lms)
    then obtain ms where ms: "url_eq (PeerURLs e) (PeerURLs l)" "assign_ids url_eq ems lms = Some ms"
      "ns = l\<lparr>Member_ID := Member_ID e\<rparr> # ms" by (auto split: if_splits)
    have "length ems = length lms" using 1 by simp
    note IH = 1(1) [OF _ ms(2) this]
    show ?case using IH ms(1,3) by simp blast
  qed auto
  then show "Member_ID ` set ns = Member_ID ` set ems"
    "n \<in> set ns \<Longrightarrow> \<exists>e\<in>set ems. \<exists>l\<in>set lms. n = l\<lparr>Member_ID := Member_ID e\<rparr> \<and> url_eq (PeerURLs e) (PeerURLs l)"
    by blast+
qed

lemma members_map_fold:
  "fst ` set (fold (\<lambda>m. AList.update (Member_ID m) m) ms al) = fst ` set al \<union> Member_ID ` set ms"
  "map_of (fold (\<lambda>m. AList.update (Member_ID m) m) ms al) i = Some m \<Longrightarrow>
     map_of al i = Some m \<or> m \<in> set ms \<and> Member_ID m = i"
proof (induction ms arbitrary: al)
  case (Cons a ms)
  { case 1 show ?case using Cons.IH(1) [of "AList.update (Member_ID a) a al"] by (auto simp: dom_update [unfolded dom_map_of_conv_image_fst])
  next
    case 2 then show ?case using Cons.IH(2) [of "AList.update (Member_ID a) a al"] by (auto simp: update_conv' split: if_splits) }
qed auto

lemma set_Members: "set (Members c) = snd ` set (MembersMap c)" "length (Members c) = length (MembersMap c)"
  by (force simp: Members_def sort_by_id_def)+

lemma set_sort_by_peer_urls: "sort_by_peer_urls ms = Some ns \<Longrightarrow> set ns = set ms \<and> length ns = length ms"
  by (auto simp: sort_by_peer_urls_def split: if_splits)

lemma members_map_keys: "fst ` set (members_map ms) = Member_ID ` set ms"
  by (simp add: members_map_def members_map_fold(1))

lemma members_map_value: "map_of (members_map ms) i = Some m \<Longrightarrow> m \<in> set ms \<and> Member_ID m = i"
  using members_map_fold(2) [of ms "[]" i m] by (simp add: members_map_def)

text \<open>C32: joining a cluster: when \<^verbatim>\<open>ValidateClusterAndAssignIDs\<close> accepts the configuration, the local cluster has exactly
  the ids of the existing one, and each of its members is a configured member under the id of an existing
  member with equal URLs.\<close>

theorem assigned_ids:
  assumes "wf_cluster existing" "ValidateClusterAndAssignIDs url_eq local existing = Ok c"
  shows "fst ` set (MembersMap c) = fst ` set (MembersMap existing) \<and>
    (\<forall>i m. map_of (MembersMap c) i = Some m \<longrightarrow>
       (\<exists>e l. map_of (MembersMap existing) i = Some e \<and> l \<in> snd ` set (MembersMap local) \<and>
          m = l\<lparr>Member_ID := i\<rparr> \<and> url_eq (PeerURLs e) (PeerURLs l)))"
proof -
  obtain ems lms ns where s: "sort_by_peer_urls (Members existing) = Some ems" "sort_by_peer_urls (Members local) = Some lms"
      "assign_ids url_eq ems lms = Some ns" "c = local\<lparr>MembersMap := members_map ns\<rparr>"
    and len: "length (Members existing) = length (Members local)"
    using assms(2)
    by (auto simp: ValidateClusterAndAssignIDs_def Let_def obind_eq_Ok must_def split: if_splits option.splits)
  have sets: "set ems = snd ` set (MembersMap existing)" "set lms = snd ` set (MembersMap local)" "length ems = length lms"
    using set_sort_by_peer_urls [OF s(1)] set_sort_by_peer_urls [OF s(2)] len by (simp_all add: set_Members)
  note r = assign_ids_result [OF s(3) sets(3)]
  have e: "map_of (MembersMap existing) (Member_ID e) = Some e" if "e \<in> set ems" for e
    using wf_clusterD(1,3) [OF assms(1)] that unfolding sets(1) by auto
  have keys: "fst ` set (MembersMap existing) = Member_ID ` set ems"
    using wf_clusterD(3) [OF assms(1)] unfolding sets(1) by force
  have "fst ` set (MembersMap c) = Member_ID ` set ns" using s(4) by (simp add: members_map_keys)
  then have "fst ` set (MembersMap c) = fst ` set (MembersMap existing)" using keys r(1) by simp
  moreover have "\<exists>e l. map_of (MembersMap existing) i = Some e \<and> l \<in> snd ` set (MembersMap local) \<and>
      m = l\<lparr>Member_ID := i\<rparr> \<and> url_eq (PeerURLs e) (PeerURLs l)" if m: "map_of (MembersMap c) i = Some m" for i m
  proof -
    have "m \<in> set ns" "Member_ID m = i" using members_map_value m s(4) by auto
    then obtain e' l where "e' \<in> set ems" "l \<in> set lms" "m = l\<lparr>Member_ID := Member_ID e'\<rparr>" "url_eq (PeerURLs e') (PeerURLs l)"
      using r(2) by blast
    then show ?thesis using e sets(2) \<open>Member_ID m = i\<close> by auto
  qed
  ultimately show ?thesis by blast
qed

definition member1 :: Member where
  "member1 = \<lparr>Member_ID = 1, PeerURLs = [''http://10.0.0.1:1''], Member_Name = ''a'', AdminURLs = []\<rparr>"

definition member2 :: Member where
  "member2 = \<lparr>Member_ID = 2, PeerURLs = [''http://10.0.0.1:1''], Member_Name = ''a'', AdminURLs = []\<rparr>"

definition cluster1 :: RaftCluster where
  "cluster1 = \<lparr>Cluster_ID = 7, MembersMap = [(1, member1)], RemovedMap = []\<rparr>"

theorem assigned_ids_witness:
  "\<exists>c. ValidateClusterAndAssignIDs (=) (NewClusterFromMembers 9 [member2]) cluster1 = Ok c \<and> fst ` set (MembersMap c) = {1}"
proof -
  have wf: "wf_cluster cluster1" by (simp add: wf_cluster_def cluster1_def member1_def IsIDRemoved_def)
  obtain c where c: "ValidateClusterAndAssignIDs (=) (NewClusterFromMembers 9 [member2]) cluster1 = Ok c"
    by (simp add: ValidateClusterAndAssignIDs_def Members_def sort_by_id_def sort_by_peer_urls_def cluster1_def member1_def
        member2_def NewClusterFromMembers_def members_map_def Let_def)
  then show ?thesis using assigned_ids [OF wf c] by (simp add: cluster1_def)
qed

text \<open>\<^verbatim>\<open>IsMemberBootstrapped\<close> never says that a member was bootstrapped, whatever the other members answer: both of
  its branches return \<^verbatim>\<open>false\<close>. The check of \<^verbatim>\<open>starRaft\<close> for a member that joins a running cluster as new cannot fail.\<close>

theorem never_bootstrapped: "IsMemberBootstrapped unmarshal_ms get cl member \<noteq> Ok True"
  by (auto simp: IsMemberBootstrapped_def obind_eq_Ok split: outcome.splits option.splits)

definition cluster2 :: RaftCluster where
  "cluster2 = \<lparr>Cluster_ID = 7, MembersMap = [(1, member1), (3, \<lparr>Member_ID = 3, PeerURLs = [''http://10.0.0.3:1''], Member_Name = ''b'', AdminURLs = []\<rparr>)],
     RemovedMap = []\<rparr>"

lemma wf_cluster2: "wf_cluster cluster2"
  by (simp add: wf_cluster_def cluster2_def member1_def IsIDRemoved_def)

lemma save_sample: "length v < 2 ^ 31 - 2 \<Longrightarrow> \<exists>st'. save_change (\<lambda>_. Some v) os_ok (c, empty_store) = (Ok (), (c, st'))"
  by (simp add: save_change_def SaveToStorage_def Set_def Update_def Put_def empty_store_def RaftClusterKey_def)

theorem remove_keeps_quorum_witness:
  "\<exists>c' st'. RemoveMember (\<lambda>_. Some []) os_ok 3 (cluster2, empty_store) = (Ok (), (c', st')) \<and> 1 < 2 * started c'"
proof -
  obtain c' st' where r: "RemoveMember (\<lambda>_. Some []) os_ok 3 (cluster2, empty_store) = (Ok (), (c', st'))"
    and c': "length (MembersMap c') = 1"
    using save_sample [of "[]" "cluster2\<lparr>MembersMap := AList.delete 3 (MembersMap cluster2), RemovedMap := AList.update 3 True []\<rparr>"]
    by (auto simp: RemoveMember_def cluster2_def)
  have "IsReadyToRemoveMember cluster2 3" by (simp add: IsReadyToRemoveMember_def cluster2_def member1_def IsStarted_def)
  then show ?thesis using remove_keeps_quorum [OF wf_cluster2 _ r] r c' by simp
qed

theorem add_keeps_quorum_witness:
  "\<exists>c' st'. AddMember (\<lambda>_. Some []) os_ok member2 (cluster2, empty_store) = (Ok (), (c', st')) \<and> 3 < 2 * started c'"
proof -
  obtain c' st' where r: "AddMember (\<lambda>_. Some []) os_ok member2 (cluster2, empty_store) = (Ok (), (c', st'))"
    and c': "length (MembersMap c') = 3"
    using save_sample [of "[]" "cluster2\<lparr>MembersMap := AList.update 2 member2 (MembersMap cluster2)\<rparr>"]
    by (auto simp: AddMember_def cluster2_def member2_def)
  have a: "IsReadyToAddNewMember cluster2" "map_of (MembersMap cluster2) (Member_ID member2) = None"
    "length (MembersMap cluster2) = 2"
    by (simp_all add: IsReadyToAddNewMember_def cluster2_def member1_def member2_def IsStarted_def)
  then show ?thesis using add_keeps_quorum [OF a(1,2) r] r c' by simp
qed

section \<open>Reading the cluster back\<close>

text \<open>C33: a member that was added is in the cluster that a restarted server reads from the store, and so is everything
  else: what is read is the cluster after the change, with its maps in any order. Names and URLs are UTF-8; JSON would not
  keep other bytes.\<close>

theorem AddMember_read_back:
  assumes "json_ok marshal unmarshal" "ascending (ms_bucket st)" "os SysRead MetadataFile"
    and "text_cluster c" "text_member m" "AddMember marshal os m (c, st) = (Ok (), (c', st'))"
  shows "map_of (MembersMap c') (Member_ID m) = Some m \<and>
    (\<exists>d. GetRaftClusterFromStorage unmarshal os st' = Ok d \<and> same_cluster c' d)"
proof -
  let ?c = "c\<lparr>MembersMap := AList.update (Member_ID m) m (MembersMap c)\<rparr>"
  have "save_change marshal os (?c, st) = (Ok (), (c', st'))" using assms(6) by (simp add: AddMember_def)
  note s = save_change_saves [OF this assms(1,2) text_cluster_update [OF assms(4,5)]]
  show ?thesis using GetRaftCluster_saved [OF s(2,4), of os] assms(3) s(1) by (simp add: update_conv')
qed

text \<open>
  A concrete format, simpler than JSON, for which the assumption holds: numbers in eight bytes, and lists with
  their length in unary before them.
\<close>

definition decodes :: "(bytes \<Rightarrow> ('a \<times> bytes) option) \<Rightarrow> ('a \<Rightarrow> bytes) \<Rightarrow> bool" where
  "decodes d e \<longleftrightarrow> (\<forall>x r. d (e x @ r) = Some (x, r))"

definition enc_list :: "('a \<Rightarrow> bytes) \<Rightarrow> 'a list \<Rightarrow> bytes" where
  "enc_list e xs = replicate (length xs) 1 @ [0] @ concat (map e xs)"

fun dec_many :: "(bytes \<Rightarrow> ('a \<times> bytes) option) \<Rightarrow> nat \<Rightarrow> bytes \<Rightarrow> ('a list \<times> bytes) option" where
  "dec_many d 0 b = Some ([], b)"
| "dec_many d (Suc n) b =
     (case d b of None \<Rightarrow> None | Some (x, b) \<Rightarrow> map_option (map_prod (Cons x) (\<lambda>b. b)) (dec_many d n b))"

definition dec_list :: "(bytes \<Rightarrow> ('a \<times> bytes) option) \<Rightarrow> bytes \<Rightarrow> ('a list \<times> bytes) option" where
  "dec_list d b = (let n = length (takeWhile (\<lambda>x. x = 1) b) in dec_many d n (drop (Suc n) b))"

definition dec_pair :: "(bytes \<Rightarrow> ('a \<times> bytes) option) \<Rightarrow> (bytes \<Rightarrow> ('b \<times> bytes) option) \<Rightarrow> bytes \<Rightarrow> (('a \<times> 'b) \<times> bytes) option" where
  "dec_pair d d' b =
     (case d b of None \<Rightarrow> None | Some (x, b) \<Rightarrow> map_option (map_prod (Pair x) (\<lambda>b. b)) (d' b))"

lemma decodes_list: "decodes d e \<Longrightarrow> decodes (dec_list d) (enc_list e)"
proof -
  assume d: "decodes d e"
  have m: "dec_many d (length xs) (concat (map e xs) @ r) = Some (xs, r)" for xs r
    using d by (induction xs) (auto simp: decodes_def)
  have n: "length (takeWhile (\<lambda>x. x = 1) (replicate n 1 @ (0 :: byte) # b)) = n" for n b by (induction n) simp_all
  show ?thesis unfolding decodes_def
  proof (intro allI)
    fix xs r show "dec_list d (enc_list e xs @ r) = Some (xs, r)"
      using n [of "length xs" "concat (map e xs) @ r"] m by (simp add: dec_list_def enc_list_def)
  qed
qed

lemma decodes_pair: "decodes d e \<Longrightarrow> decodes d' e' \<Longrightarrow> decodes (dec_pair d d') (\<lambda>(x, y). e x @ e' y)"
  by (auto simp: decodes_def dec_pair_def)

lemma decodes_iso: "decodes d e \<Longrightarrow> (\<And>x. g (f x) = x) \<Longrightarrow> decodes (\<lambda>b. map_option (map_prod g (\<lambda>b. b)) (d b)) (\<lambda>x. e (f x))"
  by (simp add: decodes_def)

definition dec_u64 :: "bytes \<Rightarrow> (u64 \<times> bytes) option" where
  "dec_u64 b = map_option (\<lambda>v. (v, drop 8 b)) (get_le64 b)"

lemma decodes_u64: "decodes dec_u64 le64"
  by (simp add: decodes_def dec_u64_def)

definition dec_byte :: "bytes \<Rightarrow> (byte \<times> bytes) option" where
  "dec_byte b = (case b of [] \<Rightarrow> None | x # b \<Rightarrow> Some (x, b))"

lemma decodes_byte: "decodes dec_byte (\<lambda>x. [x])"
  by (simp add: decodes_def dec_byte_def)

lemma BytesToString_StringToBytes [simp]: "BytesToString (StringToBytes s) = s"
proof -
  have "char_of (unat (of_char c :: byte)) = c" for c :: char
  proof -
    have "unat (of_char c :: byte) = unat (of_nat (of_char c) :: byte)" by (simp only: of_nat_of_char)
    also have "\<dots> = of_char c" unfolding unat_of_nat by simp
    finally show ?thesis by simp
  qed
  then show ?thesis by (simp add: BytesToString_def StringToBytes_def comp_def)
qed

definition enc_string :: "string \<Rightarrow> bytes" where
  "enc_string s = enc_list (\<lambda>x. [x]) (StringToBytes s)"

definition dec_string :: "bytes \<Rightarrow> (string \<times> bytes) option" where
  "dec_string b = map_option (map_prod BytesToString (\<lambda>b. b)) (dec_list dec_byte b)"

lemma decodes_string: "decodes dec_string enc_string"
  using decodes_iso [OF decodes_list [OF decodes_byte], of BytesToString StringToBytes]
  by (simp add: enc_string_def [abs_def] dec_string_def [abs_def])

definition enc_member :: "Member \<Rightarrow> bytes" where
  "enc_member m =
     le64 (Member_ID m) @ enc_list enc_string (PeerURLs m) @ enc_string (Member_Name m) @ enc_list enc_string (AdminURLs m)"

definition dec_member :: "bytes \<Rightarrow> (Member \<times> bytes) option" where
  "dec_member b =
     map_option (map_prod (\<lambda>(i, u, n, a). \<lparr>Member_ID = i, PeerURLs = u, Member_Name = n, AdminURLs = a\<rparr>) (\<lambda>b. b))
       (dec_pair dec_u64 (dec_pair (dec_list dec_string) (dec_pair dec_string (dec_list dec_string))) b)"

lemma decodes_member: "decodes dec_member enc_member"
  using decodes_pair [OF decodes_u64 decodes_pair [OF decodes_list [OF decodes_string]
      decodes_pair [OF decodes_string decodes_list [OF decodes_string]]]]
  by (auto simp: decodes_def dec_member_def enc_member_def)

definition sample_marshal :: "RaftCluster \<Rightarrow> bytes option" where
  "sample_marshal c = Some (le64 (Cluster_ID c) @ enc_list (\<lambda>(i, m). le64 i @ enc_member m) (MembersMap c) @
     enc_list (\<lambda>(i, b). le64 i @ [if b then 1 else 0]) (RemovedMap c))"

definition sample_unmarshal :: "bytes \<Rightarrow> RaftCluster option" where
  "sample_unmarshal b =
     map_option (\<lambda>((i, ms, rs), _). \<lparr>Cluster_ID = i, MembersMap = ms, RemovedMap = map (\<lambda>(i, b). (i, b = 1)) rs\<rparr>)
       (dec_pair dec_u64 (dec_pair (dec_list (dec_pair dec_u64 dec_member)) (dec_list (dec_pair dec_u64 dec_byte))) b)"

lemma sample_unmarshal_marshal: "sample_marshal c = Some v \<Longrightarrow> sample_unmarshal v = Some c"
proof -
  assume v: "sample_marshal c = Some v"
  let ?rs = "map (\<lambda>(i, b). (i, if b then 1 else 0 :: byte)) (RemovedMap c)"
  have rs: "enc_list (\<lambda>(i, b). le64 i @ [if b then 1 else 0]) (RemovedMap c) = enc_list (\<lambda>(i, b). le64 i @ [b]) ?rs"
    by (simp add: enc_list_def comp_def case_prod_unfold)
  have inv: "map (\<lambda>(i, b). (i, b = 1)) ?rs = RemovedMap c" by (auto simp: comp_def case_prod_unfold intro!: map_idI split: if_splits)
  have "dec_pair dec_u64 (dec_pair (dec_list (dec_pair dec_u64 dec_member)) (dec_list (dec_pair dec_u64 dec_byte))) (v @ [])
      = Some ((Cluster_ID c, MembersMap c, ?rs), [])"
    using v decodes_pair [OF decodes_u64 decodes_pair [OF decodes_list [OF decodes_pair [OF decodes_u64 decodes_member]]
        decodes_list [OF decodes_pair [OF decodes_u64 decodes_byte]]]]
    unfolding decodes_def sample_marshal_def rs by (metis append_Nil2 option.inject prod.case)
  then show ?thesis using inv by (simp add: sample_unmarshal_def)
qed

lemma sample_json_ok: "json_ok sample_marshal sample_unmarshal"
  using sample_unmarshal_marshal by (auto simp: json_ok_def same_cluster_def)

theorem AddMember_read_back_witness:
  "\<exists>c' st' d. AddMember sample_marshal os_ok member2 (cluster1, empty_store) = (Ok (), (c', st')) \<and>
     GetRaftClusterFromStorage sample_unmarshal os_ok st' = Ok d \<and> same_cluster c' d"
proof -
  obtain v where v: "sample_marshal (cluster1\<lparr>MembersMap := AList.update 2 member2 (MembersMap cluster1)\<rparr>) = Some v"
    by (simp add: sample_marshal_def)
  then have "length v < 1000"
    by (simp add: sample_marshal_def enc_list_def enc_member_def enc_string_def cluster1_def member1_def member2_def
        StringToBytes_def) auto
  then obtain c' st' where r: "AddMember sample_marshal os_ok member2 (cluster1, empty_store) = (Ok (), (c', st'))"
    using v by (simp add: AddMember_def save_change_def SaveToStorage_def Set_def Update_def Put_def empty_store_def
        RaftClusterKey_def member2_def)
  have "text_cluster cluster1" "text_member member2"
    by (simp_all add: text_cluster_def text_member_def cluster1_def member1_def member2_def StringToBytes_def)
  then show ?thesis using AddMember_read_back [OF sample_json_ok _ _ _ _ r] r
    by (auto simp: empty_store_def ascending_def)
qed

end
