(* ===== verification/Server_Apply.thy ===== *)
theory Server_Apply
  imports Binlog_Progress Membership
begin

text \<open>
  Applying committed entries: \<^verbatim>\<open>src/server/apply.go\<close>. The state is what the entries change: the progress, the cluster
  and the store, the applied index and term of the raft node, and the calls that leave the server: to the
  transport, to the raft node (\<^verbatim>\<open>ApplyConfChange\<close>), and to waiting requests. JSON, the clock and the configuration
  state that the raft node returns are the parameters \<open>env\<close>.
\<close>

section \<open>The server\<close>

datatype transport_call = AddPeer ID "string list" | RemovePeer ID | UpdatePeer ID "string list"

record confChangeResponse =
  membs :: "Member list"
  resp_err :: "membership_error option"

record KingbusServer =
  svr_id :: ID
  appliedIndex :: u64
  svr_term :: u64
  cluster :: RaftCluster
  store :: MetaStore
  binlogProgress :: BinlogProgress
  transport :: "transport_call list"
  raft_changes :: "ConfChange list"
  triggered :: "(u64 \<times> confChangeResponse) list"
  broadcasts :: nat

text \<open>
  The parameters. \<open>raft_conf\<close> is the configuration state that \<^verbatim>\<open>ApplyConfChange\<close> of the raft node returns (\<open>None\<close> for
  nil) after the given changes, the last one first.
\<close>

record server_env =
  env_os :: os
  clock :: "u64 \<Rightarrow> int \<times> int"
  marshal_cluster :: "RaftCluster \<Rightarrow> bytes option"
  unmarshal_cluster :: "bytes \<Rightarrow> RaftCluster option"
  unmarshal_member :: "bytes \<Rightarrow> Member option"
  unmarshal_attributes :: "bytes \<Rightarrow> (ID \<times> Attributes) option"
  unmarshal_gtid_purged :: "bytes \<Rightarrow> string option"
  is_syncer_args :: "bytes \<Rightarrow> bool"
  is_master_info :: "bytes \<Rightarrow> bool"
  marshal_conf_state :: "ConfState \<Rightarrow> bytes option"
  raft_conf :: "ConfChange list \<Rightarrow> ConfState option"

type_synonym server_res = "(KingbusServer, unit) res"

text \<open>A call whose error is fatal.\<close>

definition fatal ::
    "('e, 'a) outcome \<times> 't \<Rightarrow> ('t \<Rightarrow> KingbusServer) \<Rightarrow> ('a \<Rightarrow> KingbusServer \<Rightarrow> (KingbusServer, 'b) res) \<Rightarrow>
     (KingbusServer, 'b) res" where
  "fatal r put k = (case r of (Ok a, t) \<Rightarrow> k a (put t) | (_, t) \<Rightarrow> (Crash, put t))"

definition needApply :: "EventType \<Rightarrow> bool" where
  "needApply eventType \<longleftrightarrow>
     eventType = GTID_EVENT \<or> eventType = FORMAT_DESCRIPTION_EVENT \<or> eventType = ROTATE_EVENT \<or>
     eventType = PREVIOUS_GTIDS_EVENT"

definition applyBinlogEvent :: "server_env \<Rightarrow> bytes \<Rightarrow> EventType \<Rightarrow> u64 \<Rightarrow> KingbusServer \<Rightarrow> server_res" where
  "applyBinlogEvent env eventRawData eventType raftIndex s =
     (if eventType = FORMAT_DESCRIPTION_EVENT then
        sbind (Set (env_os env) (store s) (path_Join FdePrefix (pad20 raftIndex)) eventRawData) (\<lambda>st. s\<lparr>store := st\<rparr>)
          (\<lambda>_ s. (Ok (), s))
      else if length eventRawData < EventHeaderSize + BinlogChecksumLength then (Crash, s)
      else
        let body = take (length eventRawData - EventHeaderSize - BinlogChecksumLength) (drop EventHeaderSize eventRawData)
        in if eventType = GTID_EVENT then
             sbind (GTIDEvent_Decode body, s) (\<lambda>s. s) (\<lambda>e s.
               if length (ge_SID e) \<noteq> 16 then (Err ErrGtid, s)
               else (Ok (), s\<lparr>binlogProgress := (binlogProgress s)\<lparr>currentGtid := UUID_String (ge_SID e) @ '':'' @ Sprintd (GNO e)\<rparr>\<rparr>))
           else if eventType = ROTATE_EVENT then
             sbind (RotateEvent_Decode body, s) (\<lambda>s. s) (\<lambda>(_, nextLogName) s.
             sbind (Set (env_os env) (store s) (path_Join NextBinlogPrefix (pad20 raftIndex)) nextLogName) (\<lambda>st. s\<lparr>store := st\<rparr>) (\<lambda>_ s.
               (Ok (), s\<lparr>binlogProgress := (binlogProgress s)\<lparr>lastBinlogFile := BytesToString nextLogName\<rparr>\<rparr>)))
           else if eventType = PREVIOUS_GTIDS_EVENT then
             sbind (PreviousGtidsLogEvent_Decode body, s) (\<lambda>s. s) (\<lambda>gset s.
             sbind (SetPreviousGtidSet (env_os env) (store s) raftIndex gset) (\<lambda>st. s\<lparr>store := st\<rparr>) (\<lambda>_ s. (Ok (), s)))
           else (Err ErrUnsupport, s))"

definition applyMySQLBinlogEvent :: "server_env \<Rightarrow> Entry \<Rightarrow> KingbusServer \<Rightarrow> server_res" where
  "applyMySQLBinlogEvent env e s =
     fatal (BinlogEvent_Unmarshal new_BinlogEvent (drop 1 (nil_bytes (EData e))), s) (\<lambda>s. s) (\<lambda>binlogEvent s.
       let eventType = ucast (ev_Type binlogEvent) :: EventType;
           data = nil_bytes (ev_Data binlogEvent)
       in fatal
            (if ev_DividedCount binlogEvent = 0 \<or> (ev_DividedCount binlogEvent \<noteq> 0 \<and> ev_DividedSeqNum binlogEvent = 0)
             then updateProcess (env_os env) (clock env (Index e)) (Index e) data (binlogProgress s, store s)
             else (Ok (), (binlogProgress s, store s)))
            (\<lambda>(p, st). s\<lparr>binlogProgress := p, store := st\<rparr>) (\<lambda>_ s.
            if needApply eventType
            then fatal (applyBinlogEvent env data eventType (Index e) s) (\<lambda>s. s) (\<lambda>_ s. (Ok (), s))
            else (Ok (), s)))"

text \<open>The loop of \<^verbatim>\<open>applyMasterGtidPurged\<close>: only the servers that have no purged transactions yet.\<close>

fun add_missing :: "MysqlGTIDSet \<Rightarrow> MysqlGTIDSet \<Rightarrow> MysqlGTIDSet" where
  "add_missing syncer [] = syncer"
| "add_missing syncer ((uuid, u) # master) =
     add_missing (if map_of syncer uuid = None then AddSet syncer u else syncer) master"

definition applyMasterGtidPurged :: "server_env \<Rightarrow> Entry \<Rightarrow> KingbusServer \<Rightarrow> server_res" where
  "applyMasterGtidPurged env e s =
     (case unmarshal_gtid_purged env (drop 1 (nil_bytes (EData e))) of
        None \<Rightarrow> (Crash, s)
      | Some gs \<Rightarrow>
          (case ParseMysqlGTIDSet gs of
             None \<Rightarrow> (Crash, s)
           | Some masterGtidPurged \<Rightarrow>
               fatal (GetGtidSet (env_os env) (store s) MySQLFlavor GtidPurgedKey, s) (\<lambda>s. s) (\<lambda>gtidPurged s.
               fatal (SetGtidSet (env_os env) (store s) MySQLFlavor GtidPurgedKey (add_missing gtidPurged masterGtidPurged))
                 (\<lambda>st. s\<lparr>store := st\<rparr>) (\<lambda>_ s.
               fatal (BinlogProgress_reset (env_os env) gs (binlogProgress s, store s))
                 (\<lambda>(p, st). s\<lparr>binlogProgress := p, store := st\<rparr>) (\<lambda>_ s. (Ok (), s))))))"

definition applyNodeAttributes :: "server_env \<Rightarrow> Entry \<Rightarrow> KingbusServer \<Rightarrow> server_res" where
  "applyNodeAttributes env e s =
     (case unmarshal_attributes env (drop 1 (nil_bytes (EData e))) of
        None \<Rightarrow> (Crash, s)
      | Some (i, attributes) \<Rightarrow>
          sbind (UpdateAttributes (marshal_cluster env) (env_os env) i attributes (cluster s, store s))
            (\<lambda>(c, st). s\<lparr>cluster := c, store := st\<rparr>) (\<lambda>_ s. (Ok (), s)))"

definition applySyncerArgs :: "server_env \<Rightarrow> Entry \<Rightarrow> KingbusServer \<Rightarrow> server_res" where
  "applySyncerArgs env e s =
     (let data = drop 1 (nil_bytes (EData e))
      in if \<not> is_syncer_args env data then (Crash, s)
         else fatal (Set (env_os env) (store s) SyncerArgsKey data) (\<lambda>st. s\<lparr>store := st\<rparr>) (\<lambda>_ s. (Ok (), s)))"

definition applyMasterInfo :: "server_env \<Rightarrow> Entry \<Rightarrow> KingbusServer \<Rightarrow> server_res" where
  "applyMasterInfo env e s =
     (let data = drop 1 (nil_bytes (EData e))
      in if \<not> is_master_info env data then (Crash, s)
         else fatal (Set (env_os env) (store s) MasterInfoKey data) (\<lambda>st. s\<lparr>store := st\<rparr>) (\<lambda>_ s. (Ok (), s)))"

definition applyEntryNormal :: "server_env \<Rightarrow> Entry \<Rightarrow> KingbusServer \<Rightarrow> server_res" where
  "applyEntryNormal env e s =
     (case nil_bytes (EData e) of
        [] \<Rightarrow> (Ok (), s)
      | dataType # _ \<Rightarrow>
          if dataType = MySQLBinlogEventType then
            sbind (applyMySQLBinlogEvent env e s) (\<lambda>s. s) (\<lambda>_ s. (Ok (), s\<lparr>broadcasts := broadcasts s + 1\<rparr>))
          else if dataType = NodeAttributesType then applyNodeAttributes env e s
          else if dataType = SyncerArgsType then applySyncerArgs env e s
          else if dataType = MasterInfoType then applyMasterInfo env e s
          else if dataType = MasterGtidPurgedType then applyMasterGtidPurged env e s
          else (Crash, s))"

definition saveConfState :: "server_env \<Rightarrow> ConfState option \<Rightarrow> KingbusServer \<Rightarrow> server_res" where
  "saveConfState env confState s =
     (case confState of
        None \<Rightarrow> (Ok (), s)
      | Some cs \<Rightarrow>
          (case marshal_conf_state env cs of
             None \<Rightarrow> (Crash, s)
           | Some value \<Rightarrow>
               fatal (Set (env_os env) (store s) ConfStateKey value) (\<lambda>st. s\<lparr>store := st\<rparr>) (\<lambda>_ s. (Ok (), s))))"

text \<open>\<^verbatim>\<open>raftNode.ApplyConfChange\<close>.\<close>

definition ApplyConfChange :: "server_env \<Rightarrow> ConfChange \<Rightarrow> KingbusServer \<Rightarrow> ConfState option \<times> KingbusServer" where
  "ApplyConfChange env cc s = (let s = s\<lparr>raft_changes := cc # raft_changes s\<rparr> in (raft_conf env (raft_changes s), s))"

text \<open>
  The part of \<^verbatim>\<open>applyConfChange\<close> after the validation, without the deferred call: whether this server was removed.
\<close>

definition change_cluster :: "server_env \<Rightarrow> ConfChange \<Rightarrow> KingbusServer \<Rightarrow> (KingbusServer, bool) res" where
  "change_cluster env cc s =
     (let put = (\<lambda>(c, st). s\<lparr>cluster := c, store := st\<rparr>)
      in if cc_Type cc = ConfChangeAddNode then
           (case unmarshal_member env (nil_bytes (Context cc)) of
              None \<Rightarrow> (Crash, s)
            | Some m \<Rightarrow>
                if NodeID cc \<noteq> Member_ID m then (Crash, s)
                else sbind (AddMember (marshal_cluster env) (env_os env) m (cluster s, store s)) put (\<lambda>_ s.
                       (Ok False, if Member_ID m \<noteq> svr_id s then s\<lparr>transport := transport s @ [AddPeer (Member_ID m) (PeerURLs m)]\<rparr> else s)))
         else if cc_Type cc = ConfChangeRemoveNode then
           sbind (RemoveMember (marshal_cluster env) (env_os env) (NodeID cc) (cluster s, store s)) put (\<lambda>_ s.
             if NodeID cc = svr_id s then (Ok True, s)
             else (Ok False, s\<lparr>transport := transport s @ [RemovePeer (NodeID cc)]\<rparr>))
         else if cc_Type cc = ConfChangeUpdateNode then
           (case unmarshal_member env (nil_bytes (Context cc)) of
              None \<Rightarrow> (Crash, s)
            | Some m \<Rightarrow>
                if NodeID cc \<noteq> Member_ID m then (Crash, s)
                else sbind (UpdateRaftAttributes (marshal_cluster env) (env_os env) (Member_ID m) \<lparr>ra_PeerURLs = PeerURLs m\<rparr> (cluster s, store s)) put (\<lambda>_ s.
                       (Ok False, if Member_ID m \<noteq> svr_id s then s\<lparr>transport := transport s @ [UpdatePeer (Member_ID m) (PeerURLs m)]\<rparr> else s)))
         else (Ok False, s))"

definition applyConfChange :: "server_env \<Rightarrow> ConfChange \<Rightarrow> KingbusServer \<Rightarrow> (KingbusServer, bool \<times> membership_error option) res" where
  "applyConfChange env cc s =
     (case ValidateConfigurationChange (unmarshal_cluster env) (unmarshal_member env) (env_os env) (store s) cc of
        Crash \<Rightarrow> (Crash, s)
      | Err err \<Rightarrow>
          (case ApplyConfChange env (cc\<lparr>NodeID := raft_None\<rparr>) s of
             (confState, s) \<Rightarrow> sbind (saveConfState env confState s) (\<lambda>s. s) (\<lambda>_ s. (Ok (False, Some err), s)))
      | Ok _ \<Rightarrow>
          (case ApplyConfChange env cc s of
             (confState, s) \<Rightarrow>
               sbind (change_cluster env cc s) (\<lambda>s. s) (\<lambda>removedSelf s.
               sbind (saveConfState env confState s) (\<lambda>s. s) (\<lambda>_ s. (Ok (removedSelf, None), s)))))"

section \<open>The entries\<close>

definition applied :: "Entry \<Rightarrow> KingbusServer \<Rightarrow> KingbusServer" where
  "applied e s = s\<lparr>appliedIndex := Index e, svr_term := Term e\<rparr>"

definition apply_entry :: "server_env \<Rightarrow> Entry \<Rightarrow> KingbusServer \<Rightarrow> (KingbusServer, bool) res" where
  "apply_entry env e s =
     (if EType e = EntryNormal then
        sbind (applyEntryNormal env e s) (\<lambda>s. s) (\<lambda>_ s. (Ok False, applied e s))
      else if EType e = EntryConfChange then
        fatal (ConfChange_Unmarshal new_ConfChange (nil_bytes (EData e)), s) (\<lambda>s. s) (\<lambda>cc s.
        sbind (applyConfChange env cc s) (\<lambda>s. s) (\<lambda>(removedSelf, err) s.
          let s = applied e s
          in (Ok removedSelf, s\<lparr>triggered := triggered s @ [(cc_ID cc, \<lparr>membs = Members (cluster s), resp_err = err\<rparr>)]\<rparr>)))
      else (Crash, s))"

fun apply_loop :: "server_env \<Rightarrow> bool \<Rightarrow> Entry list \<Rightarrow> KingbusServer \<Rightarrow> (KingbusServer, bool) res" where
  "apply_loop env shouldStop [] s = (Ok shouldStop, s)"
| "apply_loop env shouldStop (e # es) s =
     sbind (apply_entry env e s) (\<lambda>s. s) (\<lambda>removedSelf s. apply_loop env (shouldStop \<or> removedSelf) es s)"

definition apply_entries :: "server_env \<Rightarrow> Entry list \<Rightarrow> KingbusServer \<Rightarrow> (KingbusServer, bool) res" where
  "apply_entries env es s = apply_loop env False es s"

text \<open>\<^verbatim>\<open>applyEntries\<close>; the result says whether the server has to stop. The entries are those of one batch of the raft node.\<close>

definition applyEntries :: "server_env \<Rightarrow> Entry list \<Rightarrow> KingbusServer \<Rightarrow> (KingbusServer, bool) res" where
  "applyEntries env ap s =
     (case ap of
        [] \<Rightarrow> (Ok False, s)
      | e # _ \<Rightarrow>
          let firstIndex = Index e
          in if firstIndex > appliedIndex s + 1 then (Crash, s)
             else
               let n = appliedIndex s + 1 - firstIndex;
                   ents = (if n < of_nat (length ap) then drop (unat n) ap else [])
               in if ents = [] then (Ok False, s) else apply_entries env ents s)"

definition MustGetAppliedIndex :: "os \<Rightarrow> MetaStore \<Rightarrow> (storage_error, u64) outcome" where
  "MustGetAppliedIndex os st =
     (case Get os st AppliedIndexKey of
        Ok None \<Rightarrow> Ok 0
      | Ok (Some value) \<Rightarrow> if value = [] then Ok 0 else must (get_be64 value)
      | _ \<Rightarrow> Crash)"

section \<open>What applying an event changes\<close>

lemma fatal_eq_Ok: "fatal r put k = (Ok b, s) \<longleftrightarrow> (\<exists>a t. r = (Ok a, t) \<and> k a (put t) = (Ok b, s))"
  by (auto simp: fatal_def split: prod.splits outcome.splits)

text \<open>The keys of the store that hold the progress and the cluster, and the operations that leave them alone.\<close>

abbreviation ExecutedKey :: string where
  "ExecutedKey \<equiv> path_Join MySQLFlavor ExecutedGtidSetKey"

definition keeps :: "string set \<Rightarrow> MetaStore \<Rightarrow> MetaStore \<Rightarrow> bool" where
  "keeps K st st' \<longleftrightarrow>
     ascending (ms_bucket st') \<and> (\<forall>k\<in>K. map_of (ms_bucket st') k = map_of (ms_bucket st) k)"

lemma keeps_refl: "ascending (ms_bucket st) \<Longrightarrow> keeps K st st"
  by (simp add: keeps_def)

lemma keeps_trans: "keeps K st st' \<Longrightarrow> keeps K st' st'' \<Longrightarrow> keeps K st st''"
  by (simp add: keeps_def)

lemma keepsD: "keeps K st st' \<Longrightarrow> ascending (ms_bucket st')" "keeps K st st' \<Longrightarrow> k \<in> K \<Longrightarrow> map_of (ms_bucket st') k = map_of (ms_bucket st) k"
  by (simp_all add: keeps_def)

lemma keeps_subset: "keeps K st st' \<Longrightarrow> L \<subseteq> K \<Longrightarrow> keeps L st st'"
  by (auto simp: keeps_def)

definition state_keys :: "string set" where
  "state_keys = {AppliedIndexKey, ExecutedKey, RaftClusterKey}"

lemma other_keys [simp]:
  "path_Join FdePrefix i \<notin> state_keys" "path_Join NextBinlogPrefix i \<notin> state_keys" "path_Join PgePrefix i \<notin> state_keys"
  "SyncerArgsKey \<notin> state_keys" "MasterInfoKey \<notin> state_keys" "ConfStateKey \<notin> state_keys"
  "path_Join MySQLFlavor GtidPurgedKey \<notin> state_keys"
  by (simp_all add: state_keys_def path_Join_def FdePrefix_def NextBinlogPrefix_def PgePrefix_def SyncerArgsKey_def
      MasterInfoKey_def RaftClusterKey_def ConfStateKey_def AppliedIndexKey_def MySQLFlavor_def ExecutedGtidSetKey_def
      GtidPurgedKey_def)

lemma cluster_key: "RaftClusterKey \<noteq> AppliedIndexKey" "RaftClusterKey \<noteq> ExecutedKey"
  by (simp_all add: path_Join_def RaftClusterKey_def AppliedIndexKey_def MySQLFlavor_def ExecutedGtidSetKey_def)

lemma Set_keeps:
  assumes "Set os st k v = (Ok (), st')" "ascending (ms_bucket st)" "k \<notin> K"
  shows "keeps K st st'"
  using Set_stores [OF assms(2,1)] assms(3) by (auto simp: keeps_def)

lemma SetPreviousGtidSet_keeps:
  assumes "SetPreviousGtidSet os st i g = (Ok (), st')" "ascending (ms_bucket st)"
  shows "keeps state_keys st st'"
proof -
  let ?k = "path_Join PgePrefix (pad20 i)"
  have "st' = commit (ms_bucket st) st \<or> st' = commit (bucket_put ?k (GTIDSet_Encode g) (ms_bucket st)) st"
    using Update_cases [OF assms(1) [unfolded SetPreviousGtidSet_def]]
    by (auto simp: obind_eq_Ok Put_def split: if_splits)
  then show ?thesis
    using bk.lookup_put [OF assms(2)] bk.invar_put [OF assms(2)] assms(2) other_keys(3) [of "pad20 i"]
    by (auto simp: keeps_def)
qed

text \<open>The body of an event, the text of the GTID of a GTID event, and what the events do to the progress.\<close>

definition event_body :: "bytes \<Rightarrow> bytes" where
  "event_body data = take (length data - EventHeaderSize - BinlogChecksumLength) (drop EventHeaderSize data)"

definition gtid_text :: "bytes \<Rightarrow> string" where
  "gtid_text data =
     (case GTIDEvent_Decode (event_body data) of
        Ok e \<Rightarrow> UUID_String (ge_SID e) @ '':'' @ Sprintd (GNO e) | _ \<Rightarrow> '':'')"

definition event_progress :: "bytes \<Rightarrow> EventType \<Rightarrow> BinlogProgress \<Rightarrow> BinlogProgress" where
  "event_progress data t p =
     (if t = GTID_EVENT then p\<lparr>currentGtid := gtid_text data\<rparr>
      else if t = ROTATE_EVENT then p\<lparr>lastBinlogFile := BytesToString (drop 8 (event_body data))\<rparr>
      else p)"

lemma gtid_text_not_Nil: "gtid_text data \<noteq> []"
  by (simp add: gtid_text_def split: outcome.splits)

lemma applyBinlogEvent_effect:
  assumes "applyBinlogEvent env data t i s = (Ok (), s')" "ascending (ms_bucket (store s))"
  shows "binlogProgress s' = event_progress data t (binlogProgress s) \<and> keeps state_keys (store s) (store s') \<and>
    cluster s' = cluster s"
proof -
  note d = assms(1) [unfolded applyBinlogEvent_def, folded event_body_def]
  note k = Set_keeps [OF _ assms(2)]
  consider "t = FORMAT_DESCRIPTION_EVENT" | "t = GTID_EVENT" | "t = ROTATE_EVENT" | "t = PREVIOUS_GTIDS_EVENT"
    using d by (auto simp: Let_def split: if_splits)
  then show ?thesis
  proof cases
    case 1
    then show ?thesis using d k by (auto simp: sbind_eq_Ok event_progress_def event_types)
  next
    case 2
    then show ?thesis
      using d keeps_refl [OF assms(2)]
      by (auto simp: sbind_eq_Ok event_progress_def event_types gtid_text_def Let_def split: if_splits)
  next
    case 3
    then obtain n st where n: "RotateEvent_Decode (event_body data) = Ok n"
      "Set (env_os env) (store s) (path_Join NextBinlogPrefix (pad20 i)) (snd n) = (Ok (), st)"
      "s' = s\<lparr>store := st, binlogProgress := (binlogProgress s)\<lparr>lastBinlogFile := BytesToString (snd n)\<rparr>\<rparr>"
      using d by (auto simp: sbind_eq_Ok event_types Let_def split: if_splits)
    then have "snd n = drop 8 (event_body data)" by (auto simp: RotateEvent_Decode_def obind_eq_Ok)
    then show ?thesis using n k [OF n(2)] 3 by (simp add: event_progress_def event_types)
  next
    case 4
    then show ?thesis
      using d SetPreviousGtidSet_keeps [OF _ assms(2)]
      by (auto simp: sbind_eq_Ok event_progress_def event_types Let_def split: if_splits)
  qed
qed

text \<open>The event in an entry, its type and its bytes; and whether it is all of an event or its first part.\<close>

definition event_of :: "Entry \<Rightarrow> BinlogEvent option" where
  "event_of e =
     (case BinlogEvent_Unmarshal new_BinlogEvent (drop 1 (nil_bytes (EData e))) of Ok ev \<Rightarrow> Some ev | _ \<Rightarrow> None)"

definition ev_type :: "BinlogEvent \<Rightarrow> EventType" where
  "ev_type ev = ucast (ev_Type ev)"

definition ev_bytes :: "BinlogEvent \<Rightarrow> bytes" where
  "ev_bytes ev = nil_bytes (ev_Data ev)"

definition first_part :: "BinlogEvent \<Rightarrow> bool" where
  "first_part ev \<longleftrightarrow> ev_DividedCount ev = 0 \<or> ev_DividedSeqNum ev = 0"

lemma updateProcess_keeps:
  assumes "updateProcess os c i data (p, st) = (Ok (), (p', st'))" "ascending (ms_bucket st)"
  shows "ascending (ms_bucket st')" "map_of (ms_bucket st') RaftClusterKey = map_of (ms_bucket st) RaftClusterKey"
proof -
  have "ascending (ms_bucket st') \<and> map_of (ms_bucket st') RaftClusterKey = map_of (ms_bucket st) RaftClusterKey"
    using updateProcess_store [OF assms(1)] SetBinlogProgress_stores [OF assms(2)] assms(2) cluster_key by auto
  then show "ascending (ms_bucket st')" "map_of (ms_bucket st') RaftClusterKey = map_of (ms_bucket st) RaftClusterKey" by simp_all
qed

lemma applyMySQLBinlogEvent_effect:
  assumes "applyMySQLBinlogEvent env e s = (Ok (), s')" "ascending (ms_bucket (store s))"
  obtains ev p st where "event_of e = Some ev"
    "if first_part ev
     then updateProcess (env_os env) (clock env (Index e)) (Index e) (ev_bytes ev) (binlogProgress s, store s) = (Ok (), (p, st))
     else p = binlogProgress s \<and> st = store s"
    "binlogProgress s' = event_progress (ev_bytes ev) (ev_type ev) p" "keeps state_keys st (store s')" "cluster s' = cluster s"
proof -
  note found = that
  obtain ev where ev: "BinlogEvent_Unmarshal new_BinlogEvent (drop 1 (nil_bytes (EData e))) = Ok ev"
    using assms(1) by (auto simp: applyMySQLBinlogEvent_def fatal_eq_Ok)
  let ?u = "if first_part ev
    then updateProcess (env_os env) (clock env (Index e)) (Index e) (ev_bytes ev) (binlogProgress s, store s)
    else (Ok (), (binlogProgress s, store s))"
  have guard: "(ev_DividedCount ev = 0 \<or> (ev_DividedCount ev \<noteq> 0 \<and> ev_DividedSeqNum ev = 0)) = first_part ev"
    by (auto simp: first_part_def)
  have "fatal ?u (\<lambda>(p, st). s\<lparr>binlogProgress := p, store := st\<rparr>) (\<lambda>_ s.
      if needApply (ev_type ev)
      then fatal (applyBinlogEvent env (ev_bytes ev) (ev_type ev) (Index e) s) (\<lambda>s. s) (\<lambda>_ s. (Ok (), s))
      else (Ok (), s)) = (Ok (), s')"
    using assms(1) unfolding applyMySQLBinlogEvent_def ev fatal_def [of "(Ok ev, _)"] prod.case outcome.case Let_def guard
      ev_type_def ev_bytes_def .
  then obtain p st where u: "?u = (Ok (), (p, st))"
    and r: "(if needApply (ev_type ev)
      then fatal (applyBinlogEvent env (ev_bytes ev) (ev_type ev) (Index e) (s\<lparr>binlogProgress := p, store := st\<rparr>)) (\<lambda>s. s) (\<lambda>_ s. (Ok (), s))
      else (Ok (), s\<lparr>binlogProgress := p, store := st\<rparr>)) = (Ok (), s')"
    unfolding fatal_eq_Ok [of ?u] by auto
  have ev: "event_of e = Some ev" using ev by (simp add: event_of_def)
  have a: "ascending (ms_bucket st)"
    using u assms(2) updateProcess_keeps(1) [of "env_os env" "clock env (Index e)" "Index e" "ev_bytes ev"]
    by (auto split: if_splits)
  have "binlogProgress s' = event_progress (ev_bytes ev) (ev_type ev) p \<and> keeps state_keys st (store s') \<and> cluster s' = cluster s"
  proof (cases "needApply (ev_type ev)")
    case True
    then show ?thesis
      using r applyBinlogEvent_effect [of env "ev_bytes ev" "ev_type ev" "Index e" "s\<lparr>binlogProgress := p, store := st\<rparr>" s'] a
      by (auto simp: fatal_eq_Ok)
  next
    case False
    then show ?thesis using r a by (auto simp: event_progress_def needApply_def keeps_refl)
  qed
  then show ?thesis using found [OF ev, of p st] u by (simp split: if_splits)
qed

lemma reset_store:
  assumes "BinlogProgress_reset os gs (p, st) = (Ok (), (p', st'))"
  shows "st' = st \<or> SetGtidSet os st MySQLFlavor ExecutedGtidSetKey (executedGtidSet p') = (Ok (), st')"
proof (cases "gs = []")
  case False
  then obtain g where "GTIDSet_Update (executedGtidSet p) gs = Some g"
    using assms by (cases "GTIDSet_Update (executedGtidSet p) gs") (simp_all add: BinlogProgress_reset_def Let_def)
  then show ?thesis using assms False by (auto simp: BinlogProgress_reset_def Let_def sbind_eq_Ok)
qed (use assms in \<open>simp add: BinlogProgress_reset_def Let_def\<close>)

lemma applyMasterGtidPurged_effect:
  assumes "applyMasterGtidPurged env e s = (Ok (), s')" "ascending (ms_bucket (store s))"
  obtains gs st where "unmarshal_gtid_purged env (drop 1 (nil_bytes (EData e))) = Some gs" "keeps state_keys (store s) st"
    "BinlogProgress_reset (env_os env) gs (binlogProgress s, st) = (Ok (), (binlogProgress s', store s'))" "cluster s' = cluster s"
proof -
  note found = that
  obtain gs m g st p st' where gs: "unmarshal_gtid_purged env (drop 1 (nil_bytes (EData e))) = Some gs"
    and g: "SetGtidSet (env_os env) (store s) MySQLFlavor GtidPurgedKey (add_missing g m) = (Ok (), st)"
    and r: "BinlogProgress_reset (env_os env) gs (binlogProgress s, st) = (Ok (), (p, st'))"
    and s': "s' = s\<lparr>store := st, binlogProgress := p, store := st'\<rparr>"
    using assms(1) by (auto simp: applyMasterGtidPurged_def fatal_eq_Ok split: option.splits)
  have "keeps state_keys (store s) st" using Set_keeps [OF g [unfolded SetGtidSet_def] assms(2)] by simp
  then show ?thesis using found [OF gs, of st] r s' by simp
qed

text \<open>What an entry is, by the first byte of its data.\<close>

definition entry_kind :: "Entry \<Rightarrow> byte option" where
  "entry_kind e = (if EType e = EntryNormal then (case nil_bytes (EData e) of [] \<Rightarrow> None | t # _ \<Rightarrow> Some t) else None)"

lemmas entry_kinds = MySQLBinlogEventType_def NodeAttributesType_def SyncerArgsType_def MasterInfoType_def MasterGtidPurgedType_def

lemma apply_binlog:
  assumes "apply_entry env e s = (Ok b, s')" "entry_kind e = Some MySQLBinlogEventType"
  obtains s1 where "applyMySQLBinlogEvent env e s = (Ok (), s1)" "s' = applied e (s1\<lparr>broadcasts := broadcasts s1 + 1\<rparr>)" "\<not> b"
  using assms
  by (auto simp: apply_entry_def entry_kind_def applyEntryNormal_def sbind_eq_Ok split: if_splits list.splits)

lemma apply_purged:
  assumes "apply_entry env e s = (Ok b, s')" "entry_kind e = Some MasterGtidPurgedType"
  obtains s1 where "applyMasterGtidPurged env e s = (Ok (), s1)" "s' = applied e s1" "\<not> b"
  using assms
  by (auto simp: apply_entry_def entry_kind_def applyEntryNormal_def sbind_eq_Ok entry_kinds split: if_splits list.splits)

abbreviation progress_keys :: "string set" where
  "progress_keys \<equiv> {AppliedIndexKey, ExecutedKey}"

lemma progress_keys_subset: "keeps state_keys st st' \<Longrightarrow> keeps progress_keys st st'"
  by (rule keeps_subset) (auto simp: state_keys_def)

lemma save_change_keeps:
  assumes "save_change marshal os (c, st) = (Ok (), (c', st'))" "ascending (ms_bucket st)"
  shows "keeps progress_keys st st'"
  using save_change_Ok [OF assms(1)] Set_keeps [OF _ assms(2), of os RaftClusterKey] cluster_key by fastforce

lemma saveConfState_effect:
  assumes "saveConfState env cs s = (Ok (), s')" "ascending (ms_bucket (store s))"
  shows "binlogProgress s' = binlogProgress s" "cluster s' = cluster s" "keeps state_keys (store s) (store s')"
  using assms Set_keeps [OF _ assms(2), of "env_os env" ConfStateKey] keeps_refl [OF assms(2), of state_keys]
  by (auto simp: saveConfState_def fatal_eq_Ok split: option.splits)

text \<open>Adding, removing and changing a member: a change of the cluster, which is saved.\<close>

lemma member_ops_save:
  "AddMember marshal os m (c, st) = (Ok (), cs) \<Longrightarrow>
     save_change marshal os (c\<lparr>MembersMap := AList.update (Member_ID m) m (MembersMap c)\<rparr>, st) = (Ok (), cs)"
  "RemoveMember marshal os i (c, st) = (Ok (), cs) \<Longrightarrow>
     save_change marshal os (c\<lparr>MembersMap := AList.delete i (MembersMap c), RemovedMap := AList.update i True (RemovedMap c)\<rparr>, st) = (Ok (), cs)"
  "UpdateRaftAttributes marshal os i ra (c, st) = (Ok (), cs) \<Longrightarrow>
     \<exists>m. map_of (MembersMap c) i = Some m \<and>
       save_change marshal os (c\<lparr>MembersMap := AList.update i (m\<lparr>PeerURLs := ra_PeerURLs ra\<rparr>) (MembersMap c)\<rparr>, st) = (Ok (), cs)"
  "UpdateAttributes marshal os i attr (c, st) = (Ok (), cs) \<Longrightarrow>
     cs = (c, st) \<or> (\<exists>m. map_of (MembersMap c) i = Some m \<and>
       save_change marshal os (c\<lparr>MembersMap := AList.update i (m\<lparr>Member_Name := attr_Name attr, AdminURLs := attr_AdminURLs attr\<rparr>) (MembersMap c)\<rparr>, st) = (Ok (), cs))"
  by (auto simp: AddMember_def RemoveMember_def UpdateRaftAttributes_def UpdateAttributes_def split: option.splits if_splits)

lemma change_cluster_effect:
  assumes "change_cluster env cc s = (Ok b, s')"
  shows "binlogProgress s' = binlogProgress s \<and> ((cluster s', store s') = (cluster s, store s) \<or>
    (\<exists>c. save_change (marshal_cluster env) (env_os env) (c, store s) = (Ok (), (cluster s', store s'))))"
proof -
  consider "cc_Type cc = ConfChangeAddNode" | "cc_Type cc = ConfChangeRemoveNode" | "cc_Type cc = ConfChangeUpdateNode"
    | "cc_Type cc \<notin> {ConfChangeAddNode, ConfChangeRemoveNode, ConfChangeUpdateNode}" by auto
  then show ?thesis
  proof cases
    case 1
    then show ?thesis
      using assms by (auto simp: change_cluster_def Let_def sbind_eq_Ok split: option.splits if_splits dest!: member_ops_save(1))
  next
    case 2
    then show ?thesis
      using assms by (auto simp: change_cluster_def Let_def sbind_eq_Ok conf_change_types split: if_splits dest!: member_ops_save(2))
  next
    case 3
    then show ?thesis
      using assms by (auto simp: change_cluster_def Let_def sbind_eq_Ok conf_change_types split: option.splits if_splits dest!: member_ops_save(3))
  next
    case 4
    then show ?thesis using assms by (simp add: change_cluster_def Let_def)
  qed
qed

lemma applyConfChange_effect:
  assumes "applyConfChange env cc s = (Ok r, s')" "ascending (ms_bucket (store s))"
  obtains s1 where "keeps state_keys (store s1) (store s')" "binlogProgress s' = binlogProgress s1" "cluster s' = cluster s1"
    "ascending (ms_bucket (store s1))"
    "s1 = s\<lparr>raft_changes := cc\<lparr>NodeID := raft_None\<rparr> # raft_changes s\<rparr> \<or>
     ValidateConfigurationChange (unmarshal_cluster env) (unmarshal_member env) (env_os env) (store s) cc = Ok () \<and>
     change_cluster env cc (s\<lparr>raft_changes := cc # raft_changes s\<rparr>) = (Ok (fst r), s1)"
proof -
  note found = that
  show ?thesis
  proof (cases "ValidateConfigurationChange (unmarshal_cluster env) (unmarshal_member env) (env_os env) (store s) cc")
    case (Ok u)
    then obtain b s1 where s1: "change_cluster env cc (s\<lparr>raft_changes := cc # raft_changes s\<rparr>) = (Ok b, s1)"
      "saveConfState env (raft_conf env (cc # raft_changes s)) s1 = (Ok (), s')" "r = (b, None)"
      using assms(1) by (auto simp: applyConfChange_def ApplyConfChange_def Let_def sbind_eq_Ok)
    have "ascending (ms_bucket (store s1))"
      using change_cluster_effect [OF s1(1)] save_change_keeps [OF _ assms(2), THEN keepsD(1)] assms(2) by auto
    then show ?thesis using found [of s1] saveConfState_effect [OF s1(2)] s1(1,3) Ok by auto
  next
    case (Err x)
    let ?s = "s\<lparr>raft_changes := cc\<lparr>NodeID := raft_None\<rparr> # raft_changes s\<rparr>"
    have "saveConfState env (raft_conf env (cc\<lparr>NodeID := raft_None\<rparr> # raft_changes s)) ?s = (Ok (), s')"
      using assms(1) Err by (auto simp: applyConfChange_def ApplyConfChange_def Let_def sbind_eq_Ok)
    then show ?thesis using found [of ?s] saveConfState_effect [of env _ ?s s'] assms(2) by auto
  qed (use assms(1) in \<open>simp add: applyConfChange_def\<close>)
qed

lemma apply_other:
  assumes "apply_entry env e s = (Ok b, s')" "ascending (ms_bucket (store s))"
    and "entry_kind e \<noteq> Some MySQLBinlogEventType" "entry_kind e \<noteq> Some MasterGtidPurgedType"
  shows "binlogProgress s' = binlogProgress s \<and> keeps progress_keys (store s) (store s')"
proof (cases "EType e = EntryNormal")
  case True
  note r = keeps_refl [OF assms(2), of progress_keys] and k = Set_keeps [OF _ assms(2), THEN progress_keys_subset]
  obtain s1 where s1: "applyEntryNormal env e s = (Ok (), s1)" "s' = applied e s1"
    using assms(1) True by (auto simp: apply_entry_def sbind_eq_Ok)
  have "binlogProgress s1 = binlogProgress s \<and> keeps progress_keys (store s) (store s1)"
  proof (cases "nil_bytes (EData e)")
    case (Cons t d)
    consider "t = NodeAttributesType" "applyNodeAttributes env e s = (Ok (), s1)"
      | "t = SyncerArgsType" "applySyncerArgs env e s = (Ok (), s1)" | "t = MasterInfoType" "applyMasterInfo env e s = (Ok (), s1)"
      using s1(1) Cons True assms(3,4) by (auto simp: applyEntryNormal_def entry_kind_def split: if_splits)
    then show ?thesis
    proof cases
      case 1
      then show ?thesis
        using r save_change_keeps [OF _ assms(2)]
        by (auto simp: applyNodeAttributes_def sbind_eq_Ok split: option.splits dest!: member_ops_save(4))
    qed (use k in \<open>auto simp: applySyncerArgs_def applyMasterInfo_def fatal_eq_Ok Let_def split: if_splits\<close>)
  qed (use s1(1) r in \<open>simp add: applyEntryNormal_def\<close>)
  then show ?thesis using s1(2) by (simp add: applied_def)
next
  case False
  then obtain cc r s1 where cc: "applyConfChange env cc s = (Ok r, s1)" and s': "binlogProgress s' = binlogProgress s1" "store s' = store s1"
    using assms(1) by (auto simp: apply_entry_def fatal_eq_Ok sbind_eq_Ok Let_def applied_def split: if_splits)
  obtain s2 where s2: "keeps state_keys (store s2) (store s1)" "binlogProgress s1 = binlogProgress s2"
    "s2 = s\<lparr>raft_changes := cc\<lparr>NodeID := raft_None\<rparr> # raft_changes s\<rparr> \<or>
     change_cluster env cc (s\<lparr>raft_changes := cc # raft_changes s\<rparr>) = (Ok (fst r), s2)"
    by (rule applyConfChange_effect [OF cc assms(2)]) blast
  have "binlogProgress s2 = binlogProgress s \<and> keeps progress_keys (store s) (store s2)"
    using s2(3) change_cluster_effect [of env cc "s\<lparr>raft_changes := cc # raft_changes s\<rparr>" _ s2] save_change_keeps [OF _ assms(2)]
      keeps_refl [OF assms(2), of progress_keys]
    by auto
  then show ?thesis using s2(1,2) s' progress_keys_subset keeps_trans by metis
qed

section \<open>Applying an entry twice\<close>

text \<open>
  Two servers that apply the same entry, with different clocks, disks and answers of the raft node, but which read
  the purged GTIDs in an entry alike: their progresses stay in agreement.
\<close>

lemma event_progress_agrees: "agrees X p q \<Longrightarrow> agrees X (event_progress d t p) (event_progress d t q)"
proof -
  have "agrees X (p\<lparr>lastBinlogFile := f\<rparr>) (q\<lparr>lastBinlogFile := f\<rparr>) = agrees X p q" for f
    by (simp add: agrees_def progress_ok_def executed_def open_gtid_def)
  then show "agrees X p q \<Longrightarrow> ?thesis" using currentGtid_agrees gtid_text_not_Nil by (simp add: event_progress_def)
qed

lemma applyMySQLBinlogEvent_agrees:
  assumes "applyMySQLBinlogEvent env e s = (Ok (), s')" "applyMySQLBinlogEvent env' e r = (Ok (), r')"
    and "ascending (ms_bucket (store s))" "ascending (ms_bucket (store r))" "agrees X (binlogProgress s) (binlogProgress r)"
  shows "agrees X (binlogProgress s') (binlogProgress r')"
proof -
  obtain ev p st where p: "event_of e = Some ev" "if first_part ev
     then updateProcess (env_os env) (clock env (Index e)) (Index e) (ev_bytes ev) (binlogProgress s, store s) = (Ok (), (p, st))
     else p = binlogProgress s \<and> st = store s" "binlogProgress s' = event_progress (ev_bytes ev) (ev_type ev) p"
    by (rule applyMySQLBinlogEvent_effect [OF assms(1,3)])
  obtain ev' q ut where q: "event_of e = Some ev'" "if first_part ev'
     then updateProcess (env_os env') (clock env' (Index e)) (Index e) (ev_bytes ev') (binlogProgress r, store r) = (Ok (), (q, ut))
     else q = binlogProgress r \<and> ut = store r" "binlogProgress r' = event_progress (ev_bytes ev') (ev_type ev') q"
    by (rule applyMySQLBinlogEvent_effect [OF assms(2,4)])
  have ev: "ev' = ev" using p(1) q(1) by simp
  have "agrees X p q"
  proof (cases "first_part ev")
    case True
    then show ?thesis using updateProcess_agrees [OF assms(5)] p(2) q(2) ev by auto
  next
    case False
    then show ?thesis using assms(5) p(2) q(2) ev by simp
  qed
  then show ?thesis using event_progress_agrees p(3) q(3) ev by simp
qed

lemma apply_entry_agrees:
  assumes s: "apply_entry env e s = (Ok b, s')" "ascending (ms_bucket (store s))"
    and r: "apply_entry env' e r = (Ok c, r')" "ascending (ms_bucket (store r))"
    and ag: "agrees X (binlogProgress s) (binlogProgress r)" and env: "unmarshal_gtid_purged env' = unmarshal_gtid_purged env"
  shows "agrees X (binlogProgress s') (binlogProgress r')"
proof -
  consider "entry_kind e = Some MySQLBinlogEventType" | "entry_kind e = Some MasterGtidPurgedType"
    | "entry_kind e \<noteq> Some MySQLBinlogEventType" "entry_kind e \<noteq> Some MasterGtidPurgedType" by blast
  then show ?thesis
  proof cases
    case 1
    obtain s1 r1 where 2: "applyMySQLBinlogEvent env e s = (Ok (), s1)" "s' = applied e (s1\<lparr>broadcasts := broadcasts s1 + 1\<rparr>)"
      "applyMySQLBinlogEvent env' e r = (Ok (), r1)" "r' = applied e (r1\<lparr>broadcasts := broadcasts r1 + 1\<rparr>)"
      using apply_binlog [OF s(1) 1] apply_binlog [OF r(1) 1] by metis
    show ?thesis using applyMySQLBinlogEvent_agrees [OF 2(1,3) s(2) r(2) ag] 2(2,4) by (simp add: applied_def)
  next
    case 2
    obtain s1 where s1: "applyMasterGtidPurged env e s = (Ok (), s1)" "s' = applied e s1" by (rule apply_purged [OF s(1) 2])
    obtain r1 where r1: "applyMasterGtidPurged env' e r = (Ok (), r1)" "r' = applied e r1" by (rule apply_purged [OF r(1) 2])
    obtain gs st where gs: "unmarshal_gtid_purged env (drop 1 (nil_bytes (EData e))) = Some gs"
      "BinlogProgress_reset (env_os env) gs (binlogProgress s, st) = (Ok (), (binlogProgress s1, store s1))"
      by (rule applyMasterGtidPurged_effect [OF s1(1) s(2)])
    obtain gs' ut where gs': "unmarshal_gtid_purged env' (drop 1 (nil_bytes (EData e))) = Some gs'"
      "BinlogProgress_reset (env_os env') gs' (binlogProgress r, ut) = (Ok (), (binlogProgress r1, store r1))"
      by (rule applyMasterGtidPurged_effect [OF r1(1) r(2)])
    have "gs' = gs" using gs(1) gs'(1) env by simp
    then show ?thesis using reset_agrees [OF ag gs(2)] gs'(2) s1(2) r1(2) by (simp add: applied_def)
  next
    case 3
    then show ?thesis using apply_other [OF s 3] apply_other [OF r 3] ag by simp
  qed
qed

lemma apply_entry_ascending:
  assumes "apply_entry env e s = (Ok b, s')" "ascending (ms_bucket (store s))"
  shows "ascending (ms_bucket (store s'))"
proof -
  consider "entry_kind e = Some MySQLBinlogEventType" | "entry_kind e = Some MasterGtidPurgedType"
    | "entry_kind e \<noteq> Some MySQLBinlogEventType" "entry_kind e \<noteq> Some MasterGtidPurgedType" by blast
  then show ?thesis
  proof cases
    case 1
    obtain s1 where s1: "applyMySQLBinlogEvent env e s = (Ok (), s1)" "s' = applied e (s1\<lparr>broadcasts := broadcasts s1 + 1\<rparr>)"
      by (rule apply_binlog [OF assms(1) 1])
    have "ascending (ms_bucket (store s1))"
      by (rule applyMySQLBinlogEvent_effect [OF s1(1) assms(2)]) (rule keepsD(1))
    then show ?thesis using s1(2) by (simp add: applied_def)
  next
    case 2
    obtain s1 where s1: "applyMasterGtidPurged env e s = (Ok (), s1)" "s' = applied e s1" by (rule apply_purged [OF assms(1) 2])
    obtain gs st where st: "keeps state_keys (store s) st"
      "BinlogProgress_reset (env_os env) gs (binlogProgress s, st) = (Ok (), (binlogProgress s1, store s1))"
      by (rule applyMasterGtidPurged_effect [OF s1(1) assms(2)])
    have "ascending (ms_bucket (store s1))"
      using reset_store [OF st(2)] Set_stores(3) [OF keepsD(1) [OF st(1)]] keepsD(1) [OF st(1)]
      unfolding SetGtidSet_def by metis
    then show ?thesis using s1(2) by (simp add: applied_def)
  next
    case 3
    then show ?thesis using apply_other [OF assms 3] keepsD(1) by blast
  qed
qed

lemma apply_loop_agrees:
  assumes "apply_loop env x es s = (Ok b, s')" "ascending (ms_bucket (store s))"
    and "apply_loop env' y es r = (Ok c, r')" "ascending (ms_bucket (store r))"
    and "agrees X (binlogProgress s) (binlogProgress r)" "unmarshal_gtid_purged env' = unmarshal_gtid_purged env"
  shows "agrees X (binlogProgress s') (binlogProgress r')"
  using assms
proof (induction es arbitrary: x y s r)
  case (Cons e es)
  obtain b1 s1 where s1: "apply_entry env e s = (Ok b1, s1)" "apply_loop env (x \<or> b1) es s1 = (Ok b, s')"
    using Cons.prems(1) by (auto simp: sbind_eq_Ok)
  obtain c1 r1 where r1: "apply_entry env' e r = (Ok c1, r1)" "apply_loop env' (y \<or> c1) es r1 = (Ok c, r')"
    using Cons.prems(3) by (auto simp: sbind_eq_Ok)
  show ?case
    by (rule Cons.IH [OF s1(2) apply_entry_ascending [OF s1(1) Cons.prems(2)] r1(2) apply_entry_ascending [OF r1(1) Cons.prems(4)]
          apply_entry_agrees [OF s1(1) Cons.prems(2) r1(1) Cons.prems(4,5,6)] Cons.prems(6)])
qed simp

end
