(* ===== verification/Binlog_Syncer.thy ===== *)
theory Binlog_Syncer
  imports Mysql_Packet Server_Apply
begin

text \<open>
  The syncer, which takes part in the replication of a MySQL master as a slave: \<^verbatim>\<open>src/server/binlog_syncer.go\<close> with the
  arguments of \<^verbatim>\<open>src/config/server_config.go\<close>. The two channels are the lists of what was sent to them. The
  master is a parameter: what the driver answers to the \<open>k\<close>-th call. \<open>quits\<close> says for every send
  whether the \<^verbatim>\<open>select\<close> takes the branch of the cancelled context instead.
\<close>

section \<open>Arguments\<close>

record SyncerArgs =
  SyncerID :: int
  SynerUUID :: string
  MysqlAddr :: string
  MysqlUser :: string
  MysqlPassword :: string
  SemiSync :: bool

definition SyncerArgs_Check :: "SyncerArgs \<Rightarrow> bool" where
  "SyncerArgs_Check s \<longleftrightarrow> \<not> (SyncerID s < 0 \<or> MysqlAddr s = [] \<or> MysqlUser s = [] \<or> SynerUUID s = [])"

text \<open>The three \<^verbatim>\<open>EncodeWithType\<close>, with \<^verbatim>\<open>json.Marshal\<close> as a parameter.\<close>

definition SyncerArgs_EncodeWithType :: "(SyncerArgs \<Rightarrow> bytes option) \<Rightarrow> SyncerArgs \<Rightarrow> bytes option" where
  "SyncerArgs_EncodeWithType marshal s = map_option (\<lambda>buf. SyncerArgsType # buf) (marshal s)"

definition Attributes_EncodeWithType :: "(ID \<times> Attributes \<Rightarrow> bytes option) \<Rightarrow> ID \<times> Attributes \<Rightarrow> bytes option" where
  "Attributes_EncodeWithType marshal a = map_option (\<lambda>buf. NodeAttributesType # buf) (marshal a)"

definition MasterGtidPurged_EncodeWithType :: "(string \<Rightarrow> bytes option) \<Rightarrow> string \<Rightarrow> bytes option" where
  "MasterGtidPurged_EncodeWithType marshal gtidPurged = map_option (\<lambda>buf. MasterGtidPurgedType # buf) (marshal gtidPurged)"

text \<open>The configuration of the driver; durations are in nanoseconds.\<close>

record SyncerConfig =
  cfg_ServerID :: u32
  cfg_ServerUuid :: string
  cfg_Flavor :: string
  cfg_Host :: string
  cfg_Port :: u16
  cfg_User :: string
  cfg_Password :: string
  cfg_Charset :: string
  cfg_SemiSyncEnabled :: bool
  cfg_RawModeEnabled :: bool
  cfg_ParseTime :: bool
  cfg_UseDecimal :: bool
  cfg_RecvBufferSize :: int
  cfg_HeartbeatPeriod :: int
  cfg_ReadTimeout :: int
  cfg_MaxReconnectAttempts :: int
  cfg_VerifyChecksum :: bool
  cfg_MaxEventBytes :: nat

definition MaxRequestBytes :: nat where "MaxRequestBytes = 20 * 1024 * 1024"

text \<open>\<^verbatim>\<open>strconv.ParseInt(s, 10, 32)\<close>.\<close>

definition ParseInt32 :: "string \<Rightarrow> int option" where
  "ParseInt32 s = (case ParseInt s of (v, ok) \<Rightarrow> if ok \<and> - (2 ^ 31) \<le> v \<and> v < 2 ^ 31 then Some v else None)"

definition NewSyncerConfig :: "SyncerArgs \<Rightarrow> (storage_error, SyncerConfig) outcome" where
  "NewSyncerConfig args =
     (case Split (CHR '':'') (MysqlAddr args) of
        host # p # _ \<Rightarrow>
          (case ParseInt32 p of
             None \<Rightarrow> Err ErrArgsIllegal
           | Some port \<Rightarrow>
               if port < 1 \<or> 65535 < port then Err ErrArgsIllegal
               else Ok \<lparr>cfg_ServerID = of_int (SyncerID args), cfg_ServerUuid = SynerUUID args, cfg_Flavor = MySQLFlavor,
                        cfg_Host = host, cfg_Port = of_int port, cfg_User = MysqlUser args,
                        cfg_Password = MysqlPassword args, cfg_Charset = ''utf8'', cfg_SemiSyncEnabled = SemiSync args,
                        cfg_RawModeEnabled = False, cfg_ParseTime = False, cfg_UseDecimal = True, cfg_RecvBufferSize = 0,
                        cfg_HeartbeatPeriod = 10 * 10 ^ 9, cfg_ReadTimeout = 20 * 10 ^ 9, cfg_MaxReconnectAttempts = 3,
                        cfg_VerifyChecksum = True, cfg_MaxEventBytes = MaxRequestBytes\<rparr>)
      | _ \<Rightarrow> Crash)"

record BinlogServerConfig =
  Addr :: string
  bs_User :: string
  bs_Password :: string

definition BinlogServerConfig_Check :: "BinlogServerConfig \<Rightarrow> string \<Rightarrow> bool" where
  "BinlogServerConfig_Check s kingbusIP \<longleftrightarrow>
     \<not> (Addr s = [] \<or> bs_User s = [] \<or> bs_Password s = []) \<and> hd (Split (CHR '':'') (Addr s)) = kingbusIP"

section \<open>Dividing an event\<close>

text \<open>\<^verbatim>\<open>replication.BinlogEvent\<close>: the raw bytes and the decoded header.\<close>

record MasterEvent =
  RawData :: bytes
  me_Header :: EventHeader

text \<open>The loop of \<^verbatim>\<open>divideBinlogEvent\<close> from round \<open>i\<close> on, with \<open>k\<close> rounds to go.\<close>

primrec divide_loop :: "(nat \<Rightarrow> bytes \<Rightarrow> BinlogEvent) \<Rightarrow> bytes \<Rightarrow> nat \<Rightarrow> nat \<Rightarrow> nat \<Rightarrow> (storage_error, BinlogEvent list) outcome" where
  "divide_loop newEvent raw 0 i pos = Ok []"
| "divide_loop newEvent raw (Suc k) i pos =
     (let maxEventDataSize = (if i = 0 then MaxPayloadLen - 1 else MaxPayloadLen)
      in if length raw < pos then Crash
         else
           let data = (if pos + maxEventDataSize < length raw then take maxEventDataSize (drop pos raw) else drop pos raw)
           in obind (divide_loop newEvent raw k (i + 1) (pos + maxEventDataSize)) (\<lambda>es. Ok (newEvent i data # es)))"

definition divided_count :: "nat \<Rightarrow> u32" where
  "divided_count srcEventLength =
     of_nat ((srcEventLength + OKHeaderByte) div MaxPayloadLen) + (if srcEventLength mod MaxPayloadLen \<noteq> 0 then 1 else 0)"

definition divideBinlogEvent :: "MasterEvent \<Rightarrow> (storage_error, BinlogEvent list) outcome" where
  "divideBinlogEvent srcEvent =
     (let dividedCount = divided_count (length (RawData srcEvent));
          newEvent = (\<lambda>i data.
            \<lparr>ev_Type = ucast (h_EventType (me_Header srcEvent)), ev_Flavor = FlavorType_MySQL, ev_DividedCount = dividedCount,
             ev_DividedSeqNum = of_nat i, ev_Data = Some data, ev_XXX_unrecognized = []\<rparr>)
      in divide_loop newEvent (RawData srcEvent) (unat dividedCount) 0 0)"

section \<open>The syncer\<close>

record Syncer =
  sy_started :: bool
  sy_cfg :: SyncerConfig
  conn :: bool
  calls :: nat
  sends :: nat
  binlogEventC :: "BinlogEvent list"
  dataC :: "bytes list"

text \<open>The driver: connecting gives an error text or none; a statement gives an error text or the first column of the
  first row of its result, if there is one. The number is that of the calls made before.\<close>

record driver =
  Connect :: "nat \<Rightarrow> string option"
  Exec :: "nat \<Rightarrow> string \<Rightarrow> (string, string option) outcome"

definition NewSyncer :: "SyncerConfig \<Rightarrow> Syncer" where
  "NewSyncer cfg = \<lparr>sy_started = False, sy_cfg = cfg, conn = False, calls = 0, sends = 0, binlogEventC = [], dataC = []\<rparr>"

definition send_data :: "(nat \<Rightarrow> bool) \<Rightarrow> bytes \<Rightarrow> Syncer \<Rightarrow> Syncer" where
  "send_data quits data s = s\<lparr>sends := sends s + 1, dataC := (if quits (sends s) then dataC s else dataC s @ [data])\<rparr>"

definition send_event :: "(nat \<Rightarrow> bool) \<Rightarrow> BinlogEvent \<Rightarrow> Syncer \<Rightarrow> Syncer" where
  "send_event quits e s =
     s\<lparr>sends := sends s + 1, binlogEventC := (if quits (sends s) then binlogEventC s else binlogEventC s @ [e])\<rparr>"

definition ErrBadConn_text :: string where
  "ErrBadConn_text = ''mysql:connection was bad''"

text \<open>\<^verbatim>\<open>gomysql.ErrorEqual\<close> on the texts of two errors.\<close>

definition ErrorEqual :: "string \<Rightarrow> string \<Rightarrow> bool" where
  "ErrorEqual e1 e2 \<longleftrightarrow> e1 = e2"

primrec Execute_loop :: "driver \<Rightarrow> string \<Rightarrow> nat \<Rightarrow> (string, string option) outcome \<Rightarrow> Syncer \<Rightarrow> (string, string option) outcome \<times> Syncer" where
  "Execute_loop db cmd 0 r s = (r, s)"
| "Execute_loop db cmd (Suc n) r s =
     (case (if conn s then None else Connect db (calls s)) of
        Some err \<Rightarrow> (Err err, s\<lparr>calls := calls s + 1\<rparr>)
      | None \<Rightarrow>
          let s = (if conn s then s else s\<lparr>calls := calls s + 1, conn := True\<rparr>);
              r = Exec db (calls s) cmd;
              s = s\<lparr>calls := calls s + 1\<rparr>
          in (case r of
                Err err \<Rightarrow>
                  if ErrorEqual err ErrBadConn_text then Execute_loop db cmd n r (s\<lparr>conn := False\<rparr>) else (r, s)
              | _ \<Rightarrow> (r, s)))"

definition Execute :: "driver \<Rightarrow> string \<Rightarrow> Syncer \<Rightarrow> (string, string option) outcome \<times> Syncer" where
  "Execute db cmd s = Execute_loop db cmd 3 (Ok None) s"

text \<open>A statement and the value it selects.\<close>

definition select_string :: "driver \<Rightarrow> string \<Rightarrow> Syncer \<Rightarrow> (string, string) outcome \<times> Syncer" where
  "select_string db cmd s =
     sbind (Execute db cmd s) (\<lambda>s. s) (\<lambda>cell s. (case cell of None \<Rightarrow> (Err ''invalid row index'', s) | Some v \<Rightarrow> (Ok v, s)))"

definition getMasterGtidPurged :: "driver \<Rightarrow> Syncer \<Rightarrow> (string, string) outcome \<times> Syncer" where
  "getMasterGtidPurged db s = select_string db ''SELECT @@gtid_purged'' s"

definition proposeMasterGtidPurged ::
    "(string \<Rightarrow> bytes option) \<Rightarrow> (nat \<Rightarrow> bool) \<Rightarrow> string \<Rightarrow> Syncer \<Rightarrow> (string, unit) outcome \<times> Syncer" where
  "proposeMasterGtidPurged marshal quits gtidPurged s =
     (case MasterGtidPurged_EncodeWithType marshal gtidPurged of
        None \<Rightarrow> (Err ''json'', s)
      | Some data \<Rightarrow> (Ok (), send_data quits data s))"

definition preCheck :: "driver \<Rightarrow> Syncer \<Rightarrow> (string, unit) outcome \<times> Syncer" where
  "preCheck db s =
     sbind (Execute db ''SELECT @@gtid_mode'' s) (\<lambda>s. s) (\<lambda>mode s.
       if mode \<noteq> Some ''ON'' then (Err ''apply unsupport event type'', s)
       else sbind (Execute db ''SELECT @@binlog_format;'' s) (\<lambda>s. s) (\<lambda>f s.
         if f \<noteq> Some ''ROW'' then (Err ''apply unsupport event type'', s) else (Ok (), s)))"

text \<open>\<^verbatim>\<open>ServerID\<close> is an \<^verbatim>\<open>int32\<close>, here as its bits.\<close>

record MasterInfo =
  mi_ServerID :: u32
  mi_ServerUUID :: string
  mi_Version :: string

definition EncodeMasterInfo :: "(MasterInfo \<Rightarrow> bytes option) \<Rightarrow> MasterInfo \<Rightarrow> bytes option" where
  "EncodeMasterInfo marshal m = map_option (\<lambda>data. MasterInfoType # data) (marshal m)"

definition Syncer_GetMasterInfo ::
    "driver \<Rightarrow> (MasterInfo \<Rightarrow> bytes option) \<Rightarrow> (nat \<Rightarrow> bool) \<Rightarrow> Syncer \<Rightarrow> (string, unit) outcome \<times> Syncer" where
  "Syncer_GetMasterInfo db marshal quits s =
     sbind (select_string db ''SELECT @@GLOBAL.SERVER_ID;'' s) (\<lambda>s. s) (\<lambda>v s.
       case ParseUint v of
         None \<Rightarrow> (Err ''invalid syntax'', s)
       | Some serverID \<Rightarrow>
           sbind (select_string db ''SELECT @@GLOBAL.SERVER_UUID;'' s) (\<lambda>s. s) (\<lambda>serverUUID s.
           sbind (select_string db ''SELECT VERSION();'' s) (\<lambda>s. s) (\<lambda>version s.
             case EncodeMasterInfo marshal \<lparr>mi_ServerID = ucast serverID, mi_ServerUUID = serverUUID, mi_Version = version\<rparr> of
               None \<Rightarrow> (Err ''json'', s)
             | Some data \<Rightarrow> (Ok (), send_data quits data s))))"

definition proposeBinlogEvent ::
    "(nat \<Rightarrow> bool) \<Rightarrow> MasterEvent \<Rightarrow> Syncer \<Rightarrow> (Syncer, unit) res" where
  "proposeBinlogEvent quits event s =
     (if EventSize (me_Header event) + of_nat OKHeaderByte < of_nat MaxPayloadLen then
        let newEvent = \<lparr>ev_Type = ucast (h_EventType (me_Header event)),
              ev_Flavor = (if cfg_Flavor (sy_cfg s) = MySQLFlavor then FlavorType_MySQL else FlavorType_Maria),
              ev_DividedCount = 0, ev_DividedSeqNum = 0, ev_Data = Some (RawData event), ev_XXX_unrecognized = []\<rparr>
        in (Ok (), send_event quits newEvent s)
      else
        sbind (divideBinlogEvent event, s) (\<lambda>s. s) (\<lambda>divideEvents s. (Ok (), fold (send_event quits) divideEvents s)))"

text \<open>Starting: \<open>sync\<close> says whether \<^verbatim>\<open>StartSyncGTID\<close> returns no error.\<close>

definition Syncer_Start ::
    "driver \<Rightarrow> (MasterInfo \<Rightarrow> bytes option) \<Rightarrow> (nat \<Rightarrow> bool) \<Rightarrow> bool \<Rightarrow> Syncer \<Rightarrow> (string, unit) outcome \<times> Syncer" where
  "Syncer_Start db marshal quits sync s =
     sbind (preCheck db s) (\<lambda>s. s) (\<lambda>_ s.
     sbind (Syncer_GetMasterInfo db marshal quits s) (\<lambda>s. s) (\<lambda>_ s.
       if \<not> sync then (Err ''StartSyncGTID'', s) else (Ok (), s\<lparr>sy_started := True\<rparr>)))"

text \<open>\<^verbatim>\<open>Stop\<close> closes the connection that it takes to be there.\<close>

definition Syncer_Stop :: "Syncer \<Rightarrow> (Syncer, unit) res" where
  "Syncer_Stop s =
     (if \<not> sy_started s then (Ok (), s)
      else if \<not> conn s then (Crash, s\<lparr>sy_started := False\<rparr>)
      else (Ok (), s\<lparr>sy_started := False, conn := False\<rparr>))"

text \<open>The goroutine of \<^verbatim>\<open>Start\<close>: what \<^verbatim>\<open>GetEvent\<close> gives in every round, an event or an error.\<close>

fun sync_loop :: "(nat \<Rightarrow> bool) \<Rightarrow> MasterEvent option list \<Rightarrow> Syncer \<Rightarrow> (Syncer, unit) res" where
  "sync_loop quits [] s = (Ok (), s)"
| "sync_loop quits (None # evs) s = (if sy_started s then Syncer_Stop s else (Ok (), s))"
| "sync_loop quits (Some event # evs) s =
     (if \<not> sy_started s then (Ok (), s)
      else if h_EventType (me_Header event) = HEARTBEAT_EVENT then sync_loop quits evs s
      else (case proposeBinlogEvent quits event s of
              (Ok _, s) \<Rightarrow> sync_loop quits evs s
            | (_, s) \<Rightarrow> (Crash, s)))"

section \<open>The parts of a divided event\<close>

lemma divide_loop_parts:
  assumes "0 < k \<Longrightarrow> pos + (k - 1) * MaxPayloadLen \<le> length raw" "0 < i"
  shows "divide_loop f raw k i pos =
    Ok (map (\<lambda>j. f (i + j) (take MaxPayloadLen (drop (pos + j * MaxPayloadLen) raw))) [0..<k])"
  using assms
proof (induction k arbitrary: i pos)
  case (Suc k)
  have "divide_loop f raw k (i + 1) (pos + MaxPayloadLen) =
      Ok (map (\<lambda>j. f (i + 1 + j) (take MaxPayloadLen (drop (pos + MaxPayloadLen + j * MaxPayloadLen) raw))) [0..<k])"
    using Suc.prems by (intro Suc.IH) (cases k, simp_all add: algebra_simps)
  moreover have "(if pos + MaxPayloadLen < length raw then take MaxPayloadLen (drop pos raw) else drop pos raw) =
      take MaxPayloadLen (drop pos raw)" by simp
  moreover have "[0..<Suc k] = 0 # map Suc [0..<k]" by (simp add: upt_conv_Cons map_Suc_upt del: upt_Suc)
  moreover have "pos \<le> length raw" using Suc.prems(1) by simp
  ultimately show ?case using Suc.prems(2) by (simp add: Let_def algebra_simps comp_def)
qed simp

lemma concat_divided:
  "concat (map (\<lambda>j. take m (drop (pos + j * m) xs)) [0..<k]) = take (k * m) (drop pos xs)"
proof (induction k)
  case (Suc k)
  then show ?case using take_add [of "k * m" m "drop pos xs"] by (simp add: algebra_simps)
qed simp

lemma divided_count_value:
  assumes "n < 2 ^ 32"
  shows "unat (divided_count n) = (n + 1) div MaxPayloadLen + (if n mod MaxPayloadLen = 0 then 0 else 1)"
proof -
  let ?q = "(n + 1) div MaxPayloadLen"
  have "?q \<le> n + 1" by (rule div_le_dividend)
  have "?q * MaxPayloadLen \<le> n + 1" by (rule div_times_less_eq_dividend)
  then have "?q * 4 \<le> n + 1" using MaxPayloadLen_bounds(1) by (meson le_trans less_imp_le_nat mult_le_mono2)
  then have b: "?q + 1 < 2 ^ 32" using assms by simp
  have c: "divided_count n = of_nat (?q + (if n mod MaxPayloadLen = 0 then 0 else 1))"
    by (simp add: divided_count_def OKHeaderByte_def)
  show ?thesis unfolding c using b by (subst unat_of_nat) (simp add: take_bit_nat_eq_self)
qed

lemma divided_count_covers:
  assumes "n < 2 ^ 32" "MaxPayloadLen \<le> n + 1"
  shows "0 < unat (divided_count n)" "(unat (divided_count n) - 1) * MaxPayloadLen \<le> n + 1"
    "n mod MaxPayloadLen \<noteq> 0 \<Longrightarrow> n < unat (divided_count n) * MaxPayloadLen"
    "n mod MaxPayloadLen = 0 \<Longrightarrow> unat (divided_count n) * MaxPayloadLen = n"
proof -
  let ?q = "(n + 1) div MaxPayloadLen" and ?c = "unat (divided_count n)"
  note c = divided_count_value [OF assms(1)]
  have q: "0 < ?q" using assms(2) MaxPayloadLen_bounds(1) by (simp add: div_greater_zero_iff)
  then show "0 < ?c" using c by simp
  have le: "?q * MaxPayloadLen \<le> n + 1" by (rule div_times_less_eq_dividend)
  have "(?c - 1) * MaxPayloadLen \<le> ?q * MaxPayloadLen" unfolding c by (intro mult_le_mono1) simp
  then show "(?c - 1) * MaxPayloadLen \<le> n + 1" using le by (rule le_trans)
  have "n + 1 < (?q + 1) * MaxPayloadLen" using MaxPayloadLen_bounds(1) dividend_less_div_times [of MaxPayloadLen "n + 1"] by simp
  then show "n < ?c * MaxPayloadLen" if "n mod MaxPayloadLen \<noteq> 0" using that c by simp
  show "?c * MaxPayloadLen = n" if z: "n mod MaxPayloadLen = 0"
  proof -
    obtain m where m: "n = MaxPayloadLen * m" using mod_0_imp_dvd [OF z] unfolding dvd_def by blast
    have "(MaxPayloadLen * m + 1) div MaxPayloadLen = m" using MaxPayloadLen_bounds(1) by (intro div_nat_eqI) simp_all
    then show ?thesis using c z m by simp
  qed
qed

text \<open>Part \<open>i\<close> of an event.\<close>

definition part_data :: "MasterEvent \<Rightarrow> nat \<Rightarrow> bytes" where
  "part_data e i =
     (if i = 0 then take (MaxPayloadLen - 1) (RawData e) else take MaxPayloadLen (drop (i * MaxPayloadLen - 1) (RawData e)))"

definition event_part :: "MasterEvent \<Rightarrow> nat \<Rightarrow> BinlogEvent" where
  "event_part e i =
     \<lparr>ev_Type = ucast (h_EventType (me_Header e)), ev_Flavor = FlavorType_MySQL,
      ev_DividedCount = divided_count (length (RawData e)), ev_DividedSeqNum = of_nat i, ev_Data = Some (part_data e i),
      ev_XXX_unrecognized = []\<rparr>"

abbreviation part_count :: "MasterEvent \<Rightarrow> nat" where
  "part_count e \<equiv> unat (divided_count (length (RawData e)))"

lemma divideBinlogEvent_parts:
  assumes "length (RawData e) < 2 ^ 32" "MaxPayloadLen \<le> length (RawData e) + 1"
  shows "divideBinlogEvent e = Ok (map (event_part e) [0..<part_count e])"
proof -
  let ?raw = "RawData e"
  define f where "f = (\<lambda>i data.
    \<lparr>ev_Type = ucast (h_EventType (me_Header e)), ev_Flavor = FlavorType_MySQL, ev_DividedCount = divided_count (length ?raw),
     ev_DividedSeqNum = of_nat i, ev_Data = Some data, ev_XXX_unrecognized = []\<rparr> :: BinlogEvent)"
  note c = divided_count_covers [OF assms]
  obtain k where k: "part_count e = Suc k" using c(1) gr0_implies_Suc by blast
  have "divide_loop f ?raw k 1 (MaxPayloadLen - 1) =
      Ok (map (\<lambda>j. f (1 + j) (take MaxPayloadLen (drop (MaxPayloadLen - 1 + j * MaxPayloadLen) ?raw))) [0..<k])"
    using c(2) k MaxPayloadLen_bounds(1) by (intro divide_loop_parts) (cases k, auto)
  moreover have "(if MaxPayloadLen - 1 < length ?raw then take (MaxPayloadLen - 1) ?raw else ?raw) = take (MaxPayloadLen - 1) ?raw" by simp
  ultimately have "divide_loop f ?raw (Suc k) 0 0 = Ok (f 0 (part_data e 0) # map (\<lambda>j. f (Suc j) (part_data e (Suc j))) [0..<k])"
    using MaxPayloadLen_bounds(1) by (simp add: part_data_def Let_def)
  moreover have "map (event_part e) [0..<Suc k] = f 0 (part_data e 0) # map (\<lambda>j. f (Suc j) (part_data e (Suc j))) [0..<k]"
    by (simp add: event_part_def f_def upt_conv_Cons comp_def flip: map_Suc_upt del: upt_Suc)
  ultimately show ?thesis unfolding divideBinlogEvent_def Let_def k f_def by simp
qed

lemma divided_data:
  assumes "length (RawData e) < 2 ^ 32" "MaxPayloadLen \<le> length (RawData e) + 1"
  shows "concat (map (part_data e) [0..<part_count e]) =
    (if length (RawData e) mod MaxPayloadLen = 0 then butlast (RawData e) else RawData e)"
proof -
  let ?raw = "RawData e"
  note c = divided_count_covers [OF assms]
  obtain k where k: "part_count e = Suc k" using c(1) gr0_implies_Suc by blast
  have "map (part_data e) [0..<Suc k] = take (MaxPayloadLen - 1) ?raw #
      map (\<lambda>j. take MaxPayloadLen (drop (MaxPayloadLen - 1 + j * MaxPayloadLen) ?raw)) [0..<k]"
    using MaxPayloadLen_bounds(1) by (simp add: part_data_def upt_conv_Cons comp_def flip: map_Suc_upt del: upt_Suc)
  then have "concat (map (part_data e) [0..<part_count e]) = take (MaxPayloadLen - 1 + k * MaxPayloadLen) ?raw"
    by (simp add: k concat_divided take_add del: upt_Suc)
  also have "MaxPayloadLen - 1 + k * MaxPayloadLen = part_count e * MaxPayloadLen - 1" using k MaxPayloadLen_bounds(1) by simp
  finally show ?thesis using c(3,4) by (auto simp: butlast_conv_take)
qed

text \<open>The entry of the first part of an event that needs more than one packet ends every server that applies it: the size in the
  header is that of the whole event.\<close>

lemma get_le_take: "4 \<le> n \<Longrightarrow> get_le32 (take n d) = get_le32 d" "2 \<le> n \<Longrightarrow> get_le16 (take n d) = get_le16 d"
  by (cases d rule: get_le32.cases; auto simp: take_Cons' numeral_eq_Suc)
    (cases d rule: get_le16.cases; auto simp: take_Cons' numeral_eq_Suc)

lemma EventHeader_Decode_take:
  assumes "EventHeader_Decode d = Ok h" "EventHeaderSize \<le> n"
  shows "EventHeader_Decode (take n d) = Ok h"
proof -
  have l: "(length (take n d) < EventHeaderSize) = (length d < EventHeaderSize)" using assms(2) by (simp add: min_less_iff_disj)
  have e: "take n d ! 4 = d ! 4" "get_le32 (take n d) = get_le32 d" "get_le32 (drop 5 (take n d)) = get_le32 (drop 5 d)"
    "get_le32 (drop 9 (take n d)) = get_le32 (drop 9 d)" "get_le32 (drop 13 (take n d)) = get_le32 (drop 13 d)"
    "get_le16 (drop 17 (take n d)) = get_le16 (drop 17 d)"
    using assms(2) by (simp_all add: EventHeaderSize_def drop_take get_le_take)
  show ?thesis using assms(1) unfolding EventHeader_Decode_def l e .
qed

theorem large_event_stops_server:
  assumes "BinlogEvent_Unmarshal new_BinlogEvent (drop 1 (nil_bytes (EData en))) = Ok (event_part e 0)"
    and "EventHeader_Decode (RawData e) = Ok h" "unat (EventSize h) = length (RawData e)" "MaxPayloadLen \<le> length (RawData e)"
  shows "fst (applyMySQLBinlogEvent env en s) = Crash"
proof -
  define d where "d = part_data e 0"
  have h: "EventHeader_Decode d = Ok h" unfolding d_def part_data_def if_P [OF refl]
    by (rule EventHeader_Decode_take [OF assms(2)]) (simp add: EventHeaderSize_def MaxPayloadLen_def)
  have "int (length (drop EventHeaderSize d)) \<noteq> int (unat (EventSize h)) - int EventHeaderSize"
    using assms(3,4) by (simp add: d_def part_data_def EventHeaderSize_def MaxPayloadLen_def)
  then have "fst (updateProcess (env_os env) (clock env (Index en)) (Index en) d (binlogProgress s, store s)) = Err ErrEvent"
    by (simp add: updateProcess_def h Let_def del: length_drop)
  then obtain y where "updateProcess (env_os env) (clock env (Index en)) (Index en) (part_data e 0) (binlogProgress s, store s) = (Err ErrEvent, y)"
    by (metis d_def prod.collapse)
  then show ?thesis
    using assms(1) by (simp add: applyMySQLBinlogEvent_def event_part_def nil_bytes_def fatal_def Let_def)
qed

text \<open>C36: a large event is divided without loss, and its parts fit into packets, unless its length is a multiple of
  \<^const>\<open>MaxPayloadLen\<close>: then the number of parts is one too small and the last byte of the event is lost.\<close>

theorem divide_loses_last_byte:
  assumes "length (RawData e) < 2 ^ 32" "MaxPayloadLen \<le> length (RawData e) + 1"
  shows "\<exists>es. divideBinlogEvent e = Ok es \<and>
    concat (map (\<lambda>d. nil_bytes (ev_Data d)) es) =
      (if length (RawData e) mod MaxPayloadLen = 0 then butlast (RawData e) else RawData e) \<and>
    (\<forall>i < length es. ev_DividedSeqNum (es ! i) = of_nat i \<and> ev_DividedCount (es ! i) = of_nat (length es) \<and>
      length (nil_bytes (ev_Data (es ! i))) + (if i = 0 then OKHeaderByte else 0) \<le> MaxPayloadLen)"
proof -
  have "map (\<lambda>d. nil_bytes (ev_Data d)) (map (event_part e) is) = map (part_data e) is" for "is"
    by (simp add: event_part_def nil_bytes_def)
  moreover have "length (part_data e i) + (if i = 0 then OKHeaderByte else 0) \<le> MaxPayloadLen" for i
    using MaxPayloadLen_bounds(1) by (auto simp: part_data_def OKHeaderByte_def)
  ultimately show ?thesis
    using divideBinlogEvent_parts [OF assms] divided_data [OF assms] by (simp add: event_part_def nil_bytes_def comp_def)
qed

definition sample_master_event :: MasterEvent where
  "sample_master_event = \<lparr>RawData = replicate MaxPayloadLen 0,
     me_Header = \<lparr>Timestamp = 0, h_EventType = WRITE_ROWS_EVENTv2, ServerID = 1, EventSize = 0xffffff, LogPos = 0, Flags = 0\<rparr>\<rparr>"

theorem divide_loses_last_byte_witness:
  "\<exists>es. divideBinlogEvent sample_master_event = Ok es \<and>
     concat (map (\<lambda>d. nil_bytes (ev_Data d)) es) = replicate (MaxPayloadLen - 1) 0"
proof -
  have "length (RawData sample_master_event) < 2 ^ 32" "MaxPayloadLen \<le> length (RawData sample_master_event) + 1"
    using MaxPayloadLen_bounds by (simp_all add: sample_master_event_def)
  from divide_loses_last_byte [OF this] show ?thesis by (auto simp: sample_master_event_def butlast_conv_take)
qed

section \<open>Running\<close>

text \<open>A syncer that was started has a connection to close.\<close>

lemma Execute_loop_effect:
  "Execute_loop db cmd n r0 s = (r, s') \<Longrightarrow>
     sy_started s' = sy_started s \<and> sends s' = sends s \<and> binlogEventC s' = binlogEventC s \<and> dataC s' = dataC s \<and>
     ((n = 0 \<longrightarrow> \<not> is_ok r0) \<longrightarrow> is_ok r \<longrightarrow> conn s')"
proof (induction n arbitrary: r0 s)
  case (Suc n)
  show ?case
  proof (cases "if conn s then None else Connect db (calls s)")
    case None
    let ?s = "if conn s then s else s\<lparr>calls := calls s + 1, conn := True\<rparr>"
    have c: "conn ?s" "sy_started ?s = sy_started s" "sends ?s = sends s" "binlogEventC ?s = binlogEventC s" "dataC ?s = dataC s" by simp_all
    show ?thesis
    proof (cases "Exec db (calls ?s) cmd")
      case (Err e)
      then show ?thesis
        using Suc.prems None c Suc.IH [of "Err e" "?s\<lparr>calls := calls ?s + 1, conn := False\<rparr>"]
        by (auto simp: Let_def split: if_splits)
    qed (use Suc.prems None c in \<open>auto simp: Let_def split: if_splits\<close>)
  qed (use Suc.prems in \<open>auto split: if_splits\<close>)
qed auto

lemma Execute_effect:
  assumes "Execute db cmd s = (r, s')"
  shows "sy_started s' = sy_started s" "binlogEventC s' = binlogEventC s" "dataC s' = dataC s" "r = Ok v \<Longrightarrow> conn s'"
  using Execute_loop_effect [OF assms [unfolded Execute_def]] by auto

lemma select_string_effect:
  assumes "select_string db cmd s = (r, s')"
  shows "sy_started s' = sy_started s" "binlogEventC s' = binlogEventC s" "dataC s' = dataC s" "r = Ok v \<Longrightarrow> conn s'"
  using assms Execute_effect [of db cmd s]
  by (auto simp: select_string_def sbind_def split: prod.splits outcome.splits option.splits)

lemma preCheck_effect:
  assumes "preCheck db s = (r, s')"
  shows "sy_started s' = sy_started s" "dataC s' = dataC s" "r = Ok () \<Longrightarrow> conn s'"
  using assms Execute_effect [of db]
  by (auto simp: preCheck_def sbind_def split: prod.splits outcome.splits if_splits)

lemma GetMasterInfo_effect:
  assumes "Syncer_GetMasterInfo db marshal quits s = (r, s')"
  shows "sy_started s' = sy_started s" "r = Ok () \<Longrightarrow> conn s'"
  using assms select_string_effect [of db]
  by (auto simp: Syncer_GetMasterInfo_def sbind_def send_data_def split: prod.splits outcome.splits option.splits)

text \<open>The driver's error for a broken connection is \<^verbatim>\<open>connection was bad\<close>. It is not the error that \<^verbatim>\<open>Execute\<close> compares
  with, so that the first statement on a broken connection fails, and the syncer keeps the connection.\<close>

theorem bad_connection_kept:
  assumes "conn s" "Exec db (calls s) cmd = Err ''connection was bad''"
  shows "Execute db cmd s = (Err ''connection was bad'', s\<lparr>calls := calls s + 1\<rparr>)"
  using assms by (simp add: Execute_def numeral_3_eq_3 ErrorEqual_def ErrBadConn_text_def)

section \<open>What is proposed\<close>

text \<open>An event as the master sends it: its length is in the header. The events that are proposed for it.\<close>

definition master_event :: "MasterEvent \<Rightarrow> bool" where
  "master_event e \<longleftrightarrow> EventSize (me_Header e) = of_nat (length (RawData e)) \<and> length (RawData e) < 2 ^ 32 - 1"

definition small_event :: "MasterEvent \<Rightarrow> BinlogEvent" where
  "small_event e =
     \<lparr>ev_Type = ucast (h_EventType (me_Header e)), ev_Flavor = FlavorType_MySQL, ev_DividedCount = 0, ev_DividedSeqNum = 0,
      ev_Data = Some (RawData e), ev_XXX_unrecognized = []\<rparr>"

definition proposals :: "MasterEvent \<Rightarrow> BinlogEvent list" where
  "proposals e =
     (if length (RawData e) + 1 < MaxPayloadLen then [small_event e] else map (event_part e) [0..<part_count e])"

lemma event_size_less:
  assumes "master_event e"
  shows "EventSize (me_Header e) + of_nat OKHeaderByte < of_nat MaxPayloadLen \<longleftrightarrow> length (RawData e) + 1 < MaxPayloadLen"
proof -
  have l: "length (RawData e) + 1 < 2 ^ 32" "MaxPayloadLen < 2 ^ 32"
    using assms MaxPayloadLen_bounds(2) by (simp_all add: master_event_def)
  have u: "unat (of_nat n :: u32) = n" if "n < 2 ^ 32" for n using that by (simp add: unat_of_nat take_bit_nat_eq_self)
  have "EventSize (me_Header e) + of_nat OKHeaderByte = of_nat (length (RawData e) + 1)"
    using assms by (simp add: master_event_def OKHeaderByte_def)
  then have "unat (EventSize (me_Header e) + of_nat OKHeaderByte) = length (RawData e) + 1" using u [OF l(1)] by simp
  then show ?thesis unfolding word_less_nat_alt u [OF l(2)] by simp
qed

lemma proposeBinlogEvent_proposals:
  assumes "master_event e" "cfg_Flavor (sy_cfg s) = MySQLFlavor"
  shows "proposeBinlogEvent quits e s = (Ok (), fold (send_event quits) (proposals e) s)"
  using event_size_less [OF assms(1)] assms divideBinlogEvent_parts [of e]
  by (auto simp: proposeBinlogEvent_def proposals_def small_event_def master_event_def)

lemma send_events:
  "\<And>s. binlogEventC (fold (send_event (\<lambda>_. False)) es s) = binlogEventC s @ es"
  "\<And>s. sy_started (fold (send_event quits) es s) = sy_started s" "\<And>s. sy_cfg (fold (send_event quits) es s) = sy_cfg s"
  by (induction es) (simp_all add: send_event_def)

lemma sync_loop_proposals:
  assumes "sy_started s" "cfg_Flavor (sy_cfg s) = MySQLFlavor" "list_all master_event evs"
  shows "\<exists>s'. sync_loop (\<lambda>_. False) (map Some evs) s = (Ok (), s') \<and>
    binlogEventC s' = binlogEventC s @ concat (map proposals (filter (\<lambda>e. h_EventType (me_Header e) \<noteq> HEARTBEAT_EVENT) evs))"
  using assms
proof (induction evs arbitrary: s)
  case (Cons e evs)
  let ?s = "fold (send_event (\<lambda>_. False)) (proposals e) s"
  show ?case
    using Cons.IH [of s] Cons.IH [of ?s] Cons.prems proposeBinlogEvent_proposals [of e s] by (auto simp: send_events)
qed simp

text \<open>A syncer that is started and then stopped closes its connection; it is never started without one.\<close>

lemma Start_Stop:
  assumes "Syncer_Start db marshal quits sync s = (r, s')" "\<not> sy_started s"
  shows "r = Ok () \<longleftrightarrow> sy_started s'" "\<exists>s''. Syncer_Stop s' = (Ok (), s'') \<and> \<not> sy_started s''"
proof -
  obtain r1 s1 where 1: "preCheck db s = (r1, s1)" by fastforce
  obtain r2 s2 where 2: "Syncer_GetMasterInfo db marshal quits s1 = (r2, s2)" by fastforce
  note e = preCheck_effect [OF 1] GetMasterInfo_effect [OF 2]
  have "(r = Ok () \<longleftrightarrow> sy_started s') \<and> (sy_started s' \<longrightarrow> conn s')"
    using assms(1) e 1 2 assms(2) by (cases r1; cases r2) (auto simp: Syncer_Start_def split: if_splits)
  then show "r = Ok () \<longleftrightarrow> sy_started s'" "\<exists>s''. Syncer_Stop s' = (Ok (), s'') \<and> \<not> sy_started s''"
    by (auto simp: Syncer_Stop_def)
qed

end
