(* ===== verification/Mmap_File.thy ===== *)
theory Mmap_File
  imports Storage_Base
begin

text \<open>
  The memory-mapped files of the log: \<^verbatim>\<open>src/storage/mmap_file.go\<close>. A file is mapped shared, so
  \<open>mappedData\<close> is the contents of the file. Positions are \<^verbatim>\<open>int\<close>s that never leave the file, as
  \<^typ>\<open>nat\<close>. \<open>mapped\<close> is false once the file is unmapped and closed: touching a byte of the slice then kills
  the process, and every system call on the descriptor fails.
\<close>

section \<open>IndexEntry\<close>

record IndexEntry =
  RaftIndex :: u64
  FilePosition :: u32

definition IndexEntry_Marshal :: "IndexEntry \<Rightarrow> bytes" where
  "IndexEntry_Marshal i = le64 (RaftIndex i) @ le32 (FilePosition i)"

definition IndexEntry_Unmarshal :: "bytes \<Rightarrow> IndexEntry option" where
  "IndexEntry_Unmarshal data =
     (case (Option.bind (slice data 0 8) get_le64, Option.bind (slice data 8 12) get_le32) of
        (Some i, Some p) \<Rightarrow> Some \<lparr>RaftIndex = i, FilePosition = p\<rparr>
      | _ \<Rightarrow> None)"

lemma length_IndexEntry_Marshal [simp]: "length (IndexEntry_Marshal i) = 12"
  by (simp add: IndexEntry_Marshal_def)

lemma IndexEntry_Unmarshal_Marshal [simp]: "IndexEntry_Unmarshal (IndexEntry_Marshal i) = Some i"
  by (simp add: IndexEntry_Unmarshal_def IndexEntry_Marshal_def slice_def)

section \<open>MmapFile\<close>

record MmapFile =
  fileDir :: string
  fileName :: string
  mappedData :: bytes
  writePosition :: nat
  syncPosition :: nat
  maxBytes :: nat
  mapped :: bool

text \<open>A new file is created exclusively, filled with zeros to its size and mapped.\<close>

definition newMmapFile ::
    "os \<Rightarrow> string \<Rightarrow> string \<Rightarrow> nat \<Rightarrow> (storage_error, MmapFile) outcome" where
  "newMmapFile os dir name fileSize =
     (if \<not> os SysOpen name then Crash
      else if \<not> os SysPreallocate name then Crash
      else if fileSize = 0 \<or> \<not> os SysMmap name then Crash
      else Ok \<lparr>fileDir = dir, fileName = name, mappedData = replicate fileSize 0,
               writePosition = 0, syncPosition = 0, maxBytes = fileSize, mapped = True\<rparr>)"

text \<open>An existing file with the given contents; mapping an empty file fails.\<close>

definition openMmapFile ::
    "os \<Rightarrow> string \<Rightarrow> string \<Rightarrow> bytes \<Rightarrow> (storage_error, MmapFile) outcome" where
  "openMmapFile os dir name contents =
     (if \<not> os SysOpen name then Crash
      else if \<not> os SysStat name then Crash
      else if \<not> os SysPreallocate name then Crash
      else if length contents = 0 \<or> \<not> os SysMmap name then Crash
      else Ok \<lparr>fileDir = dir, fileName = name, mappedData = contents,
               writePosition = 0, syncPosition = 0, maxBytes = length contents, mapped = True\<rparr>)"

definition MmapFile_append :: "MmapFile \<Rightarrow> bytes \<Rightarrow> (MmapFile, nat) res" where
  "MmapFile_append f data =
     (let startPos = writePosition f
      in case (if mapped f \<or> data = [] then overwrite (mappedData f) startPos data else None) of
           None \<Rightarrow> (Crash, f)
         | Some d \<Rightarrow>
             (Ok startPos, f\<lparr>mappedData := d, writePosition := startPos + length data\<rparr>))"

definition MmapFile_sync :: "os \<Rightarrow> MmapFile \<Rightarrow> (MmapFile, unit) res" where
  "MmapFile_sync os f =
     (if \<not> (mapped f \<and> os SysSync (fileName f)) then (Err (ErrOS SysSync), f)
      else (Ok (), f\<lparr>syncPosition := writePosition f\<rparr>))"

definition setPosition :: "MmapFile \<Rightarrow> int \<Rightarrow> (MmapFile, unit) res" where
  "setPosition f position =
     (if position < 0 then (Crash, f)
      else (Ok (), f\<lparr>writePosition := nat position, syncPosition := nat position\<rparr>))"

definition readRaftEntry :: "MmapFile \<Rightarrow> nat \<Rightarrow> (storage_error, Entry \<times> nat) outcome" where
  "readRaftEntry f position =
     (if \<not> mapped f then Crash else
      case Option.bind (slice (mappedData f) position (position + RecordLengthSize)) get_le32 of
        None \<Rightarrow> Crash
      | Some recordLen \<Rightarrow>
          let position' = position + RecordLengthSize; endPosition = position' + unat recordLen
          in case slice (mappedData f) position' endPosition of
               None \<Rightarrow> Crash
             | Some recordBuf \<Rightarrow>
                 (case Record_Unmarshal new_Record recordBuf of
                    Ok rec \<Rightarrow>
                      if ChecksumIEEE (nil_bytes (Data rec)) \<noteq> Crc rec then Crash
                      else (case Entry_Unmarshal new_Entry (nil_bytes (Data rec)) of
                              Ok entry \<Rightarrow> Ok (entry, endPosition)
                            | _ \<Rightarrow> Crash)
                  | _ \<Rightarrow> Crash))"

definition readIndexEntry :: "MmapFile \<Rightarrow> int \<Rightarrow> (storage_error, IndexEntry) outcome" where
  "readIndexEntry f position =
     (if position < 0 \<or> \<not> mapped f then Crash else
      case Option.bind (slice (mappedData f) (nat position) (nat position + IndexEntrySize))
             IndexEntry_Unmarshal of
        None \<Rightarrow> Crash
      | Some e \<Rightarrow> Ok e)"

definition MmapFile_close :: "os \<Rightarrow> MmapFile \<Rightarrow> (MmapFile, unit) res" where
  "MmapFile_close os f =
     (if \<not> (mapped f \<and> os SysMunmap (fileName f)) then (Err (ErrOS SysMunmap), f)
      else if \<not> os SysClose (fileName f) then (Err (ErrOS SysClose), f\<lparr>mapped := False\<rparr>)
      else (Ok (), f\<lparr>mapped := False\<rparr>))"

definition MmapFile_remove :: "os \<Rightarrow> MmapFile \<Rightarrow> (MmapFile, unit) res" where
  "MmapFile_remove os f =
     (case MmapFile_close os f of
        (Ok _, f') \<Rightarrow>
          if \<not> os SysRemove (fileName f') then (Err (ErrOS SysRemove), f') else (Ok (), f')
      | (Err e, f') \<Rightarrow> (Err e, f')
      | (Crash, f') \<Rightarrow> (Crash, f'))"

definition MmapFile_truncateSuffix :: "os \<Rightarrow> MmapFile \<Rightarrow> nat \<Rightarrow> (MmapFile, unit) res" where
  "MmapFile_truncateSuffix os f position =
     (if writePosition f < position then (Err ErrOutOfBound, f)
      else
        let zeroDataLen = writePosition f - position
        in case (if mapped f \<or> zeroDataLen = 0
                 then overwrite (mappedData f) position (replicate zeroDataLen 0) else None) of
             None \<Rightarrow> (Crash, f)
           | Some d \<Rightarrow>
               let f' = f\<lparr>mappedData := d\<rparr>
               in if \<not> (mapped f \<and> os SysSync (fileName f)) then (Err (ErrOS SysSync), f')
                  else (Ok (), f'\<lparr>writePosition := position, syncPosition := position\<rparr>))"

definition MmapFile_rename :: "os \<Rightarrow> MmapFile \<Rightarrow> string \<Rightarrow> (MmapFile, unit) res" where
  "MmapFile_rename os f name =
     (if \<not> os SysRename (fileName f) then (Err (ErrOS SysRename), f)
      else (Ok (), f\<lparr>fileName := name\<rparr>))"

lemma openMmapFile_runs:
  "contents \<noteq> [] \<Longrightarrow> runs os (openMmapFile os dir name contents, s)
     (\<lambda>f s'. s' = s \<and> f = \<lparr>fileDir = dir, fileName = name, mappedData = contents, writePosition = 0,
                           syncPosition = 0, maxBytes = length contents, mapped = True\<rparr>)"
  by (auto simp: openMmapFile_def)

lemma newMmapFile_runs:
  "0 < n \<Longrightarrow> runs os (newMmapFile os dir name n, s)
     (\<lambda>f s'. s' = s \<and> f = \<lparr>fileDir = dir, fileName = name, mappedData = replicate n 0,
                           writePosition = 0, syncPosition = 0, maxBytes = n, mapped = True\<rparr>)"
  by (auto simp: newMmapFile_def)

section \<open>What a log file holds\<close>

text \<open>
  One entry on disk: the length of its record, then the record, which holds the marshalled entry and
  its checksum (\<^verbatim>\<open>entriesToRecords\<close> builds the records, \<^verbatim>\<open>Segment.appendRecord\<close> writes them).
\<close>

definition record_of :: "Entry \<Rightarrow> Record" where
  "record_of e = \<lparr>Crc = ChecksumIEEE (Entry_MarshalTo e), Data = Some (Entry_MarshalTo e),
                  XXX_unrecognized = []\<rparr>"

definition frame :: "Entry \<Rightarrow> bytes" where
  "frame e = le32 (of_nat (Record_Size (record_of e))) @ Record_MarshalTo (record_of e)"

text \<open>An entry that fits: a record below 4 GB, and no bytes left over from another schema.\<close>

definition fits :: "Entry \<Rightarrow> bool" where
  "fits e \<longleftrightarrow> E_XXX_unrecognized e = [] \<and> Record_Size (record_of e) < 2 ^ 32"

lemma record_of_sel:
  "Crc (record_of e) = ChecksumIEEE (Entry_MarshalTo e)"
  "Data (record_of e) = Some (Entry_MarshalTo e)"
  "nil_bytes (Some d) = d"
  by (simp_all add: record_of_def nil_bytes_def)

lemma length_frame: "length (frame e) = 4 + Record_Size (record_of e)"
  by (simp add: frame_def length_MarshalTo)

lemma fits_storable: "fits e \<Longrightarrow> Entry_storable e \<and> Record_storable (record_of e)"
proof -
  assume "fits e"
  moreover have "Entry_Size e < Record_Size (record_of e)"
    by (simp add: Record_Size_def record_of_def length_Entry_MarshalTo)
  ultimately show ?thesis
    by (simp add: fits_def Entry_storable_def Record_storable_def record_of_def)
qed

lemma frame_length_bounds: "6 \<le> length (frame e)"
  by (simp add: length_frame Record_Size_def record_of_def sovRecord.simps [of "ucast x" for x])

text \<open>Reading back the entry that starts at a position.\<close>

lemma readRaftEntry_frame:
  assumes "mapped f" "fits e" "mappedData f = pre @ frame e @ post"
  shows "readRaftEntry f (length pre) = Ok (e, length pre + length (frame e))"
proof -
  let ?r = "record_of e"
  have sz: "unat (of_nat (Record_Size ?r) :: u32) = Record_Size ?r"
    using assms(2) by (simp add: fits_def unat_of_nat)
  have st: "Entry_storable e" "Record_storable ?r" using fits_storable [OF assms(2)] by auto
  have "slice (mappedData f) (length pre) (length pre + RecordLengthSize)
      = Some (le32 (of_nat (Record_Size ?r)))"
    by (simp add: assms(3) slice_def frame_def RecordLengthSize_def)
  moreover have "slice (mappedData f) (length pre + RecordLengthSize)
      (length pre + RecordLengthSize + Record_Size ?r) = Some (Record_MarshalTo ?r)"
    by (simp add: assms(3) slice_def frame_def RecordLengthSize_def length_MarshalTo)
  moreover have "Record_Unmarshal new_Record (Record_MarshalTo ?r) = Ok ?r"
    using recc.unmarshal_fresh [OF st(2) Record_Marshal_eq] .
  moreover have "Entry_Unmarshal new_Entry (Entry_MarshalTo e) = Ok e"
    using entc.unmarshal_fresh [OF st(1) Entry_Marshal_eq] .
  ultimately show ?thesis
    by (simp add: readRaftEntry_def assms(1) sz Let_def length_frame record_of_sel
        RecordLengthSize_def)
qed

end
