(* ===== verification/Log_Index.thy ===== *)
theory Log_Index
  imports Mmap_File
begin

text \<open>
  The index of a segment: \<^verbatim>\<open>src/storage/index.go\<close>. A segment that is being written has its index in
  a plain file behind a \<^verbatim>\<open>bufio.Writer\<close>, with the entries in memory (\<open>RWFile\<close>); the index of a
  read-only segment is mapped.
\<close>

section \<open>RWFile\<close>

text \<open>
  \<open>rw_content\<close> is what the file holds, \<open>rw_offset\<close> where the next write goes, \<open>rw_buf\<close> the bytes that
  the writer has not flushed and \<open>rw_err\<close> its error, which sticks.
\<close>

record RWFile =
  rw_entries :: "IndexEntry list"
  rw_buf :: bytes
  rw_err :: bool
  rw_content :: bytes
  rw_offset :: nat
  rw_dir :: string
  rw_name :: string
  rw_open :: bool

definition writer_size :: nat where
  "writer_size = IndexEntrySize * 1024 * 1024"

definition file_write :: "bytes \<Rightarrow> nat \<Rightarrow> bytes \<Rightarrow> bytes" where
  "file_write content off data =
     take off content @ replicate (off - length content) 0 @ data @ drop (off + length data) content"

definition File_Write :: "os \<Rightarrow> RWFile \<Rightarrow> bytes \<Rightarrow> (RWFile, unit) res" where
  "File_Write os rw data =
     (if \<not> (rw_open rw \<and> os SysWrite (rw_name rw))
      then (Err (ErrOS SysWrite), rw\<lparr>rw_err := True\<rparr>)
      else (Ok (), rw\<lparr>rw_content := file_write (rw_content rw) (rw_offset rw) data,
                      rw_offset := rw_offset rw + length data\<rparr>))"

definition Writer_Flush :: "os \<Rightarrow> RWFile \<Rightarrow> (RWFile, unit) res" where
  "Writer_Flush os rw =
     (if rw_err rw then (Err (ErrOS SysWrite), rw)
      else if rw_buf rw = [] then (Ok (), rw)
      else sbind (File_Write os rw (rw_buf rw)) (\<lambda>rw. rw) (\<lambda>_ rw. (Ok (), rw\<lparr>rw_buf := []\<rparr>)))"

text \<open>Bytes that fit are buffered; otherwise the buffer is filled and flushed first, and what does not
  fit into an empty buffer goes straight to the file.\<close>

definition Writer_Write :: "os \<Rightarrow> RWFile \<Rightarrow> bytes \<Rightarrow> (RWFile, unit) res" where
  "Writer_Write os rw p =
     (let available = writer_size - length (rw_buf rw);
          rest = (\<lambda>rw p. if length p \<le> writer_size then (Ok (), rw\<lparr>rw_buf := rw_buf rw @ p\<rparr>)
                         else File_Write os rw p)
      in if rw_err rw then (Err (ErrOS SysWrite), rw)
         else if length p \<le> available then (Ok (), rw\<lparr>rw_buf := rw_buf rw @ p\<rparr>)
         else if rw_buf rw = [] then rest rw p
         else sbind (Writer_Flush os (rw\<lparr>rw_buf := rw_buf rw @ take available p\<rparr>)) (\<lambda>rw. rw)
                (\<lambda>_ rw. rest rw (drop available p)))"

definition newRWFile :: "os \<Rightarrow> string \<Rightarrow> string \<Rightarrow> (storage_error, RWFile) outcome" where
  "newRWFile os dir name =
     (if \<not> os SysOpen name then Crash
      else if \<not> os SysSeek name then Crash
      else Ok \<lparr>rw_entries = [], rw_buf = [], rw_err = False, rw_content = [], rw_offset = 0,
               rw_dir = dir, rw_name = name, rw_open = True\<rparr>)"

text \<open>The loop of \<^verbatim>\<open>openRWFile\<close> over what is left of the file; \<open>None\<close> is a torn write.\<close>

function read_index_entries :: "bytes \<Rightarrow> IndexEntry list option" where
  "read_index_entries bs =
     (if bs = [] then Some []
      else if length bs < IndexEntrySize then None
      else case IndexEntry_Unmarshal (take IndexEntrySize bs) of
             None \<Rightarrow> None
           | Some e \<Rightarrow> map_option (Cons e) (read_index_entries (drop IndexEntrySize bs)))"
  by pat_completeness auto
termination by (relation "measure length") (auto simp: IndexEntrySize_def)

declare read_index_entries.simps [simp del]

definition openRWFile ::
    "os \<Rightarrow> string \<Rightarrow> string \<Rightarrow> bytes \<Rightarrow> (storage_error, RWFile) outcome" where
  "openRWFile os dir name content =
     (if \<not> os SysOpen name then Crash
      else if \<not> os SysRead name then Crash
      else case read_index_entries content of
        None \<Rightarrow> Crash
      | Some es \<Rightarrow>
          if \<not> os SysSeek name then Crash
          else Ok \<lparr>rw_entries = es, rw_buf = [], rw_err = False, rw_content = content,
                   rw_offset = length content, rw_dir = dir, rw_name = name, rw_open = True\<rparr>)"

definition RWFile_close :: "os \<Rightarrow> RWFile \<Rightarrow> (RWFile, unit) res" where
  "RWFile_close os rw =
     sbind (Writer_Flush os (rw\<lparr>rw_entries := []\<rparr>)) (\<lambda>rw. rw)
       (\<lambda>_ rw. if \<not> (rw_open rw \<and> os SysClose (rw_name rw)) then (Err (ErrOS SysClose), rw)
               else (Ok (), rw\<lparr>rw_open := False\<rparr>))"

definition RWFile_remove :: "os \<Rightarrow> RWFile \<Rightarrow> (RWFile, unit) res" where
  "RWFile_remove os rw =
     sbind (RWFile_close os rw) (\<lambda>rw. rw)
       (\<lambda>_ rw. if \<not> os SysRemove (rw_name rw) then (Err (ErrOS SysRemove), rw) else (Ok (), rw))"

definition RWFile_rename :: "os \<Rightarrow> RWFile \<Rightarrow> string \<Rightarrow> (RWFile, unit) res" where
  "RWFile_rename os rw name =
     (if \<not> os SysRename (rw_name rw) then (Err (ErrOS SysRename), rw)
      else (Ok (), rw\<lparr>rw_name := name\<rparr>))"

section \<open>Index\<close>

record Index =
  readonly :: "MmapFile option"
  readWrite :: "RWFile option"

definition newIndex :: "os \<Rightarrow> string \<Rightarrow> string \<Rightarrow> (storage_error, Index) outcome" where
  "newIndex os dir name =
     obind (newRWFile os dir name) (\<lambda>rw. Ok \<lparr>readonly = None, readWrite = Some rw\<rparr>)"

definition openIndex ::
    "os \<Rightarrow> string \<Rightarrow> string \<Rightarrow> bytes \<Rightarrow> SegmentStatus \<Rightarrow> (storage_error, Index) outcome" where
  "openIndex os dir name contents status =
     (if status = SegmentReadOnly
      then obind (openMmapFile os dir name contents)
             (\<lambda>f. Ok \<lparr>readonly = Some f, readWrite = None\<rparr>)
      else obind (openRWFile os dir name contents)
             (\<lambda>rw. Ok \<lparr>readonly = None, readWrite = Some rw\<rparr>))"

text \<open>The position of an entry in the segment. Using a file that is not there is a nil pointer.\<close>

definition getRaftEntryPosition ::
    "Index \<Rightarrow> u64 \<Rightarrow> u64 \<Rightarrow> SegmentStatus \<Rightarrow> (storage_error, nat) outcome" where
  "getRaftEntryPosition d i firstIndex status =
     (if i < firstIndex then Err ErrOutOfBound
      else
        let position = sint ((i - firstIndex) * of_nat IndexEntrySize);
            checked = (\<lambda>e. if RaftIndex e \<noteq> i then Crash else Ok (unat (FilePosition e)))
        in if status = SegmentReadOnly
           then (case readonly d of
                   None \<Rightarrow> Crash
                 | Some f \<Rightarrow> obind (readIndexEntry f position) checked)
           else (case readWrite d of
                   None \<Rightarrow> Crash
                 | Some rw \<Rightarrow>
                     let k = sint (i - firstIndex)
                     in if k < 0 \<or> int (length (rw_entries rw)) \<le> k then Crash
                        else checked (rw_entries rw ! nat k)))"

definition appendIndexEntry :: "os \<Rightarrow> Index \<Rightarrow> IndexEntry \<Rightarrow> (Index, unit) res" where
  "appendIndexEntry os d entry =
     (case readWrite d of
        None \<Rightarrow> (Crash, d)
      | Some rw \<Rightarrow>
          sbind
            (sbind (Writer_Write os rw (IndexEntry_Marshal entry)) (\<lambda>rw. rw)
               (\<lambda>_ rw. (Ok (), rw\<lparr>rw_entries := rw_entries rw @ [entry]\<rparr>)))
            (\<lambda>rw. d\<lparr>readWrite := Some rw\<rparr>) (\<lambda>_ d. (Ok (), d)))"

definition Index_close :: "os \<Rightarrow> Index \<Rightarrow> (Index, unit) res" where
  "Index_close os d =
     (case readonly d of
        Some f \<Rightarrow> sbind (MmapFile_close os f) (\<lambda>f. d\<lparr>readonly := Some f\<rparr>) (\<lambda>_ d. (Ok (), d))
      | None \<Rightarrow>
          (case readWrite d of
             None \<Rightarrow> (Crash, d)
           | Some rw \<Rightarrow>
               sbind (RWFile_close os rw) (\<lambda>rw. d\<lparr>readWrite := Some rw\<rparr>) (\<lambda>_ d. (Ok (), d))))"

definition getLastRaftEntry ::
    "Index \<Rightarrow> SegmentStatus \<Rightarrow> (storage_error, IndexEntry) outcome" where
  "getLastRaftEntry d status =
     (if status \<noteq> SegmentRDWR then Crash
      else case readWrite d of
             None \<Rightarrow> Crash
           | Some rw \<Rightarrow> if rw_entries rw = [] then Crash else Ok (last (rw_entries rw)))"

text \<open>
  The end of \<^verbatim>\<open>truncateSuffix\<close>: cut the file at \<open>position\<close>, seek there and cut the entries to \<open>n\<close>.
  (Go would also let a slice grow into its spare capacity; a segment reads entry \<open>n\<close> before it
  truncates, so that \<open>n\<close> is below the length.)
\<close>

definition truncate_tail :: "os \<Rightarrow> RWFile \<Rightarrow> int \<Rightarrow> u64 \<Rightarrow> (RWFile, unit) res" where
  "truncate_tail os rw position n =
     (if position < 0 \<or> \<not> (rw_open rw \<and> os SysTruncate (rw_name rw))
      then (Err (ErrOS SysTruncate), rw)
      else
        let p = nat position;
            rw = rw\<lparr>rw_content := take p (rw_content rw) @ replicate (p - length (rw_content rw)) 0\<rparr>
        in if \<not> os SysSeek (rw_name rw) then (Err (ErrOS SysSeek), rw)
           else
             let rw = rw\<lparr>rw_offset := p\<rparr>
             in if length (rw_entries rw) < unat n then (Crash, rw)
                else (Ok (), rw\<lparr>rw_entries := take (unat n) (rw_entries rw)\<rparr>))"

definition Index_truncateSuffix ::
    "os \<Rightarrow> Index \<Rightarrow> u64 \<Rightarrow> u64 \<Rightarrow> SegmentStatus \<Rightarrow> (Index, unit) res" where
  "Index_truncateSuffix os d i firstIndex status =
     (if i < firstIndex then (Err ErrOutOfBound, d)
      else
        let position = sint ((i - firstIndex) * of_nat IndexEntrySize);
            newName = ReadWriteIndexPattern firstIndex;
            cut = (\<lambda>d rw. sbind (truncate_tail os rw position (i - firstIndex))
                            (\<lambda>rw. d\<lparr>readWrite := Some rw\<rparr>) (\<lambda>_ d. (Ok (), d)))
        in if status = SegmentReadOnly
           then (case readonly d of
                   None \<Rightarrow> (Crash, d)
                 | Some f \<Rightarrow>
                     sbind
                       (sbind (MmapFile_rename os f newName) (\<lambda>f. f) (\<lambda>_ f. MmapFile_close os f))
                       (\<lambda>f. d\<lparr>readonly := Some f\<rparr>)
                       (\<lambda>_ d.
                          sbind (openRWFile os (fileDir f) newName (mappedData f), d\<lparr>readonly := None\<rparr>)
                            (\<lambda>d. d) (\<lambda>rw d. cut d rw)))
           else (case readWrite d of
                   None \<Rightarrow> (Crash, d)
                 | Some rw \<Rightarrow>
                     sbind (sbind (Writer_Flush os rw) (\<lambda>rw. rw) (\<lambda>_ rw. (Ok rw, rw)))
                       (\<lambda>rw. d\<lparr>readWrite := Some rw\<rparr>) (\<lambda>rw d. cut d rw)))"

definition Index_changeToReadonly :: "os \<Rightarrow> Index \<Rightarrow> (Index, unit) res" where
  "Index_changeToReadonly os d =
     (case readWrite d of
        None \<Rightarrow> (Crash, d)
      | Some rw \<Rightarrow>
          let entries = rw_entries rw
          in if entries = [] then (Crash, d)
             else
               let newName = ReadonlyIndexPattern (RaftIndex (hd entries)) (RaftIndex (last entries))
               in sbind
                    (sbind (sbind (RWFile_rename os rw newName) (\<lambda>rw. rw)
                              (\<lambda>_ rw. RWFile_close os rw))
                       (\<lambda>rw. rw) (\<lambda>_ rw. (Ok rw, rw)))
                    (\<lambda>rw. d\<lparr>readWrite := Some rw\<rparr>)
                    (\<lambda>rw d.
                       sbind (openMmapFile os (rw_dir rw) newName (rw_content rw), d\<lparr>readWrite := None\<rparr>)
                         (\<lambda>d. d) (\<lambda>f d. (Ok (), d\<lparr>readonly := Some f\<rparr>))))"

definition Index_remove :: "os \<Rightarrow> Index \<Rightarrow> (Index, unit) res" where
  "Index_remove os d =
     (case (readonly d, readWrite d) of
        (None, Some rw) \<Rightarrow>
          sbind (RWFile_remove os rw) (\<lambda>rw. d\<lparr>readWrite := Some rw\<rparr>) (\<lambda>_ d. (Ok (), d))
      | (Some f, None) \<Rightarrow>
          sbind (MmapFile_remove os f) (\<lambda>f. d\<lparr>readonly := Some f\<rparr>) (\<lambda>_ d. (Ok (), d))
      | _ \<Rightarrow> (Ok (), d))"

section \<open>What an index holds\<close>

definition index_bytes :: "IndexEntry list \<Rightarrow> bytes" where
  "index_bytes es = concat (map IndexEntry_Marshal es)"

definition RWFile_holds :: "RWFile \<Rightarrow> IndexEntry list \<Rightarrow> bool" where
  "RWFile_holds rw es \<longleftrightarrow>
     rw_entries rw = es \<and> \<not> rw_err rw \<and> rw_open rw \<and> length (rw_buf rw) \<le> writer_size \<and>
     rw_offset rw = length (rw_content rw) \<and> rw_content rw @ rw_buf rw = index_bytes es"

definition Index_holds :: "Index \<Rightarrow> SegmentStatus \<Rightarrow> IndexEntry list \<Rightarrow> bool" where
  "Index_holds d status es \<longleftrightarrow>
     (case status of
        SegmentReadOnly \<Rightarrow>
          readWrite d = None \<and> (\<exists>f. readonly d = Some f \<and> mapped f \<and> mappedData f = index_bytes es)
      | SegmentRDWR \<Rightarrow> readonly d = None \<and> (\<exists>rw. readWrite d = Some rw \<and> RWFile_holds rw es)
      | SegmentClosed \<Rightarrow> False)"

lemma index_bytes_simps [simp]:
  "index_bytes [] = []" "index_bytes (e # es) = IndexEntry_Marshal e @ index_bytes es"
  "index_bytes (xs @ ys) = index_bytes xs @ index_bytes ys"
  by (simp_all add: index_bytes_def)

lemma length_index_bytes [simp]: "length (index_bytes es) = 12 * length es"
  by (induction es) auto

lemma take_index_bytes: "k \<le> length es \<Longrightarrow> take (12 * k) (index_bytes es) = index_bytes (take k es)"
  by (metis append_take_drop_id index_bytes_simps(3) length_index_bytes length_take min.absorb2
      append_eq_conv_conj)

lemma read_index_entries_index_bytes [simp]: "read_index_entries (index_bytes es) = Some es"
proof (induction es)
  case (Cons e es)
  have "IndexEntry_Marshal e \<noteq> []" by (metis length_IndexEntry_Marshal list.size(3) zero_neq_numeral)
  then show ?case using Cons
    by (subst read_index_entries.simps) (simp add: IndexEntrySize_def)
qed (simp add: read_index_entries.simps)

lemma slice_index_bytes:
  assumes "k < length es"
  shows "slice (index_bytes es) (12 * k) (12 * k + 12) = Some (IndexEntry_Marshal (es ! k))"
proof -
  have "index_bytes es = index_bytes (take k es) @ IndexEntry_Marshal (es ! k) @ index_bytes (drop (Suc k) es)"
    using assms by (metis id_take_nth_drop index_bytes_simps(2,3))
  moreover have "length (index_bytes (take k es)) = 12 * k" using assms by simp
  ultimately show ?thesis using slice_append_mid by (metis length_IndexEntry_Marshal)
qed

lemma offset_of:
  fixes first :: u64
  assumes "unat first + k < 2 ^ 64"
  shows "first + of_nat k - first = of_nat k" "\<not> first + of_nat k < first"
    "unat (first + of_nat k) = unat first + k"
proof -
  have "unat (of_nat k :: u64) = k" using assms by (simp add: unat_of_nat)
  then show "unat (first + of_nat k) = unat first + k"
    using assms by (simp add: unat_word_ariths)
  then show "\<not> first + of_nat k < first" by (simp add: word_less_nat_alt)
qed simp

lemma sint_index_position:
  assumes "12 * k < 2 ^ 63"
  shows "sint (of_nat k * of_nat IndexEntrySize :: u64) = int (12 * k)" "sint (of_nat k :: u64) = int k"
proof -
  have "of_nat k * of_nat IndexEntrySize = (of_nat (12 * k) :: u64)" by (simp add: IndexEntrySize_def)
  then show "sint (of_nat k * of_nat IndexEntrySize :: u64) = int (12 * k)"
    using sint_of_nat_u64 [OF assms] by simp
  show "sint (of_nat k :: u64) = int k" using assms by (intro sint_of_nat_u64) simp
qed

lemma file_write_end [simp]: "file_write c (length c) d = c @ d"
  by (simp add: file_write_def)

lemma Writer_Flush_holds:
  assumes "RWFile_holds rw es"
  shows "runs os (Writer_Flush os rw)
    (\<lambda>_ rw'. RWFile_holds rw' es \<and> rw_buf rw' = [] \<and> rw_name rw' = rw_name rw \<and> rw_dir rw' = rw_dir rw)"
  using assms
  by (auto simp: Writer_Flush_def File_Write_def RWFile_holds_def simp flip: length_append)

lemma writer_size_bounds: "12 \<le> writer_size"
  by (simp add: writer_size_def IndexEntrySize_def)

lemma appendIndexEntry_holds:
  assumes "Index_holds d SegmentRDWR es"
  shows "runs os (appendIndexEntry os d e) (\<lambda>_ d'. Index_holds d' SegmentRDWR (es @ [e]))"
proof -
  from assms obtain rw where d: "readonly d = None" "readWrite d = Some rw" and h: "RWFile_holds rw es"
    by (auto simp: Index_holds_def)
  have "runs os (Writer_Write os rw (IndexEntry_Marshal e))
      (\<lambda>_ rw'. RWFile_holds (rw'\<lparr>rw_entries := rw_entries rw' @ [e]\<rparr>) (es @ [e]))"
    using h writer_size_bounds
    by (auto simp: Writer_Write_def Writer_Flush_def File_Write_def RWFile_holds_def Let_def sbind_def)
  then show ?thesis
    using d by (simp add: appendIndexEntry_def Index_holds_def)
qed

lemma getRaftEntryPosition_holds:
  assumes "Index_holds d st es" "k < length es" "12 * length es < 2 ^ 63"
    and "unat first + k < 2 ^ 64" "RaftIndex (es ! k) = first + of_nat k"
  shows "getRaftEntryPosition d (first + of_nat k) first st = Ok (unat (FilePosition (es ! k)))"
proof -
  have pos: "12 * k < 2 ^ 63" using assms(2,3) by linarith
  note nums = offset_of [OF assms(4)] sint_index_position [OF pos]
  show ?thesis
  proof (cases st)
    case SegmentReadOnly
    then obtain f where f: "readonly d = Some f" "mapped f" "mappedData f = index_bytes es"
      using assms(1) by (auto simp: Index_holds_def)
    then have "readIndexEntry f (int (12 * k)) = Ok (es ! k)"
      using slice_index_bytes [OF assms(2)] by (simp add: readIndexEntry_def IndexEntrySize_def nat_mult_distrib)
    then show ?thesis using f SegmentReadOnly assms(5) nums
      by (simp add: getRaftEntryPosition_def Let_def)
  next
    case SegmentRDWR
    then show ?thesis using assms nums
      by (auto simp: getRaftEntryPosition_def Let_def Index_holds_def RWFile_holds_def)
  qed (use assms(1) in \<open>simp add: Index_holds_def\<close>)
qed

lemma truncate_tail_holds:
  assumes "RWFile_holds rw es" "rw_buf rw = []" "k \<le> length es" "12 * k < 2 ^ 63"
  shows "runs os (truncate_tail os rw (int (12 * k)) (of_nat k))
    (\<lambda>_ rw'. RWFile_holds rw' (take k es))"
proof -
  have "unat (of_nat k :: u64) = k" "nat (int (12 * k)) = 12 * k"
    using assms(4) by (simp_all add: unat_of_nat)
  moreover have "rw_content rw = index_bytes es" using assms(1,2) by (simp add: RWFile_holds_def)
  ultimately show ?thesis using assms
    by (auto simp: truncate_tail_def RWFile_holds_def Let_def take_index_bytes min_def
        simp del: of_nat_mult)
qed

lemma openRWFile_holds:
  "runs os (openRWFile os dir name (index_bytes es), s)
     (\<lambda>rw s'. s' = s \<and> RWFile_holds rw es \<and> rw_buf rw = [])"
  by (auto simp: openRWFile_def RWFile_holds_def)

lemma Index_truncateSuffix_holds:
  assumes "Index_holds d st es" "k \<le> length es" "12 * length es < 2 ^ 63" "unat first + k < 2 ^ 64"
  shows "runs os (Index_truncateSuffix os d (first + of_nat k) first st)
    (\<lambda>_ d'. Index_holds d' SegmentRDWR (take k es))"
proof -
  have pos: "12 * k < 2 ^ 63" using assms(2,3) by linarith
  note nums = offset_of [OF assms(4)] sint_index_position [OF pos]
  show ?thesis
  proof (cases st)
    case SegmentReadOnly
    then obtain f where f: "readonly d = Some f" "mapped f" "mappedData f = index_bytes es"
      "readWrite d = None"
      using assms(1) by (auto simp: Index_holds_def)
    show ?thesis using f pos
      by (auto simp: Index_truncateSuffix_def Let_def nums SegmentReadOnly Index_holds_def
          MmapFile_rename_def MmapFile_close_def simp del: of_nat_mult
          intro!: runs_mono [OF openRWFile_holds] runs_mono [OF truncate_tail_holds] assms)
  next
    case SegmentRDWR
    then obtain rw where d: "readonly d = None" "readWrite d = Some rw" and h: "RWFile_holds rw es"
      using assms(1) by (auto simp: Index_holds_def)
    then show ?thesis using pos
      by (auto simp: Index_truncateSuffix_def Let_def nums SegmentRDWR Index_holds_def
          simp del: of_nat_mult
          intro!: runs_mono [OF Writer_Flush_holds] runs_mono [OF truncate_tail_holds] assms)
  qed (use assms(1) in \<open>simp add: Index_holds_def\<close>)
qed

lemma Index_changeToReadonly_holds:
  assumes "Index_holds d SegmentRDWR es" "es \<noteq> []"
  shows "runs os (Index_changeToReadonly os d) (\<lambda>_ d'. Index_holds d' SegmentReadOnly es)"
proof -
  from assms obtain rw where d: "readonly d = None" "readWrite d = Some rw" and h: "RWFile_holds rw es"
    by (auto simp: Index_holds_def)
  have e: "rw_entries rw = es" using h by (simp add: RWFile_holds_def)
  have ne: "index_bytes es \<noteq> []" using assms(2) by (metis length_index_bytes length_0_conv mult_is_0 zero_neq_numeral)
  have c: "runs os (RWFile_close os (rw\<lparr>rw_name := n\<rparr>)) (\<lambda>_ rw'. rw_content rw' = index_bytes es)" for n
    using h
    by (auto simp: RWFile_close_def RWFile_holds_def Writer_Flush_def File_Write_def simp flip: length_append)
  then show ?thesis using assms(2) d ne
    by (auto simp: Index_changeToReadonly_def Index_holds_def Let_def RWFile_rename_def e
        intro!: runs_mono [OF c] runs_mono [OF openMmapFile_runs])
qed

lemma openIndex_holds:
  assumes "st \<noteq> SegmentClosed" "es \<noteq> []"
  shows "runs os (openIndex os dir name (index_bytes es) st, s) (\<lambda>d s'. s' = s \<and> Index_holds d st es)"
  using assms
  by (cases st) (auto simp: openIndex_def Index_holds_def RWFile_holds_def openMmapFile_def openRWFile_def)

lemma newIndex_holds:
  "runs os (newIndex os dir name, s) (\<lambda>d s'. s' = s \<and> Index_holds d SegmentRDWR [])"
  by (auto simp: newIndex_def newRWFile_def Index_holds_def RWFile_holds_def)

end
