(* ===== verification/Log_Segment.thy ===== *)
theory Log_Segment
  imports Log_Index
begin

text \<open>
  A segment of the log: \<^verbatim>\<open>src/storage/segment.go\<close>. A segment is a log file, which holds the frames of
  consecutive raft entries, and its index. \<open>N\<close> is \<^verbatim>\<open>SegmentSize\<close>, a variable of the package. A
  directory is the list of its files with their contents.
\<close>

section \<open>The operations\<close>

record Segment =
  FirstIndex :: u64
  LastIndex :: u64
  LogFile :: MmapFile
  LogIndex :: Index
  Status :: SegmentStatus

type_synonym directory = "(string \<times> bytes) list"

definition newSegment :: "os \<Rightarrow> nat \<Rightarrow> string \<Rightarrow> string \<Rightarrow> (storage_error, Segment) outcome" where
  "newSegment os N dir name =
     obind (newMmapFile os dir name N) (\<lambda>f.
     obind (newIndex os dir (GetIndexName name)) (\<lambda>d.
       Ok \<lparr>FirstIndex = 0, LastIndex = 0, LogFile = f, LogIndex = d, Status = SegmentRDWR\<rparr>))"

text \<open>
  The loop of \<^verbatim>\<open>rebuildIndex\<close>. The variables \<^verbatim>\<open>record\<close> and \<^verbatim>\<open>raftEntry\<close> are declared outside of the
  loop, so that every \<^verbatim>\<open>Unmarshal\<close> merges into what the last one left.
\<close>

function rebuild_loop ::
    "os \<Rightarrow> nat \<Rightarrow> bytes \<Rightarrow> nat \<Rightarrow> Record \<Rightarrow> Entry \<Rightarrow> Index \<Rightarrow> (Index, unit) res" where
  "rebuild_loop os N data position record raftEntry d =
     (if N \<le> position + RecordLengthSize then (Ok (), d)
      else case Option.bind (slice data position (position + RecordLengthSize)) get_le32 of
        None \<Rightarrow> (Crash, d)
      | Some recordLen \<Rightarrow>
          (let position' = position + RecordLengthSize
           in if N \<le> position' \<or> N < position' + unat recordLen then (Ok (), d)
              else case slice data position' (position' + unat recordLen) of
                None \<Rightarrow> (Crash, d)
              | Some recordBuf \<Rightarrow>
                  if recordBuf = [] then (Ok (), d)
                  else (case Record_Unmarshal record recordBuf of
                          Crash \<Rightarrow> (Crash, d)
                        | Err _ \<Rightarrow> (Ok (), d)
                        | Ok record' \<Rightarrow>
                            if ChecksumIEEE (nil_bytes (Data record')) \<noteq> Crc record' then (Ok (), d)
                            else (case Entry_Unmarshal raftEntry (nil_bytes (Data record')) of
                                    Crash \<Rightarrow> (Crash, d)
                                  | Err _ \<Rightarrow> (Ok (), d)
                                  | Ok raftEntry' \<Rightarrow>
                                      (case appendIndexEntry os d
                                              \<lparr>RaftIndex = Entry.Index raftEntry',
                                               FilePosition = of_nat (position' - RecordLengthSize)\<rparr> of
                                         (Ok _, d') \<Rightarrow>
                                           rebuild_loop os N data (position' + unat recordLen)
                                             record' raftEntry' d'
                                       | (_, d') \<Rightarrow> (Crash, d'))))))"
  by pat_completeness auto
termination
  by (relation "measure (\<lambda>(os, N, data, position, _). N - position)")
    (auto simp: RecordLengthSize_def Let_def)

declare rebuild_loop.simps [simp del]

definition rebuildIndex ::
    "os \<Rightarrow> nat \<Rightarrow> directory \<Rightarrow> MmapFile \<Rightarrow> (storage_error, Index) outcome" where
  "rebuildIndex os N files logFile =
     (let indexName = GetIndexName (fileName logFile)
      in if map_of files indexName = None \<or> \<not> os SysRemove indexName then Crash
         else obind (newIndex os (fileDir logFile) indexName) (\<lambda>d.
           case rebuild_loop os N (mappedData logFile) 0 new_Record new_Entry d of
             (Ok _, d') \<Rightarrow> Ok d'
           | (Err e, _) \<Rightarrow> Err e
           | (Crash, _) \<Rightarrow> Crash))"

text \<open>The end of \<^verbatim>\<open>openSegment\<close> for a segment that is written on: the next record goes after the last
  one of the index.\<close>

definition resume :: "u64 \<Rightarrow> MmapFile \<Rightarrow> Index \<Rightarrow> (storage_error, Segment) outcome" where
  "resume firstIndex logFile d =
     obind (getLastRaftEntry d SegmentRDWR) (\<lambda>lastIndexEntry.
       let p = unat (FilePosition lastIndexEntry)
       in case Option.bind (slice (mappedData logFile) p (p + RecordLengthSize)) get_le32 of
            None \<Rightarrow> Crash
          | Some lastRecordLen \<Rightarrow>
              (case setPosition logFile (int (p + unat lastRecordLen + RecordLengthSize)) of
                 (Ok _, logFile') \<Rightarrow>
                   Ok \<lparr>FirstIndex = firstIndex, LastIndex = RaftIndex lastIndexEntry,
                       LogFile = logFile', LogIndex = d, Status = SegmentRDWR\<rparr>
               | _ \<Rightarrow> Crash))"

definition openSegment ::
    "os \<Rightarrow> nat \<Rightarrow> string \<Rightarrow> directory \<Rightarrow> string \<Rightarrow> SegmentStatus \<Rightarrow> bool \<Rightarrow> (storage_error, Segment) outcome" where
  "openSegment os N dir files name status needRecover =
     (let indexFileName = GetIndexName name;
          file = (\<lambda>n. case map_of files n of None \<Rightarrow> Crash | Some c \<Rightarrow> Ok c)
      in obind (obind (file name) (openMmapFile os dir name)) (\<lambda>logFile.
         if status = SegmentReadOnly then
           (case Sscanf_ReadonlySegment name of
              None \<Rightarrow> Crash
            | Some (a, b) \<Rightarrow>
                obind (obind (file indexFileName)
                         (\<lambda>c. openIndex os dir indexFileName c SegmentReadOnly)) (\<lambda>d.
                Ok \<lparr>FirstIndex = a, LastIndex = b, LogFile = logFile, LogIndex = d, Status = status\<rparr>))
         else
           (case Sscanf_ReadWriteSegment name of
              None \<Rightarrow> Crash
            | Some a \<Rightarrow>
                obind (if needRecover then rebuildIndex os N files logFile
                       else obind (file indexFileName)
                              (\<lambda>c. openIndex os dir indexFileName c SegmentRDWR)) (\<lambda>d.
                obind (resume a logFile d) (\<lambda>s. Ok (s\<lparr>Status := status\<rparr>))))))"

definition ReadDir :: "directory \<Rightarrow> string list" where
  "ReadDir files = sort (map fst files)"

fun open_all ::
    "os \<Rightarrow> nat \<Rightarrow> string \<Rightarrow> directory \<Rightarrow> bool \<Rightarrow> string list \<Rightarrow> (storage_error, Segment list) outcome" where
  "open_all os N dir files needRecover [] = Ok []"
| "open_all os N dir files needRecover [name] =
     obind (openSegment os N dir files name SegmentRDWR needRecover) (\<lambda>s. Ok [s])"
| "open_all os N dir files needRecover (name # n # names) =
     obind (openSegment os N dir files name SegmentReadOnly False) (\<lambda>s.
     obind (open_all os N dir files needRecover (n # names)) (\<lambda>ss. Ok (s # ss)))"

definition openSegments ::
    "os \<Rightarrow> nat \<Rightarrow> string \<Rightarrow> directory \<Rightarrow> bool \<Rightarrow> (storage_error, Segment list) outcome" where
  "openSegments os N dir files needRecover =
     (if \<not> os SysRead dir then Crash
      else open_all os N dir files needRecover
             (filter (\<lambda>n. HasSuffix n LogSuffix) (ReadDir files)))"

definition appendRecord :: "os \<Rightarrow> Segment \<Rightarrow> Record \<Rightarrow> u64 \<Rightarrow> (Segment, unit) res" where
  "appendRecord os s record raftIndex =
     (case Record_Marshal record of
        Crash \<Rightarrow> (Crash, s)
      | Err e \<Rightarrow> (Err (ErrProto e), s)
      | Ok recordBuf \<Rightarrow>
          sbind (MmapFile_append (LogFile s) (le32 (of_nat (Record_Size record))))
            (\<lambda>f. s\<lparr>LogFile := f\<rparr>) (\<lambda>startPos s.
          sbind (MmapFile_append (LogFile s) recordBuf) (\<lambda>f. s\<lparr>LogFile := f\<rparr>) (\<lambda>_ s.
          sbind (appendIndexEntry os (LogIndex s)
                   \<lparr>RaftIndex = raftIndex, FilePosition = of_nat startPos\<rparr>)
            (\<lambda>d. s\<lparr>LogIndex := d\<rparr>) (\<lambda>_ s. (Ok (), s)))))"

fun append_loop :: "os \<Rightarrow> Segment \<Rightarrow> Record list \<Rightarrow> u64 \<Rightarrow> (Segment, unit) res" where
  "append_loop os s [] i = (Ok (), s)"
| "append_loop os s (r # rs) i =
     sbind (appendRecord os s r i) (\<lambda>s. s) (\<lambda>_ s. append_loop os s rs (i + 1))"

definition appendRecords :: "os \<Rightarrow> Segment \<Rightarrow> Record list \<Rightarrow> u64 \<Rightarrow> (Segment, unit) res" where
  "appendRecords os s records startIndex =
     (if Status s \<noteq> SegmentRDWR then (Err ErrNotWritable, s)
      else if LastIndex s \<noteq> 0 \<and> LastIndex s + 1 \<noteq> startIndex then (Err ErrNotContinuous, s)
      else
        sbind (append_loop os s records startIndex) (\<lambda>s. s) (\<lambda>_ s.
        sbind (MmapFile_sync os (LogFile s)) (\<lambda>f. s\<lparr>LogFile := f\<rparr>) (\<lambda>_ s.
          let lastIndex = startIndex + (of_nat (length records) - 1);
              s = (if FirstIndex s = 0 then s\<lparr>FirstIndex := startIndex\<rparr> else s);
              s = (if LastIndex s < lastIndex then s\<lparr>LastIndex := lastIndex\<rparr> else s)
          in (Ok (), s))))"

lemma readRaftEntry_progress:
  "readRaftEntry f p = Ok (e, p') \<Longrightarrow> p < p' \<and> p' \<le> length (mappedData f)"
  by (auto simp: readRaftEntry_def Let_def RecordLengthSize_def slice_def
      split: option.splits outcome.splits if_splits)

text \<open>The reading loop: every record is at least its length field, so that it ends.\<close>

function read_loop ::
    "MmapFile \<Rightarrow> u64 \<Rightarrow> u64 \<Rightarrow> u64 \<Rightarrow> nat \<Rightarrow> u64 \<Rightarrow> (storage_error, Entry list \<times> u64) outcome" where
  "read_loop f lastIndex hi maxSize position readSize =
     (case readRaftEntry f position of
        Ok (entry, nextReadPosition) \<Rightarrow>
          let readSize' = readSize + of_nat (Entry_Size entry)
          in if maxSize < readSize' \<or> Entry.Index entry = hi \<or> Entry.Index entry = lastIndex
             then Ok ([entry], readSize')
             else obind (read_loop f lastIndex hi maxSize nextReadPosition readSize')
                    (\<lambda>(entries, sz). Ok (entry # entries, sz))
      | Err e \<Rightarrow> Err e
      | Crash \<Rightarrow> Crash)"
  by pat_completeness auto
termination
proof (relation "measure (\<lambda>(f, _, _, _, position, _). length (mappedData f) - position)", goal_cases)
  case (2 f lastIndex hi maxSize position readSize x entry nextPos sz)
  then show ?case using readRaftEntry_progress [of f position entry nextPos] by auto
qed simp

declare read_loop.simps [simp del]

definition readRaftEntries ::
    "Segment \<Rightarrow> u64 \<Rightarrow> u64 \<Rightarrow> u64 \<Rightarrow> (storage_error, Entry list \<times> u64) outcome" where
  "readRaftEntries s lo hi maxSize =
     (if Status s = SegmentClosed then Err ErrClosed
      else if sint (hi - lo + 1) < 0 then Crash
      else
        obind (getRaftEntryPosition (LogIndex s) lo (FirstIndex s) (Status s)) (\<lambda>position.
        obind (read_loop (LogFile s) (LastIndex s) hi maxSize position 0) (\<lambda>(entries, readSize).
          Ok (entries, if maxSize < readSize then 0 else maxSize - readSize))))"

definition needRolling :: "Segment \<Rightarrow> nat \<Rightarrow> bool" where
  "needRolling s sz \<longleftrightarrow> maxBytes (LogFile s) < writePosition (LogFile s) + sz"

definition Segment_close :: "os \<Rightarrow> Segment \<Rightarrow> (Segment, unit) res" where
  "Segment_close os s =
     (let s = s\<lparr>Status := SegmentClosed, FirstIndex := 0, LastIndex := 0\<rparr>
      in case MmapFile_close os (LogFile s) of
           (Ok _, f) \<Rightarrow>
             let s = s\<lparr>LogFile := f\<rparr>
             in (case Index_close os (LogIndex s) of
                   (Ok _, d) \<Rightarrow> (Ok (), s\<lparr>LogIndex := d\<rparr>)
                 | (_, d) \<Rightarrow> (Crash, s\<lparr>LogIndex := d\<rparr>))
         | (_, f) \<Rightarrow> (Crash, s\<lparr>LogFile := f\<rparr>))"

definition Segment_truncateSuffix :: "os \<Rightarrow> Segment \<Rightarrow> u64 \<Rightarrow> (Segment, unit) res" where
  "Segment_truncateSuffix os s i =
     sbind (getRaftEntryPosition (LogIndex s) i (FirstIndex s) (Status s), s) (\<lambda>s. s) (\<lambda>segmentPos s.
     sbind (MmapFile_truncateSuffix os (LogFile s) segmentPos) (\<lambda>f. s\<lparr>LogFile := f\<rparr>) (\<lambda>_ s.
     sbind (if Status s = SegmentRDWR
            then sbind (Index_truncateSuffix os (LogIndex s) i (FirstIndex s) SegmentRDWR)
                   (\<lambda>d. s\<lparr>LogIndex := d\<rparr>) (\<lambda>_ s. (Ok (), s))
            else
              sbind (MmapFile_rename os (LogFile s) (ReadWriteSegmentPattern (FirstIndex s)))
                (\<lambda>f. s\<lparr>LogFile := f\<rparr>) (\<lambda>_ s.
              sbind (Index_truncateSuffix os (LogIndex s) i (FirstIndex s) SegmentReadOnly)
                (\<lambda>d. s\<lparr>LogIndex := d\<rparr>) (\<lambda>_ s. (Ok (), s\<lparr>Status := SegmentRDWR\<rparr>))))
       (\<lambda>s. s) (\<lambda>_ s.
     if i = FirstIndex s then (Ok (), s\<lparr>FirstIndex := 0, LastIndex := 0\<rparr>)
     else (Ok (), s\<lparr>LastIndex := i - 1\<rparr>))))"

definition Segment_changeToReadonly :: "os \<Rightarrow> Segment \<Rightarrow> (Segment, unit) res" where
  "Segment_changeToReadonly os s =
     (if Status s \<noteq> SegmentRDWR then (Err ErrArgsIllegal, s)
      else
        sbind (MmapFile_rename os (LogFile s) (ReadonlySegmentPattern (FirstIndex s) (LastIndex s)))
          (\<lambda>f. s\<lparr>LogFile := f\<rparr>) (\<lambda>_ s.
        sbind (Index_changeToReadonly os (LogIndex s)) (\<lambda>d. s\<lparr>LogIndex := d\<rparr>) (\<lambda>_ s.
          (Ok (), s\<lparr>Status := SegmentReadOnly\<rparr>))))"

definition Segment_remove :: "os \<Rightarrow> Segment \<Rightarrow> (Segment, unit) res" where
  "Segment_remove os s =
     (let s = s\<lparr>Status := SegmentClosed, FirstIndex := 0, LastIndex := 0\<rparr>
      in sbind (MmapFile_remove os (LogFile s)) (\<lambda>f. s\<lparr>LogFile := f\<rparr>) (\<lambda>_ s.
         sbind (Index_remove os (LogIndex s)) (\<lambda>d. s\<lparr>LogIndex := d\<rparr>) (\<lambda>_ s. (Ok (), s))))"

section \<open>What a segment holds\<close>

definition frames :: "Entry list \<Rightarrow> bytes" where
  "frames es = concat (map frame es)"

primrec index_of :: "nat \<Rightarrow> Entry list \<Rightarrow> IndexEntry list" where
  "index_of p [] = []"
| "index_of p (e # es) =
     \<lparr>RaftIndex = Entry.Index e, FilePosition = of_nat p\<rparr> # index_of (p + length (frame e)) es"

text \<open>The entries carry the consecutive indexes from \<open>n\<close> on, without wrapping around.\<close>

primrec numbered :: "nat \<Rightarrow> Entry list \<Rightarrow> bool" where
  "numbered n [] \<longleftrightarrow> True"
| "numbered n (e # es) \<longleftrightarrow> unat (Entry.Index e) = n \<and> numbered (Suc n) es"

definition LogFile_holds :: "nat \<Rightarrow> MmapFile \<Rightarrow> Entry list \<Rightarrow> bool" where
  "LogFile_holds N f es \<longleftrightarrow>
     mapped f \<and> maxBytes f = N \<and> length (frames es) \<le> N \<and>
     mappedData f = frames es @ replicate (N - length (frames es)) 0"

definition Segment_data :: "nat \<Rightarrow> Segment \<Rightarrow> Entry list \<Rightarrow> bool" where
  "Segment_data N s es \<longleftrightarrow>
     LogFile_holds N (LogFile s) es \<and> list_all fits es \<and>
     Index_holds (LogIndex s) (Status s) (index_of 0 es) \<and>
     (Status s = SegmentRDWR \<longrightarrow> writePosition (LogFile s) = length (frames es))"

lemmas segment_data_defs = Segment_data_def LogFile_holds_def

definition Segment_holds :: "nat \<Rightarrow> Segment \<Rightarrow> Entry list \<Rightarrow> bool" where
  "Segment_holds N s es \<longleftrightarrow>
     Segment_data N s es \<and> numbered (unat (FirstIndex s)) es \<and>
     (if es = [] then FirstIndex s = 0 \<and> LastIndex s = 0
      else FirstIndex s = Entry.Index (hd es) \<and> LastIndex s = Entry.Index (last es) \<and>
           FirstIndex s \<noteq> 0)"

lemma LogFile_holds_rename: "LogFile_holds N (f\<lparr>fileName := n\<rparr>) es \<longleftrightarrow> LogFile_holds N f es"
  by (simp add: LogFile_holds_def)

lemma frames_simps [simp]:
  "frames [] = []" "frames (e # es) = frame e @ frames es" "frames (xs @ ys) = frames xs @ frames ys"
  by (simp_all add: frames_def)

lemma length_frames_ge: "6 * length es \<le> length (frames es)"
proof (induction es)
  case (Cons e es)
  then show ?case using frame_length_bounds [of e] by simp
qed simp

lemma length_index_of [simp]: "length (index_of p es) = length es"
  by (induction es arbitrary: p) auto

lemma index_of_append: "index_of p (xs @ ys) = index_of p xs @ index_of (p + length (frames xs)) ys"
  by (induction xs arbitrary: p) (auto simp: add.assoc)

lemma take_index_of: "take k (index_of p es) = index_of p (take k es)"
  by (induction es arbitrary: p k) (auto simp: take_Cons split: nat.split)

lemma nth_index_of:
  "k < length es \<Longrightarrow> index_of p es ! k =
     \<lparr>RaftIndex = Entry.Index (es ! k), FilePosition = of_nat (p + length (frames (take k es)))\<rparr>"
  by (induction es arbitrary: p k) (auto simp: nth_Cons add.assoc split: nat.split)

lemma numbered_append: "numbered n (xs @ ys) \<longleftrightarrow> numbered n xs \<and> numbered (n + length xs) ys"
  by (induction xs arbitrary: n) auto

lemma numbered_nth: "numbered n es \<Longrightarrow> k < length es \<Longrightarrow> unat (Entry.Index (es ! k)) = n + k"
  by (induction es arbitrary: n k) (auto simp: nth_Cons split: nat.split)

lemma numbered_bound: "numbered n es \<Longrightarrow> es \<noteq> [] \<Longrightarrow> n + length es \<le> 2 ^ 64"
  using numbered_nth [of n es "length es - 1"]
    unsigned_less [of "Entry.Index (es ! (length es - 1))", where 'a = nat]
  by (cases es) auto

lemma numbered_take_drop: 
  "numbered n es \<Longrightarrow> numbered n (take k es)"
  "numbered n es \<Longrightarrow> k \<le> length es \<Longrightarrow> numbered (n + k) (drop k es)"
  using numbered_append [of n "take k es" "drop k es"] by auto

lemma numbered_index:
  fixes i :: u64
  assumes "numbered (unat i) es" "k < length es"
  shows "Entry.Index (es ! k) = i + of_nat k"
proof -
  have "unat i + k < 2 ^ 64" using numbered_bound [OF assms(1)] assms(2) by fastforce
  then have "unat (Entry.Index (es ! k)) = unat (i + of_nat k)"
    using numbered_nth [OF assms] offset_of(3) by simp
  then show ?thesis by (simp add: word_unat_eq_iff)
qed

lemma MmapFile_append_data:
  assumes "mapped f" "writePosition f = length pre" "mappedData f = pre @ replicate z 0" "length d \<le> z"
  shows "MmapFile_append f d =
    (Ok (length pre), f\<lparr>mappedData := (pre @ d) @ replicate (z - length d) 0, writePosition := length (pre @ d)\<rparr>)"
  using assms by (simp add: MmapFile_append_def overwrite_def Let_def)

lemma appendRecord_data:
  assumes s: "Segment_data N s es" "Status s = SegmentRDWR" and e: "fits e"
    and room: "length (frames es) + length (frame e) \<le> N"
  shows "runs os (appendRecord os s (record_of e) (Entry.Index e))
    (\<lambda>_ s'. Segment_data N s' (es @ [e]) \<and> Status s' = SegmentRDWR \<and>
            FirstIndex s' = FirstIndex s \<and> LastIndex s' = LastIndex s)"
proof -
  let ?z = "N - length (frames es)" and ?r = "record_of e"
  have f: "mapped (LogFile s)" "writePosition (LogFile s) = length (frames es)"
    "mappedData (LogFile s) = frames es @ replicate ?z 0"
    using s by (auto simp: segment_data_defs)
  have r: "length (le32 (of_nat (Record_Size ?r))) \<le> ?z" "Record_Size ?r \<le> ?z - 4"
    using room by (simp_all add: length_frame)
  note a1 = MmapFile_append_data [OF f r(1)]
  have a2: "MmapFile_append g (Record_MarshalTo ?r) = (Ok (length (frames es) + 4), g\<lparr>mappedData := (frames es @ frame e) @ replicate (?z - length (frame e)) 0,
       writePosition := length (frames es @ frame e)\<rparr>)"
    if "mapped g" "writePosition g = length (frames es @ le32 (of_nat (Record_Size ?r)))"
      "mappedData g = (frames es @ le32 (of_nat (Record_Size ?r))) @ replicate (?z - 4) 0" for g
    using MmapFile_append_data [OF that] r(2) by (simp add: length_MarshalTo frame_def)
  show ?thesis using s room f e
    by (auto simp: appendRecord_def Record_Marshal_eq a1 a2 segment_data_defs index_of_append
        intro!: runs_mono [OF appendIndexEntry_holds])
qed

lemma append_loop_data:
  assumes "Segment_data N s es" "Status s = SegmentRDWR" "list_all fits new" "numbered (unat i) new"
    "length (frames (es @ new)) \<le> N"
  shows "runs os (append_loop os s (map record_of new) i)
    (\<lambda>_ s'. Segment_data N s' (es @ new) \<and> Status s' = SegmentRDWR \<and>
            FirstIndex s' = FirstIndex s \<and> LastIndex s' = LastIndex s)"
  using assms
proof (induction new arbitrary: s es i)
  case (Cons e new)
  have i: "i = Entry.Index e" using Cons.prems(4) by (simp add: word_unat_eq_iff)
  have n: "numbered (unat (i + 1)) new"
  proof (cases new)
    case (Cons e' r)
    then show ?thesis using Cons.prems(4) offset_of(3) [of i 1] numbered_bound [OF Cons.prems(4)] by simp
  qed simp
  show ?case
    using Cons.prems i n
    by (auto intro!: runs_mono [OF appendRecord_data] runs_mono [OF Cons.IH])
qed simp

lemma last_index:
  assumes "numbered (unat i) es" "es \<noteq> []"
  shows "Entry.Index (last es) = i + (of_nat (length es) - 1)" "i = Entry.Index (hd es)"
  using numbered_index [OF assms(1), of "length es - 1"] numbered_index [OF assms(1), of 0] assms(2)
  by (simp_all add: last_conv_nth hd_conv_nth of_nat_diff Suc_le_eq)

lemma appendRecords_holds:
  assumes s: "Segment_holds N s es" "Status s = SegmentRDWR"
    and new: "list_all fits new" "numbered (unat i) new" "new \<noteq> []" "i \<noteq> 0"
    and nxt: "es \<noteq> [] \<Longrightarrow> i = LastIndex s + 1"
    and room: "length (frames (es @ new)) \<le> N"
  shows "runs os (appendRecords os s (map record_of new) i)
    (\<lambda>_ s'. Segment_holds N s' (es @ new) \<and> Status s' = SegmentRDWR)"
proof -
  have d: "Segment_data N s es" using s by (simp add: Segment_holds_def)
  note li = last_index [OF new(2,3)]
  have i: "unat i = unat (LastIndex s) + 1" "FirstIndex s \<noteq> 0"
    "unat i = unat (FirstIndex s) + length es" if "es \<noteq> []"
  proof -
    show "FirstIndex s \<noteq> 0" using s that by (auto simp: Segment_holds_def)
    have "i = LastIndex s + 1" "i \<noteq> 0" using nxt [OF that] new(4) by auto
    then show *: "unat i = unat (LastIndex s) + 1" by (metis add.commute unatSuc Suc_eq_plus1)
    show "unat i = unat (FirstIndex s) + length es"
      using s that numbered_nth [of "unat (FirstIndex s)" es "length es - 1"] *
      by (cases es rule: rev_cases) (auto simp: Segment_holds_def last_conv_nth)
  qed
  have le: "i \<le> Entry.Index (last new)"
    using numbered_nth [OF new(2), of "length new - 1"] new(3)
    by (simp add: word_le_nat_alt last_conv_nth)
  show ?thesis
  proof (cases "es = []")
    case True
    then have "0 < Entry.Index (last new)" using le new(4) by (metis leD word_neq_0_conv)
    then show ?thesis using s new True room li
      by (auto simp: appendRecords_def Segment_holds_def MmapFile_sync_def Let_def segment_data_defs
          intro!: runs_mono [OF append_loop_data [OF d]])
  next
    case False
    then have "LastIndex s < Entry.Index (last new)" 
      using le i(1) by (simp add: word_le_nat_alt word_less_nat_alt)
    then show ?thesis using s new False room li i nxt
      by (auto simp: appendRecords_def Segment_holds_def MmapFile_sync_def Let_def segment_data_defs
          numbered_append intro!: runs_mono [OF append_loop_data [OF d]])
  qed
qed

lemma changeToReadonly_holds:
  assumes "Segment_holds N s es" "Status s = SegmentRDWR" "es \<noteq> []"
  shows "runs os (Segment_changeToReadonly os s)
    (\<lambda>_ s'. Segment_holds N s' es \<and> Status s' = SegmentReadOnly \<and>
            writePosition (LogFile s') = length (frames es))"
proof -
  have "Index_holds (LogIndex s) SegmentRDWR (index_of 0 es)" "index_of 0 es \<noteq> []"
    using assms by (auto simp: Segment_holds_def segment_data_defs) (metis length_index_of length_0_conv)
  then show ?thesis using assms
    by (auto simp: Segment_changeToReadonly_def MmapFile_rename_def Segment_holds_def segment_data_defs
        intro!: runs_mono [OF Index_changeToReadonly_holds])
qed

lemma newSegment_holds:
  assumes "0 < N"
  shows "runs os (newSegment os N dir name, d) 
     (\<lambda>s d'. d' = d \<and> Segment_holds N s [] \<and> Status s = SegmentRDWR)"
  using assms
  by (auto simp: newSegment_def newIndex_def newMmapFile_def newRWFile_def Segment_holds_def
      segment_data_defs Index_holds_def RWFile_holds_def)


text \<open>What a read with a size limit gives: it stops after the entry that exceeds the limit.\<close>

primrec limit_read :: "nat \<Rightarrow> nat \<Rightarrow> Entry list \<Rightarrow> Entry list" where
  "limit_read mx sz [] = []"
| "limit_read mx sz (e # es) =
     (if mx < sz + Entry_Size e then [e] else e # limit_read mx (sz + Entry_Size e) es)"

definition sizes :: "Entry list \<Rightarrow> nat" where
  "sizes es = sum_list (map Entry_Size es)"

lemma sizes_simps [simp]:
  "sizes [] = 0" "sizes (e # es) = Entry_Size e + sizes es" "sizes (xs @ ys) = sizes xs + sizes ys"
  by (simp_all add: sizes_def)

lemma sizes_limit_read: "sizes (limit_read mx sz es) \<le> sizes es"
  by (induction es arbitrary: sz) auto

lemma Entry_Size_le_frame: "Entry_Size e \<le> length (frame e)"
  by (simp add: length_frame Record_Size_def record_of_def length_Entry_MarshalTo)

lemma sizes_le_frames: "sizes es \<le> length (frames es)"
  by (induction es) (auto intro: add_mono Entry_Size_le_frame)

lemma read_loop_frames:
  assumes "mapped f" "mappedData f = pre @ frames rng @ post" "list_all fits rng" "rng \<noteq> []"
    "Entry.Index (last rng) = hi \<or> Entry.Index (last rng) = lastI"
    "\<forall>e\<in>set (butlast rng). Entry.Index e \<noteq> hi \<and> Entry.Index e \<noteq> lastI"
    "sz + sizes rng < 2 ^ 64"
  shows "read_loop f lastI hi mx (length pre) (of_nat sz) =
    Ok (limit_read (unat mx) sz rng, of_nat (sz + sizes (limit_read (unat mx) sz rng)))"
  using assms(2-)
proof (induction rng arbitrary: pre sz)
  case (Cons e rng)
  have r: "readRaftEntry f (length pre) = Ok (e, length (pre @ frame e))"
    using readRaftEntry_frame [OF assms(1), of e pre "frames rng @ post"] Cons.prems by simp
  have z: "mx < of_nat (sz + Entry_Size e) \<longleftrightarrow> unat mx < sz + Entry_Size e"
    using Cons.prems(6) by (simp add: word_less_nat_alt unat_of_nat del: of_nat_add)
  show ?case
  proof (cases "rng = []")
    case True
    then show ?thesis using Cons.prems by (subst read_loop.simps) (auto simp: r Let_def)
  next
    case False
    have IH: "read_loop f lastI hi mx (length (pre @ frame e)) (of_nat (sz + Entry_Size e)) =
      Ok (limit_read (unat mx) (sz + Entry_Size e) rng,
          of_nat (sz + Entry_Size e + sizes (limit_read (unat mx) (sz + Entry_Size e) rng)))"
      using Cons.prems False by (intro Cons.IH) auto
    then show ?thesis using Cons.prems False z
      by (subst read_loop.simps) (auto simp: r Let_def add.assoc)
  qed
qed simp

lemma butlast_other_indexes:
  assumes "numbered n rng" "rng \<noteq> []" "e \<in> set (butlast rng)"
  shows "unat (Entry.Index e) < unat (Entry.Index (last rng))"
proof -
  obtain k where k: "k < length (butlast rng)" "e = butlast rng ! k" using assms(3) by (metis in_set_conv_nth)
  then have "unat (Entry.Index e) = n + k"
    using numbered_nth [OF assms(1), of k] by (simp add: nth_butlast)
  moreover have "unat (Entry.Index (last rng)) = n + (length rng - 1)"
    using numbered_nth [OF assms(1), of "length rng - 1"] assms(2) by (simp add: last_conv_nth)
  ultimately show ?thesis using k by simp
qed

lemma frames_take_less:
  assumes "k < length es"
  shows "length (frames (take k es)) + 6 \<le> length (frames es)"
proof -
  have "es = take k es @ es ! k # drop (Suc k) es" using assms by (simp add: id_take_nth_drop)
  then have "frames es = frames (take k es) @ frame (es ! k) @ frames (drop (Suc k) es)"
    by (metis frames_simps(2,3))
  then show ?thesis using frame_length_bounds [of "es ! k"] by simp
qed

lemma Segment_position:
  assumes s: "Segment_holds N s es" "N \<le> 2 ^ 32" and k: "k < length es"
  shows "getRaftEntryPosition (LogIndex s) (FirstIndex s + of_nat k) (FirstIndex s) (Status s)
      = Ok (length (frames (take k es)))"
    "12 * length es < 2 ^ 63" "unat (FirstIndex s) + k < 2 ^ 64"
proof -
  have d: "Segment_data N s es" and nu: "numbered (unat (FirstIndex s)) es" and ne: "es \<noteq> []"
    using s k by (auto simp: Segment_holds_def split: if_splits)
  have len: "6 * length es \<le> 2 ^ 32" "length (frames (take k es)) < 2 ^ 32"
    using d s(2) length_frames_ge [of es] frames_take_less [OF k] by (auto simp: segment_data_defs)
  then show *: "12 * length es < 2 ^ 63" by simp
  show b: "unat (FirstIndex s) + k < 2 ^ 64" using numbered_bound [OF nu ne] k by simp
  then show "getRaftEntryPosition (LogIndex s) (FirstIndex s + of_nat k) (FirstIndex s) (Status s)
      = Ok (length (frames (take k es)))"
    using getRaftEntryPosition_holds [of "LogIndex s" "Status s" "index_of 0 es" k "FirstIndex s"]
      d k * len(2) numbered_index [OF nu, of k]
    by (simp add: segment_data_defs nth_index_of unat_of_nat)
qed

lemma readRaftEntries_holds:
  assumes s: "Segment_holds N s es" "N \<le> 2 ^ 32" and k: "k \<le> m" "m < length es"
  shows "readRaftEntries s (FirstIndex s + of_nat k) (FirstIndex s + of_nat m) mx =
    (let rd = limit_read (unat mx) 0 (drop k (take (Suc m) es))
     in Ok (rd, if unat mx < sizes rd then 0 else mx - of_nat (sizes rd)))"
proof -
  let ?rng = "drop k (take (Suc m) es)"
  have d: "Segment_data N s es" and nu: "numbered (unat (FirstIndex s)) es" and ne: "es \<noteq> []"
    and l: "LastIndex s = Entry.Index (last es)"
    using s k by (auto simp: Segment_holds_def split: if_splits)
  have len: "6 * length es \<le> 2 ^ 32" "length (frames es) \<le> 2 ^ 32"
    using d s(2) length_frames_ge [of es] by (auto simp: segment_data_defs)
  have kl: "k < length es" using k by simp
  note pos = Segment_position(1) [OF s kl]
  have sp: "es = take k es @ ?rng @ drop (Suc m) es"
    using k by (metis append_assoc append_take_drop_id le_SucI min.absorb1 take_take)
  have rng: "numbered (unat (FirstIndex s) + k) ?rng" "?rng \<noteq> []" "last ?rng = es ! m"
    using nu k by (auto simp: numbered_take_drop last_conv_nth)
  have "sizes ?rng \<le> sizes es" by (subst (2) sp) simp
  then have sz: "sizes ?rng < 2 ^ 64" using sizes_le_frames [of es] len(2) by simp
  have others: "Entry.Index e \<noteq> FirstIndex s + of_nat m \<and> Entry.Index e \<noteq> LastIndex s"
    if "e \<in> set (butlast ?rng)" for e
  proof -
    have "unat (Entry.Index e) < unat (Entry.Index (es ! m))"
      using butlast_other_indexes [OF rng(1,2) that] rng(3) by simp
    moreover have "unat (Entry.Index (es ! m)) \<le> unat (LastIndex s)"
      using numbered_nth [OF nu] k ne by (simp add: l last_conv_nth)
    ultimately show ?thesis using numbered_index [OF nu k(2)] by auto
  qed
  have "read_loop (LogFile s) (LastIndex s) (FirstIndex s + of_nat m) mx
      (length (frames (take k es))) (of_nat 0) =
    Ok (limit_read (unat mx) 0 ?rng, of_nat (0 + sizes (limit_read (unat mx) 0 ?rng)))"
  proof (rule read_loop_frames [where post = "frames (drop (Suc m) es) @ replicate (N - length (frames es)) 0"])
    show "mappedData (LogFile s) = frames (take k es) @ frames ?rng @
        frames (drop (Suc m) es) @ replicate (N - length (frames es)) 0"
      using d by (metis segment_data_defs append.assoc frames_simps(3) sp)
    show "list_all fits ?rng"
      using d sp by (metis segment_data_defs list_all_append)
  qed (use d rng sz others numbered_index [OF nu k(2)] in \<open>auto simp: segment_data_defs\<close>)
  moreover have "sint (FirstIndex s + of_nat m - (FirstIndex s + of_nat k) + 1) \<ge> 0"
  proof -
    have "FirstIndex s + of_nat m - (FirstIndex s + of_nat k) + 1 = (of_nat (m - k + 1) :: u64)"
      using k(1) by (simp add: of_nat_diff)
    moreover have "m - k + 1 < 2 ^ 63" using k len(1) by simp
    ultimately show ?thesis using sint_of_nat_u64 [of "m - k + 1"] by (metis of_nat_0_le_iff)
  qed
  moreover have "sizes (limit_read (unat mx) 0 ?rng) < 2 ^ 64"
    using sizes_limit_read [of "unat mx" 0 ?rng] sz by simp
  moreover have "Status s \<noteq> SegmentClosed" using d by (auto simp: segment_data_defs Index_holds_def)
  ultimately show ?thesis
    by (simp add: readRaftEntries_def pos Let_def word_less_nat_alt unat_of_nat)
qed

lemma truncateSuffix_data:
  assumes "Segment_data N s es" "k \<le> length es" "writePosition (LogFile s) = length (frames es)"
  shows "runs os (MmapFile_truncateSuffix os (LogFile s) (length (frames (take k es))))
    (\<lambda>_ f'. LogFile_holds N f' (take k es) \<and> writePosition f' = length (frames (take k es)))"
proof -
  have f: "frames es = frames (take k es) @ frames (drop k es)"
    by (metis append_take_drop_id frames_simps(3))
  have "replicate (length (frames (drop k es))) 0 @ replicate (N - length (frames es)) (0 :: byte)
      = replicate (N - length (frames (take k es))) 0"
    using assms(1) by (simp add: segment_data_defs f flip: replicate_add)
  then show ?thesis using assms f
    by (auto simp: MmapFile_truncateSuffix_def segment_data_defs overwrite_def Let_def)
qed

lemma Segment_truncateSuffix_holds:
  assumes s: "Segment_holds N s es" "N \<le> 2 ^ 32" and k: "k < length es"
    and wp: "writePosition (LogFile s) = length (frames es)"
  shows "runs os (Segment_truncateSuffix os s (FirstIndex s + of_nat k))
    (\<lambda>_ s'. Segment_holds N s' (take k es) \<and> Status s' = SegmentRDWR)"
proof -
  have d: "Segment_data N s es" and nu: "numbered (unat (FirstIndex s)) es" and ne: "es \<noteq> []"
    using s k by (auto simp: Segment_holds_def split: if_splits)
  note p = Segment_position [OF s k]
  have i: "Index_holds (LogIndex s) (Status s) (index_of 0 es)" "Status s \<noteq> SegmentClosed"
    using d by (auto simp: segment_data_defs Index_holds_def)
  have t: "runs os (Index_truncateSuffix os (LogIndex s) (FirstIndex s + of_nat k) (FirstIndex s) (Status s))
      (\<lambda>_ d'. Index_holds d' SegmentRDWR (index_of 0 (take k es)))"
    using Index_truncateSuffix_holds [OF i(1), of k "FirstIndex s" os] p k by (simp add: take_index_of)
  have fk: "list_all fits (take k es)"
    using d by (auto simp: segment_data_defs list_all_iff dest: in_set_takeD)
  have z: "FirstIndex s + of_nat k = FirstIndex s \<longleftrightarrow> k = 0"
    using p(3) offset_of(3) [OF p(3)] by auto
  have l: "FirstIndex s + of_nat k - 1 = Entry.Index (last (take k es))" if "k \<noteq> 0"
    using that numbered_index [OF nu, of "k - 1"] k ne
    by (auto simp: last_conv_nth of_nat_diff Suc_le_eq)
  have h: "Segment_holds N s' (take k es)"
    if "LogFile_holds N (LogFile s') (take k es)"
      "writePosition (LogFile s') = length (frames (take k es))"
      "Index_holds (LogIndex s') SegmentRDWR (index_of 0 (take k es))" "Status s' = SegmentRDWR"
      "FirstIndex s' = (if k = 0 then 0 else FirstIndex s)"
      "LastIndex s' = (if k = 0 then 0 else FirstIndex s + of_nat k - 1)" for s'
    using that fk l nu ne s numbered_take_drop(1) [OF nu, of k]
    by (auto simp: Segment_holds_def Segment_data_def hd_take)
  note tr = truncateSuffix_data [OF d less_imp_le [OF k] wp]
  define i where "i = FirstIndex s + of_nat k"
  note p1 = p(1) [folded i_def] and t = t [folded i_def] and z = z [folded i_def]
    and h = h [folded i_def]
  show ?thesis unfolding i_def [symmetric]
  proof (cases "Status s = SegmentRDWR")
    case True
    note runs_tr = runs_mono [OF tr] runs_mono [OF t [unfolded True]]
    show "runs os (Segment_truncateSuffix os s i)
      (\<lambda>_ s'. Segment_holds N s' (take k es) \<and> Status s' = SegmentRDWR)"
      by (auto simp: Segment_truncateSuffix_def p1 [unfolded True] True z intro!: h runs_tr)
        (simp add: Segment_holds_def Segment_data_def True)
  next
    case False
    then have st: "Status s = SegmentReadOnly" using i(2) by (cases "Status s") auto
    note runs_tr = runs_mono [OF tr] runs_mono [OF t [unfolded st]]
    show "runs os (Segment_truncateSuffix os s i)
      (\<lambda>_ s'. Segment_holds N s' (take k es) \<and> Status s' = SegmentRDWR)"
      by (auto simp: Segment_truncateSuffix_def p1 [unfolded st] st MmapFile_rename_def z
          LogFile_holds_rename intro!: h runs_tr)
        (simp add: Segment_holds_def Segment_data_def LogFile_holds_rename)
  qed
qed

lemma frames_eq_Nil [simp]: "frames es = [] \<longleftrightarrow> es = []"
  using length_frames_ge [of es] by auto

lemma index_of_eq_Nil [simp]: "index_of p es = [] \<longleftrightarrow> es = []"
  by (cases es) auto

section \<open>Recovery\<close>

text \<open>
  What may follow the last complete record: too few bytes, a zero length, a length that leaves the
  file, or a record that does not parse or whose checksum is wrong.
\<close>

definition torn :: "bytes \<Rightarrow> bool" where
  "torn tail \<longleftrightarrow> length tail \<le> 4 \<or>
     (case get_le32 (take 4 tail) of
        None \<Rightarrow> False
      | Some len \<Rightarrow>
          len = 0 \<or> length tail < 4 + unat len \<or>
          (\<forall>m. case Record_Unmarshal m (take (unat len) (drop 4 tail)) of
                 Ok r \<Rightarrow> ChecksumIEEE (nil_bytes (Data r)) \<noteq> Crc r
               | Err _ \<Rightarrow> True
               | Crash \<Rightarrow> False))"

lemma torn_zeros: "torn (replicate z 0)"
proof (cases "z \<le> 4")
  case False
  then have "take 4 (replicate z (0 :: byte)) = le32 0" by (simp add: le32_def eval_nat_numeral)
  then show ?thesis by (simp add: torn_def)
qed (simp add: torn_def)

lemma rebuild_loop_torn:
  assumes "length (pre @ tail) = N" "torn tail"
  shows "rebuild_loop os N (pre @ tail) (length pre) rec0 raftEntry d = (Ok (), d)"
proof (cases "length tail \<le> 4")
  case True
  then show ?thesis using assms by (subst rebuild_loop.simps) (simp add: RecordLengthSize_def)
next
  case False
  then have s: "slice (pre @ tail) (length pre) (length pre + 4) = Some (take 4 tail)"
    by (simp add: slice_def)
  from False assms(2) obtain len where len: "get_le32 (take 4 tail) = Some len"
    and t: "len = 0 \<or> length tail < 4 + unat len \<or>
          (\<forall>m. case Record_Unmarshal m (take (unat len) (drop 4 tail)) of
                 Ok r \<Rightarrow> ChecksumIEEE (nil_bytes (Data r)) \<noteq> Crc r | Err _ \<Rightarrow> True | Crash \<Rightarrow> False)"
    by (auto simp: torn_def split: option.splits)
  have s2: "slice (pre @ tail) (length pre + 4) (length pre + 4 + unat len) =
      Some (take (unat len) (drop 4 tail))" if "4 + unat len \<le> length tail"
    using that by (simp add: slice_def)
  show ?thesis using t assms(1) False s2 len
    by (subst rebuild_loop.simps)
      (auto simp: RecordLengthSize_def s Let_def split: outcome.splits)
qed

lemma rebuild_loop_frames:
  assumes "length (pre @ frames es @ tail) = N" "list_all fits es" "torn tail"
    "Index_holds d SegmentRDWR ds"
  shows "runs os (rebuild_loop os N (pre @ frames es @ tail) (length pre) rec0 raftEntry d)
    (\<lambda>_ d'. Index_holds d' SegmentRDWR (ds @ index_of (length pre) es))"
  using assms
proof (induction es arbitrary: pre rec0 raftEntry d ds)
  case Nil
  then show ?case using rebuild_loop_torn [of pre tail N] by simp
next
  case (Cons e es)
  let ?r = "record_of e" and ?data = "pre @ frames (e # es) @ tail"
  have e: "fits e" "Record_Size ?r < 2 ^ 32" "XXX_unrecognized ?r = []" "Entry_storable e"
    using Cons.prems(2) fits_storable by (auto simp: fits_def record_of_def)
  have sz: "unat (of_nat (Record_Size ?r) :: u32) = Record_Size ?r" "Record_Size ?r \<noteq> 0"
    using e(2) frame_length_bounds [of e] by (simp_all add: unat_of_nat length_frame)
  have sl: "slice ?data (length pre) (length pre + 4) = Some (le32 (of_nat (Record_Size ?r)))"
    "slice ?data (length pre + 4) (length pre + 4 + Record_Size ?r) = Some (Record_MarshalTo ?r)"
    by (simp_all add: slice_def frame_def length_MarshalTo)
  obtain rec' where r: "Record_Unmarshal rec0 (Record_MarshalTo ?r) = Ok rec'"
    "Data rec' = Some (Entry_MarshalTo e)" "Crc rec' = ChecksumIEEE (Entry_MarshalTo e)"
    using Record_Unmarshal_MarshalTo [of ?r rec0] e by (simp add: record_of_sel)
  obtain entry' where en: "Entry_Unmarshal raftEntry (Entry_MarshalTo e) = Ok entry'"
    "Entry.Index entry' = Entry.Index e"
    using Entry_Unmarshal_MarshalTo [OF e(4), of raftEntry] by simp
  have ne: "Record_MarshalTo ?r \<noteq> []" using sz(2) length_MarshalTo(1) [of ?r] by auto
  have N: "\<not> N \<le> length pre + 4" "length pre + 4 + Record_Size ?r \<le> N"
    using Cons.prems(1) sz(2) by (auto simp: length_frame)
  let ?ie = "\<lparr>RaftIndex = Entry.Index e, FilePosition = of_nat (length pre)\<rparr>"
  have step: "rebuild_loop os N ?data (length pre) rec0 raftEntry d =
    (case appendIndexEntry os d ?ie of
       (Ok _, d') \<Rightarrow> rebuild_loop os N ?data (length pre + 4 + unat (of_nat (Record_Size ?r) :: u32)) rec' entry' d'
     | (_, d') \<Rightarrow> (Crash, d'))"
    using N ne
    by (subst rebuild_loop.simps)
      (simp add: RecordLengthSize_def sl sz r en Let_def record_of_sel del: frames_simps)
  have IH: "runs os (rebuild_loop os N ((pre @ frame e) @ frames es @ tail) (length (pre @ frame e)) rec' entry' d')
    (\<lambda>_ d'. Index_holds d' SegmentRDWR ((ds @ [?ie]) @ index_of (length (pre @ frame e)) es))"
    if "Index_holds d' SegmentRDWR (ds @ [?ie])" for d'
    using Cons.prems that by (intro Cons.IH) auto
  show ?case unfolding step sz(1)
    using IH by (auto simp: length_frame add.assoc intro!: runs_mono [OF appendIndexEntry_holds [OF Cons.prems(4)]])
qed

lemma rebuildIndex_holds:
  assumes "mappedData f = frames es @ tail" "length (mappedData f) = N" "list_all fits es" "torn tail"
    "map_of files (GetIndexName (fileName f)) \<noteq> None"
  shows "runs os (rebuildIndex os N files f, s)
    (\<lambda>d s'. s' = s \<and> Index_holds d SegmentRDWR (index_of 0 es))"
proof -
  have l: "runs os (rebuild_loop os N (mappedData f) 0 new_Record new_Entry d)
      (\<lambda>_ d'. Index_holds d' SegmentRDWR (index_of 0 es))" if "Index_holds d SegmentRDWR []" for d
    using rebuild_loop_frames [of "[]" es tail N d "[]" os new_Record new_Entry] assms that by simp
  show ?thesis using assms(5)
    by (auto simp: rebuildIndex_def Let_def intro!: runs_mono [OF newIndex_holds] runs_mono [OF l])
qed

lemma last_frame_length:
  assumes "LogFile_holds N f (es @ [e])"
  shows "Option.bind (slice (mappedData f) (length (frames es)) (length (frames es) + RecordLengthSize)) get_le32
    = Some (of_nat (Record_Size (record_of e)))"
  using assms by (simp add: LogFile_holds_def slice_def RecordLengthSize_def frame_def)

text \<open>The files of a segment that holds \<open>es\<close>; \<open>ix\<close> is the contents of its index file.\<close>

definition segment_files_hold :: "nat \<Rightarrow> directory \<Rightarrow> string \<Rightarrow> bytes \<Rightarrow> Entry list \<Rightarrow> bool" where
  "segment_files_hold N files name ix es \<longleftrightarrow>
     es \<noteq> [] \<and> length (frames es) \<le> N \<and> list_all fits es \<and> Entry.Index (hd es) \<noteq> 0 \<and>
     numbered (unat (Entry.Index (hd es))) es \<and>
     map_of files name = Some (frames es @ replicate (N - length (frames es)) 0) \<and>
     map_of files (GetIndexName name) = Some ix"

lemma getLastRaftEntry_holds:
  assumes "Index_holds d SegmentRDWR (index_of 0 (es @ [e]))"
  shows "getLastRaftEntry d SegmentRDWR =
    Ok \<lparr>RaftIndex = Entry.Index e, FilePosition = of_nat (length (frames es))\<rparr>"
  using assms by (auto simp: getLastRaftEntry_def Index_holds_def RWFile_holds_def index_of_append)

lemma openSegment_readonly:
  assumes "segment_files_hold N files name (index_bytes (index_of 0 es)) es"
    and name: "name = ReadonlySegmentPattern (Entry.Index (hd es)) (Entry.Index (last es))"
  shows "runs os (openSegment os N dir files name SegmentReadOnly b, x)
    (\<lambda>s x'. x' = x \<and> Segment_holds N s es \<and> Status s = SegmentReadOnly)"
proof -
  have "frames es \<noteq> []" "index_of 0 es \<noteq> []"
    using assms(1) by (simp_all add: segment_files_hold_def)
  then have f: "runs os (openMmapFile os dir name (frames es @ replicate (N - length (frames es)) 0), x)
      (\<lambda>f x'. x' = x \<and> LogFile_holds N f es)" for x
    using assms(1) by (intro runs_mono [OF openMmapFile_runs]) (auto simp: segment_files_hold_def LogFile_holds_def)
  have h: "Segment_holds N \<lparr>FirstIndex = Entry.Index (hd es), LastIndex = Entry.Index (last es),
      LogFile = f, LogIndex = d, Status = SegmentReadOnly\<rparr> es"
    if "LogFile_holds N f es" "Index_holds d SegmentReadOnly (index_of 0 es)" for f d
    using that assms(1) by (simp add: Segment_holds_def Segment_data_def segment_files_hold_def)
  have eq: "openSegment os N dir files name SegmentReadOnly b =
    obind (openMmapFile os dir name (frames es @ replicate (N - length (frames es)) 0)) (\<lambda>f.
    obind (openIndex os dir (GetIndexName name) (index_bytes (index_of 0 es)) SegmentReadOnly) (\<lambda>d.
      Ok \<lparr>FirstIndex = Entry.Index (hd es), LastIndex = Entry.Index (last es),
      LogFile = f, LogIndex = d, Status = SegmentReadOnly\<rparr>))"
    using assms(1) by (simp add: openSegment_def segment_files_hold_def name Sscanf_patterns)
  show ?thesis unfolding eq using \<open>index_of 0 es \<noteq> []\<close>
    by (auto intro!: runs_mono [OF f] runs_mono [OF openIndex_holds] h)
qed

lemma openSegment_readwrite:
  assumes h: "segment_files_hold N files name ix es" and N: "N \<le> 2 ^ 32"
    and ix: "b \<or> ix = index_bytes (index_of 0 es)"
    and name: "name = ReadWriteSegmentPattern (Entry.Index (hd es))"
  shows "runs os (openSegment os N dir files name SegmentRDWR b, x)
    (\<lambda>s x'. x' = x \<and> Segment_holds N s es \<and> Status s = SegmentRDWR)"
proof -
  have ne: "frames es \<noteq> []" "index_of 0 es \<noteq> []"
    using h by (simp_all add: segment_files_hold_def)
  obtain es' e where es: "es = es' @ [e]" using h by (metis segment_files_hold_def rev_exhaust)
  have e: "fits e" using h by (simp add: segment_files_hold_def es)
  have len: "length (frames es') < 2 ^ 32"
    using frames_take_less [of "length es'" es] h N by (simp add: segment_files_hold_def es)
  have p: "unat (of_nat (length (frames es')) :: u32) = length (frames es')"
    "unat (of_nat (Record_Size (record_of e)) :: u32) = Record_Size (record_of e)"
    using len e by (simp_all add: unat_of_nat fits_def)
  have idx: "runs os (if b then rebuildIndex os N files f
         else obind (Ok ix) (\<lambda>c. openIndex os dir (GetIndexName name) c SegmentRDWR), x)
       (\<lambda>d x'. x' = x \<and> Index_holds d SegmentRDWR (index_of 0 es))"
    if "fileName f = name" "LogFile_holds N f es" for f
  proof (cases b)
    case True
    then show ?thesis using h that
      by (auto simp: segment_files_hold_def LogFile_holds_def intro!: rebuildIndex_holds torn_zeros)
  next
    case False
    then show ?thesis using ix openIndex_holds [OF _ ne(2), of SegmentRDWR] by simp
  qed
  have f: "LogFile_holds N \<lparr>fileDir = dir, fileName = name, mappedData = frames es @ replicate (N - length (frames es)) 0,
      writePosition = 0, syncPosition = 0, maxBytes = N, mapped = True\<rparr> es"
    using h by (simp add: segment_files_hold_def LogFile_holds_def)
  have r: "runs os (resume (Entry.Index (hd es)) f d, x)
      (\<lambda>s x'. x' = x \<and> Segment_holds N (s\<lparr>Status := SegmentRDWR\<rparr>) es)"
    if "LogFile_holds N f es" "Index_holds d SegmentRDWR (index_of 0 es)" for f d
    using that h last_frame_length [of N f es' e] getLastRaftEntry_holds [of d es' e]
    by (simp add: resume_def Let_def es p setPosition_def Segment_holds_def segment_data_defs
        segment_files_hold_def length_frame RecordLengthSize_def)
  have eq: "openSegment os N dir files name SegmentRDWR b =
    obind (openMmapFile os dir name (frames es @ replicate (N - length (frames es)) 0)) (\<lambda>f.
    obind (if b then rebuildIndex os N files f
           else obind (Ok ix) (\<lambda>c. openIndex os dir (GetIndexName name) c SegmentRDWR)) (\<lambda>d.
    obind (resume (Entry.Index (hd es)) f d) (\<lambda>s. Ok (s\<lparr>Status := SegmentRDWR\<rparr>))))"
    using h by (cases b) (simp_all add: openSegment_def Let_def segment_files_hold_def name)
  have fr: "runs os (openMmapFile os dir name (frames es @ replicate (N - length (frames es)) 0), x)
      (\<lambda>f x'. x' = x \<and> LogFile_holds N f es \<and> fileName f = name)"
    using f ne by (intro runs_mono [OF openMmapFile_runs]) (auto simp: segment_files_hold_def LogFile_holds_def)
  show ?thesis unfolding eq runs_obind
  proof (rule runs_mono [OF fr])
    fix f x' assume "x' = x \<and> LogFile_holds N f es \<and> fileName f = name"
    then have x: "x' = x" and f: "LogFile_holds N f es" "fileName f = name" by auto
    show "runs os (if b then rebuildIndex os N files f
           else obind (Ok ix) (\<lambda>c. openIndex os dir (GetIndexName name) c SegmentRDWR), x')
        (\<lambda>d x'. runs os (resume (Entry.Index (hd es)) f d, x')
           (\<lambda>s x'. runs os (Ok (s\<lparr>Status := SegmentRDWR\<rparr>), x')
              (\<lambda>s x'. x' = x \<and> Segment_holds N s es \<and> Status s = SegmentRDWR)))"
      unfolding x
      by (rule runs_mono [OF idx [OF f(2,1)]], elim conjE, hypsubst, rule runs_mono [OF r [OF f(1)]]) simp_all
  qed
qed

section \<open>The names of the files\<close>

text \<open>The names of the two files of a segment, whose first index is or will be \<open>a\<close>.\<close>

definition Segment_named :: "Segment \<Rightarrow> u64 \<Rightarrow> bool" where
  "Segment_named s a \<longleftrightarrow>
     (case Status s of
        SegmentReadOnly \<Rightarrow>
          a = FirstIndex s \<and> fileName (LogFile s) = ReadonlySegmentPattern a (LastIndex s) \<and>
          (\<exists>f. readonly (LogIndex s) = Some f \<and> fileName f = ReadonlyIndexPattern a (LastIndex s))
      | SegmentRDWR \<Rightarrow>
          fileName (LogFile s) = ReadWriteSegmentPattern a \<and>
          (\<exists>rw. readWrite (LogIndex s) = Some rw \<and> rw_name rw = ReadWriteIndexPattern a)
      | SegmentClosed \<Rightarrow> False)"

lemma newSegment_named:
  assumes "0 < N"
  shows "runs os (newSegment os N dir (ReadWriteSegmentPattern a), d) (\<lambda>s _. Segment_named s a)"
  using assms
  by (auto simp: newSegment_def newIndex_def newMmapFile_def newRWFile_def Segment_named_def)

text \<open>No name changes while records are appended.\<close>

definition same_names :: "Segment \<Rightarrow> Segment \<Rightarrow> bool" where
  "same_names s s' \<longleftrightarrow> Status s' = Status s \<and> FirstIndex s' = FirstIndex s \<and> LastIndex s' = LastIndex s \<and>
     fileName (LogFile s') = fileName (LogFile s) \<and> readonly (LogIndex s') = readonly (LogIndex s) \<and>
     map_option rw_name (readWrite (LogIndex s')) = map_option rw_name (readWrite (LogIndex s))"

lemma same_names_trans: "same_names s t \<Longrightarrow> same_names t u \<Longrightarrow> same_names s u"
  by (simp add: same_names_def)

lemma Writer_Write_name: "Writer_Write os rw p = (r, rw') \<Longrightarrow> rw_name rw' = rw_name rw"
  by (auto simp: Writer_Write_def Writer_Flush_def File_Write_def Let_def sbind_def
      split: if_splits outcome.splits prod.splits)

lemma appendRecord_names: "appendRecord os s r i = (x, s') \<Longrightarrow> same_names s s'"
  by (auto simp: appendRecord_def MmapFile_append_def appendIndexEntry_def same_names_def sbind_def Let_def
      split: if_splits outcome.splits prod.splits option.splits dest: Writer_Write_name)

lemma append_loop_names: "append_loop os s rs i = (x, s') \<Longrightarrow> same_names s s'"
proof (induction rs arbitrary: s i)
  case Nil
  then show ?case by (simp add: same_names_def)
next
  case (Cons r rs)
  obtain y t where a: "appendRecord os s r i = (y, t)" by (cases "appendRecord os s r i")
  then show ?case
    using Cons appendRecord_names [OF a] by (cases y) (auto intro: same_names_trans)
qed

lemma appendRecords_named:
  assumes "appendRecords os s rs i = (Ok (), s')" "Segment_named s a"
  shows "Segment_named s' a"
proof -
  obtain y t where t: "append_loop os s rs i = (y, t)" by (cases "append_loop os s rs i")
  then show ?thesis
    using assms append_loop_names [OF t]
    by (cases y) (auto simp: appendRecords_def Let_def MmapFile_sync_def Segment_named_def same_names_def
        split: if_splits SegmentStatus.splits)
qed

lemma Index_changeToReadonly_name:
  assumes "Index_changeToReadonly os d = (Ok (), d')" "Index_holds d SegmentRDWR ds"
  shows "\<exists>f. readonly d' = Some f \<and> fileName f = ReadonlyIndexPattern (RaftIndex (hd ds)) (RaftIndex (last ds))"
  using assms
  by (auto simp: Index_changeToReadonly_def Index_holds_def RWFile_holds_def Let_def sbind_def openMmapFile_def
      split: if_splits outcome.splits prod.splits)

lemma RaftIndex_index_of:
  assumes "es \<noteq> []"
  shows "RaftIndex (hd (index_of p es)) = Entry.Index (hd es)"
    "RaftIndex (last (index_of p es)) = Entry.Index (last es)"
  using assms nth_index_of [of 0 es p] nth_index_of [of "length es - 1" es p]
  by (simp_all add: hd_conv_nth last_conv_nth)

lemma changeToReadonly_named:
  assumes "Segment_changeToReadonly os s = (Ok (), s')" "Segment_holds N s es" "es \<noteq> []"
    "Segment_named s a" "a = FirstIndex s"
  shows "Segment_named s' a"
proof -
  have st: "Status s = SegmentRDWR" using assms(1) by (auto simp: Segment_changeToReadonly_def split: if_splits)
  have i: "Index_holds (LogIndex s) SegmentRDWR (index_of 0 es)"
    "FirstIndex s = Entry.Index (hd es)" "LastIndex s = Entry.Index (last es)"
    using assms(2,3) st by (auto simp: Segment_holds_def Segment_data_def)
  obtain y d where d: "Index_changeToReadonly os (LogIndex s) = (y, d)"
    by (cases "Index_changeToReadonly os (LogIndex s)")
  show ?thesis
    using assms(1,5) d Index_changeToReadonly_name [of os "LogIndex s" d, OF _ i(1)] i(2,3) assms(3)
    by (cases y)
      (auto simp: Segment_changeToReadonly_def MmapFile_rename_def Segment_named_def RaftIndex_index_of
        split: if_splits)
qed

lemma Index_truncateSuffix_name:
  assumes "Index_truncateSuffix os d i first st = (Ok (), d')"
  shows "\<exists>rw. readWrite d' = Some rw \<and>
    (if st = SegmentReadOnly then rw_name rw = ReadWriteIndexPattern first
     else map_option rw_name (readWrite d) = Some (rw_name rw))"
  using assms
  by (auto simp: Index_truncateSuffix_def Let_def sbind_def truncate_tail_def openRWFile_def
      Writer_Flush_def File_Write_def
      split: if_splits outcome.splits prod.splits option.splits)

lemma Segment_truncateSuffix_named:
  assumes "Segment_truncateSuffix os s i = (Ok (), s')" "Segment_named s a"
  shows "Segment_named s' a"
  using assms
  apply (auto simp: Segment_truncateSuffix_def sbind_def MmapFile_rename_def MmapFile_truncateSuffix_def Let_def Segment_named_def
      split: if_splits outcome.splits prod.splits option.splits SegmentStatus.splits dest!: Index_truncateSuffix_name)
  done

section \<open>A segment at its place in the log\<close>

text \<open>The segment holds \<open>es\<close>, whose indexes start at \<open>n\<close>; an empty one is waiting for index \<open>n\<close>.\<close>

definition Segment_at :: "nat \<Rightarrow> Segment \<Rightarrow> nat \<Rightarrow> Entry list \<Rightarrow> bool" where
  "Segment_at N s n es \<longleftrightarrow>
     Segment_holds N s es \<and> Segment_named s (of_nat n) \<and> numbered n es \<and> 0 < n \<and> n < 2 ^ 64"

lemma newSegment_at:
  assumes "0 < N" "i \<noteq> 0"
  shows "runs os (newSegment os N dir (ReadWriteSegmentPattern i), d)
    (\<lambda>s d'. d' = d \<and> Segment_at N s (unat i) [] \<and> Status s = SegmentRDWR)"
proof -
  have "unat i < 2 ^ 64" using unsigned_less [of i, where 'a = nat] by simp
  then show ?thesis using assms(2)
    by (intro runs_mono [OF runs_conj [OF newSegment_holds [OF assms(1)] newSegment_named [OF assms(1)]]])
      (auto simp: Segment_at_def unat_gt_0)
qed

lemma Segment_at_first:
  assumes "Segment_at N s n es" "es \<noteq> []"
  shows "FirstIndex s = of_nat n" "unat (FirstIndex s) = n" "unat (LastIndex s) = n + length es - 1"
    "FirstIndex s \<noteq> 0" "LastIndex s \<noteq> 0"
proof -
  have "Segment_holds N s es" using assms(1) by (simp add: Segment_at_def)
  then have h: "FirstIndex s = Entry.Index (hd es)" "LastIndex s = Entry.Index (last es)"
    "numbered n es" "0 < n"
    using assms by (simp_all add: Segment_at_def Segment_holds_def)
  show *: "unat (FirstIndex s) = n"
    using h(3) numbered_nth [of n es 0] assms(2) unfolding h(1) by (simp add: hd_conv_nth)
  have "of_nat (unat (FirstIndex s)) = FirstIndex s" by simp
  then show "FirstIndex s = of_nat n" unfolding * by (rule sym)
  have "unat (Entry.Index (es ! (length es - 1))) = n + (length es - 1)"
    using h(3) assms(2) by (intro numbered_nth) auto
  moreover have "0 < length es" using assms(2) by simp
  ultimately show l: "unat (LastIndex s) = n + length es - 1"
    unfolding h(2) last_conv_nth [OF assms(2)] by linarith
  show "FirstIndex s \<noteq> 0" using * h(4) by (metis unsigned_0 less_irrefl)
  show "LastIndex s \<noteq> 0"
  proof
    assume "LastIndex s = 0"
    then have "n + length es - 1 = 0" using l by simp
    then show False using h(4) \<open>0 < length es\<close> by linarith
  qed
qed

lemma appendRecords_at:
  assumes s: "Segment_at N s n es" "Status s = SegmentRDWR"
    and new: "list_all fits new" "numbered (n + length es) new" "new \<noteq> []"
    and room: "length (frames (es @ new)) \<le> N"
  shows "runs os (appendRecords os s (map record_of new) (Entry.Index (hd new)))
    (\<lambda>_ s'. Segment_at N s' n (es @ new) \<and> Status s' = SegmentRDWR)"
proof -
  have h: "Segment_holds N s es" "Segment_named s (of_nat n)" "numbered n es" "0 < n" "n < 2 ^ 64"
    using s(1) by (auto simp: Segment_at_def)
  have i: "unat (Entry.Index (hd new)) = n + length es" using new(2,3) by (cases new) auto
  then have i0: "Entry.Index (hd new) \<noteq> 0" using h(4) by auto
  have nxt: "Entry.Index (hd new) = LastIndex s + 1" if "es \<noteq> []"
  proof -
    have "unat (Entry.Index (hd new)) = Suc (unat (LastIndex s))"
      using i Segment_at_first(3) [OF s(1) that] h(4) by simp
    moreover have "of_nat (unat w) = w" for w :: u64 by simp
    ultimately show ?thesis by (metis Suc_eq_plus1 of_nat_1 of_nat_add)
  qed
  have "runs os (appendRecords os s (map record_of new) (Entry.Index (hd new)))
    (\<lambda>_ s'. Segment_holds N s' (es @ new) \<and> Status s' = SegmentRDWR)"
    by (rule appendRecords_holds [OF h(1) s(2) new(1) _ new(3) i0 nxt room]) (simp_all add: i new(2))
  then have "runs os (appendRecords os s (map record_of new) (Entry.Index (hd new)))
    (\<lambda>_ s'. (Segment_holds N s' (es @ new) \<and> Status s' = SegmentRDWR) \<and> Segment_named s' (of_nat n))"
    by (rule runs_always [rotated]) (use appendRecords_named [OF _ h(2)] in auto)
  then show ?thesis
    by (rule runs_mono) (use h new(2) in \<open>simp add: Segment_at_def numbered_append\<close>)
qed

lemma changeToReadonly_at:
  assumes "Segment_at N s n es" "Status s = SegmentRDWR" "es \<noteq> []"
  shows "runs os (Segment_changeToReadonly os s)
    (\<lambda>_ s'. Segment_at N s' n es \<and> Status s' = SegmentReadOnly \<and>
            writePosition (LogFile s') = length (frames es))"
proof -
  have h: "Segment_holds N s es" "Segment_named s (of_nat n)" using assms(1) by (auto simp: Segment_at_def)
  note f = Segment_at_first(1) [OF assms(1,3)]
  have "runs os (Segment_changeToReadonly os s)
    (\<lambda>_ s'. (Segment_holds N s' es \<and> Status s' = SegmentReadOnly \<and>
            writePosition (LogFile s') = length (frames es)) \<and> Segment_named s' (of_nat n))"
    by (rule runs_always [OF _ changeToReadonly_holds [OF h(1) assms(2,3)]])
      (simp add: changeToReadonly_named [OF _ h(1) assms(3) h(2) f [symmetric]])
  then show ?thesis
    by (rule runs_mono) (use assms(1) in \<open>simp add: Segment_at_def\<close>)
qed

lemma Segment_truncateSuffix_at:
  assumes s: "Segment_at N s n es" "N \<le> 2 ^ 32" and k: "k < length es"
    and wp: "writePosition (LogFile s) = length (frames es)"
  shows "runs os (Segment_truncateSuffix os s (of_nat (n + k)))
    (\<lambda>_ s'. Segment_at N s' n (take k es) \<and> Status s' = SegmentRDWR)"
proof -
  have h: "Segment_holds N s es" "Segment_named s (of_nat n)" using s(1) by (auto simp: Segment_at_def)
  have "es \<noteq> []" using k by auto
  then have f: "FirstIndex s + of_nat k = of_nat (n + k)" using Segment_at_first(1) [OF s(1)] by simp
  note t = Segment_truncateSuffix_holds [OF h(1) s(2) k wp, unfolded f]
  have "runs os (Segment_truncateSuffix os s (of_nat (n + k)))
    (\<lambda>_ s'. (Segment_holds N s' (take k es) \<and> Status s' = SegmentRDWR) \<and> Segment_named s' (of_nat n))"
    by (rule runs_always [OF _ t]) (simp add: Segment_truncateSuffix_named [OF _ h(2)])
  then show ?thesis
    by (rule runs_mono) (use s(1) in \<open>simp add: Segment_at_def numbered_take_drop\<close>)
qed

lemma readRaftEntries_at:
  assumes "Segment_at N s n es" "N \<le> 2 ^ 32" "k \<le> m" "m < length es"
  shows "readRaftEntries s (of_nat (n + k)) (of_nat (n + m)) mx =
    (let rd = limit_read (unat mx) 0 (drop k (take (Suc m) es))
     in Ok (rd, if unat mx < sizes rd then 0 else mx - of_nat (sizes rd)))"
proof -
  have "es \<noteq> []" using assms by auto
  then have f: "FirstIndex s = of_nat n" by (rule Segment_at_first(1) [OF assms(1)])
  have "Segment_holds N s es" using assms(1) by (simp add: Segment_at_def)
  from readRaftEntries_holds [OF this assms(2-4), of mx] show ?thesis unfolding f of_nat_add .
qed

end
