(* ===== verification/Disk_Storage.thy ===== *)
theory Disk_Storage
  imports Log_Segment Meta_Store
begin

text \<open>
  The raft log on disk: \<^verbatim>\<open>src/storage/disk_storage.go\<close>. The log is a list of segments, of which only the
  last one is written; \<open>N\<close> is \<^verbatim>\<open>SegmentSize\<close>. Segments are pointers in the code; an operation on a
  segment of the list is an update of the list at its place. The goroutine that purges the log is a
  step of its own, taken when its timer fires.
\<close>

section \<open>The storage\<close>

text \<open>Where the purging goroutine is: not started, waiting for its timer, waiting to remove the
  segments it took off the list, or waiting for the end.\<close>

datatype purge_state = PurgeOff | PurgeArmed | PurgeDelay "Segment list" | PurgeIdle

record DiskStorage =
  ds_Dir :: string
  Segments :: "Segment list"
  ReserveSegmentCount :: int
  purgeStarted :: bool
  purger :: purge_state
  ds_Meta :: MetaStore

definition noLimit :: u64 where "noLimit = - 1"

definition DirExist :: "os \<Rightarrow> bool \<Rightarrow> string \<Rightarrow> (storage_error, bool) outcome" where
  "DirExist os there dir = (if \<not> there then Ok False else if \<not> os SysStat dir then Crash else Ok True)"

definition ExistLog :: "os \<Rightarrow> string \<Rightarrow> directory \<Rightarrow> bool" where
  "ExistLog os dir files \<longleftrightarrow>
     os SysOpen dir \<and> os SysRead dir \<and> list_ex (\<lambda>n. HasSuffix n LogSuffix) (map fst files)"

definition getRecover :: "os \<Rightarrow> MetaStore \<Rightarrow> (storage_error, bool) outcome" where
  "getRecover os m =
     (case Get os m NeedRecoverKey of
        Ok None \<Rightarrow> Ok False
      | Ok (Some v) \<Rightarrow> Ok (BytesToString v = ''true'')
      | _ \<Rightarrow> Crash)"

definition setRecover :: "os \<Rightarrow> MetaStore \<Rightarrow> bool \<Rightarrow> (MetaStore, unit) res" where
  "setRecover os m needRecover =
     (case Set os m NeedRecoverKey (StringToBytes (if needRecover then ''true'' else ''false'')) of
        (Ok _, m') \<Rightarrow> (Ok (), m')
      | (_, m') \<Rightarrow> (Crash, m'))"

definition initSegments ::
    "os \<Rightarrow> nat \<Rightarrow> string \<Rightarrow> directory \<Rightarrow> MetaStore \<Rightarrow> (storage_error, Segment list) outcome" where
  "initSegments os N dir files m =
     (if \<not> ExistLog os dir files then Ok []
      else obind (getRecover os m) (\<lambda>needRecover. openSegments os N dir files needRecover))"

text \<open>Integer division of Go rounds towards zero.\<close>

definition go_div :: "int \<Rightarrow> int \<Rightarrow> int" where
  "go_div a b = (if a < 0 then - ((- a) div b) else a div b)"

definition NewDiskStorage ::
    "os \<Rightarrow> nat \<Rightarrow> string \<Rightarrow> int \<Rightarrow> bool \<Rightarrow> directory \<Rightarrow> bucket \<Rightarrow> (storage_error, DiskStorage) outcome" where
  "NewDiskStorage os N dir reserveSizeInGB there files contents =
     (if dir = [] then Err ErrArgsIllegal
      else if N = 0 then Crash
      else
        obind (DirExist os there dir) (\<lambda>ex.
        obind (if ex \<or> os SysMkdir dir then Ok () else Err (ErrOS SysMkdir)) (\<lambda>_.
        obind (NewMetaStore os dir contents) (\<lambda>m.
        obind (initSegments os N dir files m) (\<lambda>segs.
          case setRecover os m True of
            (Ok _, m') \<Rightarrow>
              Ok \<lparr>ds_Dir = dir, Segments = segs,
                  ReserveSegmentCount = go_div (wrap64 (reserveSizeInGB * 1024 * 1024 * 1024)) (int N),
                  purgeStarted = False, purger = PurgeOff, ds_Meta = m'\<rparr>
          | _ \<Rightarrow> Crash)))))"

section \<open>Reading\<close>

definition DiskStorage_LastIndex :: "DiskStorage \<Rightarrow> u64" where
  "DiskStorage_LastIndex s = (if Segments s = [] then 0 else LastIndex (last (Segments s)))"

definition DiskStorage_FirstIndex :: "DiskStorage \<Rightarrow> u64" where
  "DiskStorage_FirstIndex s = (if Segments s = [] then 1 else FirstIndex (hd (Segments s)))"

definition checkRaftIndex :: "DiskStorage \<Rightarrow> u64 \<Rightarrow> (storage_error, unit) outcome" where
  "checkRaftIndex s raftIndex =
     (if raftIndex < DiskStorage_FirstIndex s then Err ErrCompacted
      else if raftIndex > DiskStorage_LastIndex s then Err ErrOutOfBound
      else Ok ())"

definition in_range :: "u64 \<Rightarrow> Segment \<Rightarrow> bool" where
  "in_range i s \<longleftrightarrow> FirstIndex s \<le> i \<and> i \<le> LastIndex s"

text \<open>The loop of \<^verbatim>\<open>getReadSegments\<close>, from the last segment to the first one.\<close>

fun find_segments ::
    "(nat \<times> Segment) list \<Rightarrow> u64 \<Rightarrow> u64 \<Rightarrow> nat option \<Rightarrow> nat option \<Rightarrow> nat option \<times> nat option" where
  "find_segments [] lo hi firstI lastI = (firstI, lastI)"
| "find_segments ((i, s) # r) lo hi firstI lastI =
     (let firstI = (if in_range lo s then Some i else firstI);
          lastI = (if in_range hi s then Some i else lastI)
      in if firstI \<noteq> None \<and> lastI \<noteq> None then (firstI, lastI) else find_segments r lo hi firstI lastI)"

definition getReadSegments ::
    "DiskStorage \<Rightarrow> u64 \<Rightarrow> u64 \<Rightarrow> (storage_error, Segment list) outcome" where
  "getReadSegments s lo hi =
     (case find_segments (rev (enumerate 0 (Segments s))) lo hi None None of
        (None, _) \<Rightarrow> Err ErrCompacted
      | (Some f, None) \<Rightarrow> Err ErrOutOfBound
      | (Some f, Some l) \<Rightarrow>
          if l < f then Err ErrOutOfBound else Ok (take (l + 1 - f) (drop f (Segments s))))"

text \<open>
  The loop of \<^verbatim>\<open>readSegments\<close>. Its \<^verbatim>\<open>segmentEntries, remainingSize, err :=\<close> declares a new
  \<^verbatim>\<open>remainingSize\<close> in every round, so that every segment is read with the whole \<^verbatim>\<open>maxSize\<close>.
\<close>

fun read_segments ::
    "Segment list \<Rightarrow> u64 \<Rightarrow> u64 \<Rightarrow> u64 \<Rightarrow> (storage_error, Entry list) outcome" where
  "read_segments [] lo hi maxSize = Ok []"
| "read_segments (s # ss) lo hi maxSize =
     (let b = (if FirstIndex s < lo then lo else FirstIndex s);
          e = (if LastIndex s < hi then LastIndex s else hi)
      in obind (readRaftEntries s b e maxSize) (\<lambda>(es, remainingSize).
           if remainingSize = 0 then Ok es
           else obind (read_segments ss lo hi maxSize) (\<lambda>es'. Ok (es @ es'))))"

definition readSegments ::
    "Segment list \<Rightarrow> u64 \<Rightarrow> u64 \<Rightarrow> u64 \<Rightarrow> (storage_error, Entry list) outcome" where
  "readSegments ss lo hi maxSize =
     (if sint (hi - lo + 1) < 0 then Crash else read_segments ss lo hi maxSize)"

definition data_len :: "Entry \<Rightarrow> nat" where
  "data_len e = length (nil_bytes (EData e))"

text \<open>How many of the entries after the first one are kept.\<close>

fun cut_count :: "u64 \<Rightarrow> nat \<Rightarrow> Entry list \<Rightarrow> nat" where
  "cut_count maxSize sz [] = 0"
| "cut_count maxSize sz (e # es) =
     (let sz' = sz + data_len e
      in if of_nat sz' > maxSize then 0 else Suc (cut_count maxSize sz' es))"

fun continuous :: "Entry list \<Rightarrow> bool" where
  "continuous (a # b # es) \<longleftrightarrow> Entry.Index a + 1 = Entry.Index b \<and> continuous (b # es)"
| "continuous _ \<longleftrightarrow> True"

definition cutRaftEntries :: "Entry list \<Rightarrow> u64 \<Rightarrow> (storage_error, Entry list) outcome" where
  "cutRaftEntries entries maxSize =
     (case entries of
        [] \<Rightarrow> Ok []
      | e # es \<Rightarrow>
          let limit = Suc (cut_count maxSize (data_len e) es)
          in if \<not> continuous entries then Crash else Ok (take limit entries))"

definition Entries :: "DiskStorage \<Rightarrow> u64 \<Rightarrow> u64 \<Rightarrow> u64 \<Rightarrow> (storage_error, Entry list) outcome" where
  "Entries s lo hi maxSize =
     (let lst = hi - 1
      in if lst < lo then Err ErrArgsIllegal
         else
           obind (checkRaftIndex s lo) (\<lambda>_.
           obind (checkRaftIndex s lst) (\<lambda>_.
           obind (getReadSegments s lo lst) (\<lambda>ss.
           obind (readSegments ss lo lst maxSize) (\<lambda>es. cutRaftEntries es maxSize)))))"

definition DiskStorage_Term :: "DiskStorage \<Rightarrow> u64 \<Rightarrow> (storage_error, u64) outcome" where
  "DiskStorage_Term s i =
     (if i = 0 then Ok 0
      else
        obind (checkRaftIndex s i) (\<lambda>_.
        obind (Entries s i (i + 1) noLimit) (\<lambda>es.
          case es of [] \<Rightarrow> Err ErrUnavailable | e # _ \<Rightarrow> Ok (Entry.Term e))))"

definition Snapshot :: "DiskStorage \<Rightarrow> (storage_error, unit) outcome" where
  "Snapshot s = Err ErrSnapshotTemporarilyUnavailable"

record DiskEntryReader =
  indexReadAt :: u64

definition NewEntryReaderAt :: "DiskStorage \<Rightarrow> u64 \<Rightarrow> (storage_error, DiskEntryReader) outcome" where
  "NewEntryReaderAt s raftIndex = obind (checkRaftIndex s raftIndex) (\<lambda>_. Ok \<lparr>indexReadAt = raftIndex\<rparr>)"

definition GetNext :: "DiskStorage \<Rightarrow> DiskEntryReader \<Rightarrow> (DiskEntryReader, Entry) res" where
  "GetNext s r =
     (case Entries s (indexReadAt r) (indexReadAt r + 1) noLimit of
        Ok [] \<Rightarrow> (Crash, r\<lparr>indexReadAt := indexReadAt r + 1\<rparr>)
      | Ok (e # _) \<Rightarrow> (Ok e, r\<lparr>indexReadAt := indexReadAt r + 1\<rparr>)
      | Err e \<Rightarrow> (Err e, r)
      | Crash \<Rightarrow> (Crash, r))"

definition NextRaftIndex :: "DiskEntryReader \<Rightarrow> u64" where
  "NextRaftIndex r = indexReadAt r"

section \<open>Writing\<close>

fun entriesToRecords :: "Entry list \<Rightarrow> (storage_error, Record list \<times> nat) outcome" where
  "entriesToRecords [] = Ok ([], 0)"
| "entriesToRecords (e # es) =
     (case Entry_Marshal e of
        Ok data \<Rightarrow>
          let r = \<lparr>Crc = ChecksumIEEE data, Data = Some data, XXX_unrecognized = []\<rparr>
          in obind (entriesToRecords es) (\<lambda>(rs, sz). Ok (r # rs, Record_Size r + RecordLengthSize + sz))
      | _ \<Rightarrow> Crash)"

definition rollingSegment ::
    "os \<Rightarrow> nat \<Rightarrow> DiskStorage \<Rightarrow> u64 \<Rightarrow> (DiskStorage, Segment) res" where
  "rollingSegment os N s firstIndex =
     sbind
       (if Segments s = [] then (Ok (), s)
        else sbind (Segment_changeToReadonly os (last (Segments s)))
               (\<lambda>seg. s\<lparr>Segments := butlast (Segments s) @ [seg]\<rparr>) (\<lambda>_ s. (Ok (), s)))
       (\<lambda>s. s)
       (\<lambda>_ s. sbind (newSegment os N (ds_Dir s) (ReadWriteSegmentPattern firstIndex), s) (\<lambda>s. s)
                (\<lambda>seg s. (Ok seg, s)))"

definition getWriteSegment ::
    "os \<Rightarrow> nat \<Rightarrow> DiskStorage \<Rightarrow> u64 \<Rightarrow> nat \<Rightarrow> (DiskStorage, Segment \<times> bool) res" where
  "getWriteSegment os N s firstIndex recordsSize =
     (if Segments s = [] \<or> needRolling (last (Segments s)) recordsSize
      then sbind (rollingSegment os N s firstIndex) (\<lambda>s. s) (\<lambda>seg s. (Ok (seg, True), s))
      else (Ok (last (Segments s), False), s))"

definition SaveRaftEntries :: "os \<Rightarrow> nat \<Rightarrow> DiskStorage \<Rightarrow> Entry list \<Rightarrow> (DiskStorage, unit) res" where
  "SaveRaftEntries os N s entries =
     (case entries of
        [] \<Rightarrow> (Ok (), s)
      | e # _ \<Rightarrow>
          let startIndex = Entry.Index e
          in sbind (entriesToRecords entries, s) (\<lambda>s. s) (\<lambda>(records, recordsSize) s.
               if N < recordsSize then (Crash, s)
               else
                 sbind (getWriteSegment os N s startIndex recordsSize) (\<lambda>s. s) (\<lambda>(seg, isNew) s.
                 scall (appendRecords os seg records startIndex)
                   (\<lambda>seg. if isNew then s else s\<lparr>Segments := butlast (Segments s) @ [seg]\<rparr>)
                   (\<lambda>_ seg.
                      (Ok (), if isNew then s\<lparr>Segments := Segments s @ [seg]\<rparr>
                              else s\<lparr>Segments := butlast (Segments s) @ [seg]\<rparr>)))))"

section \<open>Truncating and purging\<close>

text \<open>The segments are off the list already; only the outcome of removing their files matters.\<close>

fun remove_all :: "os \<Rightarrow> Segment list \<Rightarrow> (storage_error, unit) outcome" where
  "remove_all os [] = Ok ()"
| "remove_all os (s # ss) = obind (fst (Segment_remove os s)) (\<lambda>_. remove_all os ss)"

definition purgeSegments :: "os \<Rightarrow> DiskStorage \<Rightarrow> Segment list \<Rightarrow> (DiskStorage, unit) res" where
  "purgeSegments os s segs =
     sbind (UpdatePugedGtidset os (ds_Meta s) (DiskStorage_FirstIndex s)) (\<lambda>m. s\<lparr>ds_Meta := m\<rparr>) (\<lambda>_ s.
     (remove_all os segs, s))"

text \<open>The place of the last segment with the index \<open>i\<close>: the loop of \<^verbatim>\<open>TruncateSuffix\<close> from the end.\<close>

definition find_truncate :: "u64 \<Rightarrow> Segment list \<Rightarrow> nat option" where
  "find_truncate i segs = map_option fst (List.find (\<lambda>(_, s). in_range i s) (rev (enumerate 0 segs)))"

definition TruncateSuffix :: "os \<Rightarrow> DiskStorage \<Rightarrow> u64 \<Rightarrow> (DiskStorage, unit) res" where
  "TruncateSuffix os s raftIndex =
     (case find_truncate raftIndex (Segments s) of
        None \<Rightarrow> (Err ErrOutOfBound, s)
      | Some i \<Rightarrow>
          let segs = drop (i + 1) (Segments s);
              s = s\<lparr>Segments := take (i + 1) (Segments s)\<rparr>
          in sbind (if segs = [] then (Ok (), s) else purgeSegments os s segs) (\<lambda>s. s) (\<lambda>_ s.
             sbind (Segment_truncateSuffix os (Segments s ! i) raftIndex)
               (\<lambda>seg. s\<lparr>Segments := (Segments s)[i := seg]\<rparr>) (\<lambda>_ s. (Ok (), s))))"

text \<open>
  The purging goroutine. \<^verbatim>\<open>StartPurgeLog\<close> arms a timer and waits; when the timer fires, the segments
  beyond the reserve leave the list under the lock (\<open>purge_fire\<close>), and four seconds later, with other
  operations in between, they are removed (\<open>purge_delayed\<close>). Nothing arms the timer again.
\<close>

definition StartPurgeLog :: "DiskStorage \<Rightarrow> DiskStorage" where
  "StartPurgeLog s =
     (if purgeStarted s then s else s\<lparr>purgeStarted := True, purger := PurgeArmed\<rparr>)"

definition purge_fire :: "DiskStorage \<Rightarrow> (DiskStorage, unit) res" where
  "purge_fire s =
     (if ReserveSegmentCount s < int (length (Segments s))
      then let deleteCount = int (length (Segments s)) - ReserveSegmentCount s
           in if deleteCount > int (length (Segments s)) then (Crash, s)
              else let n = nat deleteCount
                   in (Ok (), s\<lparr>Segments := drop n (Segments s), purger := PurgeDelay (take n (Segments s))\<rparr>)
      else (Ok (), s\<lparr>purger := PurgeIdle\<rparr>))"

definition purge_delayed :: "os \<Rightarrow> DiskStorage \<Rightarrow> Segment list \<Rightarrow> (DiskStorage, unit) res" where
  "purge_delayed os s deleteSegments =
     (case purgeSegments os s deleteSegments of
        (Ok _, s') \<Rightarrow> (Ok (), s'\<lparr>purger := PurgeIdle\<rparr>)
      | (_, s') \<Rightarrow> (Crash, s'))"

definition StopPurgeLog :: "os \<Rightarrow> DiskStorage \<Rightarrow> (DiskStorage, unit) res" where
  "StopPurgeLog os s =
     (if \<not> purgeStarted s then (Ok (), s)
      else sbind (case purger s of PurgeDelay segs \<Rightarrow> purge_delayed os s segs | _ \<Rightarrow> (Ok (), s))
             (\<lambda>s. s) (\<lambda>_ s. (Ok (), s\<lparr>purgeStarted := False, purger := PurgeOff\<rparr>)))"

section \<open>Closing\<close>

fun close_all :: "os \<Rightarrow> Segment list \<Rightarrow> (Segment list, unit) res" where
  "close_all os [] = (Ok (), [])"
| "close_all os (s # ss) =
     scall (Segment_close os s) (\<lambda>s. s # ss) (\<lambda>_ s.
     sbind (close_all os ss) (\<lambda>ss. s # ss) (\<lambda>_ ss. (Ok (), ss)))"

definition DiskStorage_Close :: "os \<Rightarrow> DiskStorage \<Rightarrow> (DiskStorage, unit) res" where
  "DiskStorage_Close os s =
     sbind (if purgeStarted s then StopPurgeLog os s else (Ok (), s)) (\<lambda>s. s) (\<lambda>_ s.
     sbind (close_all os (Segments s)) (\<lambda>segs. s\<lparr>Segments := segs\<rparr>) (\<lambda>_ s.
     sbind (setRecover os (ds_Meta s) False) (\<lambda>m. s\<lparr>ds_Meta := m\<rparr>) (\<lambda>_ s.
       (Ok (), s\<lparr>ds_Meta := snd (Close2 os (ds_Meta s))\<rparr>))))"

end
