(* ===== verification/Disk_Log.thy ===== *)
theory Disk_Log
  imports Disk_Storage "HOL-Library.Sublist"
begin

text \<open>
  The log that a storage stands for (\<open>storage_holds\<close>): a first index and a list of entries, cut into
  segments. Reading, saving, truncating and purging are shown to be the operations on that list, and
  \<open>disk_step\<close> puts them together: every run of a storage keeps the relation.
\<close>

section \<open>What the storage holds\<close>

text \<open>
  \<open>chain\<close>: the segments hold the entry lists one after the other, from index \<open>n\<close> on, none of them
  empty. In the storage all segments but the last one are read-only, and only the last one may be
  empty (after a truncation at its first index).
\<close>

primrec chain :: "nat \<Rightarrow> nat \<Rightarrow> Segment list \<Rightarrow> Entry list list \<Rightarrow> bool" where
  "chain N n [] ess \<longleftrightarrow> ess = []"
| "chain N n (s # ss) ess \<longleftrightarrow>
     (\<exists>es r. ess = es # r \<and> es \<noteq> [] \<and> Segment_at N s n es \<and> chain N (n + length es) ss r)"

definition log_holds :: "nat \<Rightarrow> Segment list \<Rightarrow> nat \<Rightarrow> Entry list list \<Rightarrow> bool" where
  "log_holds N segs n ess \<longleftrightarrow>
     segs = [] \<and> ess = [] \<or>
     (\<exists>ss s r es. segs = ss @ [s] \<and> ess = r @ [es] \<and> chain N n ss r \<and>
        list_all (\<lambda>s. Status s = SegmentReadOnly) ss \<and>
        Segment_at N s (n + length (concat r)) es \<and> Status s = SegmentRDWR)"

text \<open>
  Truncation needs the write position of a segment, which only the process that wrote the segment
  has: \<open>positioned\<close> holds from the creation of a log on, and not after opening an old one.
\<close>

definition positioned :: "Segment list \<Rightarrow> Entry list list \<Rightarrow> bool" where
  "positioned segs ess \<longleftrightarrow> list_all2 (\<lambda>s es. writePosition (LogFile s) = length (frames es)) segs ess"

text \<open>The storage holds the entries \<open>es\<close> from index \<open>n\<close> on; \<open>own\<close>: this process wrote all of them.\<close>

definition storage_holds :: "bool \<Rightarrow> nat \<Rightarrow> DiskStorage \<Rightarrow> nat \<Rightarrow> Entry list \<Rightarrow> bool" where
  "storage_holds own N s n es \<longleftrightarrow>
     0 < n \<and> (\<exists>ess. log_holds N (Segments s) n ess \<and> (own \<longrightarrow> positioned (Segments s) ess) \<and> es = concat ess)"

text \<open>The last segment is not empty: the log is as a save leaves it.\<close>

definition settled :: "DiskStorage \<Rightarrow> bool" where
  "settled s \<longleftrightarrow> Segments s \<noteq> [] \<and> LastIndex (last (Segments s)) \<noteq> 0"

lemma chain_append:
  "chain N n (xs @ ys) ess \<longleftrightarrow>
     (\<exists>a b. ess = a @ b \<and> chain N n xs a \<and> chain N (n + length (concat a)) ys b)"
proof (induction xs arbitrary: n ess)
  case (Cons x xs)
  show ?case
  proof
    assume "chain N n ((x # xs) @ ys) ess"
    then obtain es r where "ess = es # r" "es \<noteq> []" "Segment_at N x n es" "chain N (n + length es) (xs @ ys) r"
      by auto
    moreover from this obtain a b where "r = a @ b" "chain N (n + length es) xs a"
      "chain N (n + length es + length (concat a)) ys b" using Cons.IH by blast
    ultimately have "ess = (es # a) @ b" "chain N n (x # xs) (es # a)"
      "chain N (n + length (concat (es # a))) ys b" by (simp_all add: add.assoc)
    then show "\<exists>a b. ess = a @ b \<and> chain N n (x # xs) a \<and> chain N (n + length (concat a)) ys b" by blast
  next
    assume "\<exists>a b. ess = a @ b \<and> chain N n (x # xs) a \<and> chain N (n + length (concat a)) ys b"
    then obtain es a b where "ess = es # a @ b" "es \<noteq> []" "Segment_at N x n es"
      "chain N (n + length es) xs a" "chain N (n + length es + length (concat a)) ys b"
      by (auto simp: add.assoc)
    then show "chain N n ((x # xs) @ ys) ess" using Cons.IH by auto
  qed
qed simp

lemma chain_length: "chain N n ss ess \<Longrightarrow> length ess = length ss"
  by (induction ss arbitrary: n ess) auto

lemma chain_nth:
  assumes "chain N n ss ess" "j < length ss"
  shows "Segment_at N (ss ! j) (n + length (concat (take j ess))) (ess ! j)" "ess ! j \<noteq> []"
  using assms
proof (induction ss arbitrary: n ess j)
  case (Cons s ss)
  { case 1
    then obtain es r where h: "ess = es # r" "Segment_at N s n es" "chain N (n + length es) ss r" by auto
    then show ?case using Cons.IH(1) [OF h(3)] 1 by (cases j) (simp_all add: add.assoc) }
  { case 2 then show ?case using Cons.IH(2) by (cases j) auto }
qed simp_all

lemma Segment_at_numbered: "Segment_at N s n es \<Longrightarrow> numbered n es"
  by (simp add: Segment_at_def)

lemma chain_numbered: "chain N n ss ess \<Longrightarrow> numbered n (concat ess)"
  by (induction ss arbitrary: n ess) (auto simp: numbered_append Segment_at_numbered)

lemma log_holds_numbered: "log_holds N segs n ess \<Longrightarrow> numbered n (concat ess)"
  by (auto simp: log_holds_def numbered_append chain_numbered Segment_at_numbered)

lemma chain_fits: "chain N n ss ess \<Longrightarrow> list_all fits (concat ess)"
  by (induction ss arbitrary: n ess) (auto simp: Segment_at_def Segment_holds_def Segment_data_def)

lemma log_holds_chain:
  assumes "log_holds N segs n ess" "segs \<noteq> []" "LastIndex (last segs) \<noteq> 0"
  shows "chain N n segs ess"
proof -
  obtain ss s r es where h: "segs = ss @ [s]" "ess = r @ [es]" "chain N n ss r"
    "Segment_at N s (n + length (concat r)) es"
    using assms by (auto simp: log_holds_def)
  moreover have "es \<noteq> []" using h assms(3) by (auto simp: Segment_at_def Segment_holds_def)
  ultimately show ?thesis by (auto simp: chain_append)
qed

section \<open>Finding the segments\<close>

lemma in_range_at:
  assumes "Segment_at N s n es" "es \<noteq> []" "i < 2 ^ 64"
  shows "in_range (of_nat i) s \<longleftrightarrow> n \<le> i \<and> i < n + length es"
proof -
  have "length es \<noteq> 0" using assms by simp
  moreover have "unat (of_nat i :: u64) = i" using assms(3) by (simp add: unat_of_nat take_bit_nat_eq_self)
  ultimately show ?thesis using Segment_at_first(2,3) [OF assms(1,2)]
    unfolding in_range_def word_le_nat_alt by linarith
qed

lemma find_segments_unique:
  assumes "\<And>i s. (i, s) \<in> set xs \<Longrightarrow> (in_range lo s \<longleftrightarrow> i = f) \<and> (in_range hi s \<longleftrightarrow> i = l)"
    "a = Some f \<or> a = None \<and> f \<in> set (map fst xs)" "b = Some l \<or> b = None \<and> l \<in> set (map fst xs)"
  shows "find_segments xs lo hi a b = (Some f, Some l)"
  using assms
proof (induction xs arbitrary: a b)
  case (Cons x xs)
  obtain i s where x: "x = (i, s)" by (cases x)
  have "in_range lo s \<longleftrightarrow> i = f" "in_range hi s \<longleftrightarrow> i = l" using Cons.prems(1) x by auto
  moreover have "find_segments xs lo hi a' b' = (Some f, Some l)"
    if "a' = Some f \<or> a' = None \<and> f \<in> set (map fst xs)" "b' = Some l \<or> b' = None \<and> l \<in> set (map fst xs)" for a' b'
    using Cons.IH [OF _ that] Cons.prems(1) by simp
  ultimately show ?case using Cons.prems(2,3) by (auto simp: x Let_def simp del: set_map)
qed auto

text \<open>The place of the list that holds the \<open>k\<close>-th entry.\<close>

primrec place :: "nat \<Rightarrow> Entry list list \<Rightarrow> nat" where
  "place k [] = 0"
| "place k (es # ess) = (if k < length es then 0 else Suc (place (k - length es) ess))"

lemma place_bounds:
  "k < length (concat ess) \<Longrightarrow>
     place k ess < length ess \<and> length (concat (take (place k ess) ess)) \<le> k \<and>
     k < length (concat (take (place k ess) ess)) + length (ess ! place k ess)"
proof (induction ess arbitrary: k)
  case (Cons es ess)
  show ?case
  proof (cases "k < length es")
    case False
    then have "k - length es < length (concat ess)" using Cons.prems by simp
    from Cons.IH [OF this] False show ?thesis by auto
  qed simp
qed simp

lemma offset_mono: "i \<le> j \<Longrightarrow> length (concat (take i ess)) \<le> length (concat (take j ess))"
  by (metis concat_append le_add1 length_append min.absorb1 take_take append_take_drop_id)

lemma offset_Suc: "j < length ess \<Longrightarrow>
  length (concat (take (Suc j) ess)) = length (concat (take j ess)) + length (ess ! j)"
  by (simp add: take_Suc_conv_app_nth)

lemma place_eq_iff:
  assumes "k < length (concat ess)" "j < length ess"
  shows "length (concat (take j ess)) \<le> k \<and> k < length (concat (take j ess)) + length (ess ! j) \<longleftrightarrow>
    j = place k ess"
proof -
  let ?p = "place k ess"
  have p: "?p < length ess" "length (concat (take ?p ess)) \<le> k" "k < length (concat (take (Suc ?p) ess))"
    using place_bounds [OF assms(1)] by (simp_all add: offset_Suc)
  have j: "length (concat (take (Suc j) ess)) = length (concat (take j ess)) + length (ess ! j)"
    using assms(2) by (rule offset_Suc)
  consider "j = ?p" | "Suc j \<le> ?p" | "Suc ?p \<le> j" by linarith
  then show ?thesis
  proof cases
    case 1 then show ?thesis using p j by simp
  next
    case 2 then show ?thesis using p j offset_mono [OF 2, of ess] by simp
  next
    case 3 then show ?thesis using p offset_mono [OF 3, of ess] by simp
  qed
qed

lemma chain_in_range:
  assumes c: "chain N n ss ess" and k: "k < length (concat ess)" and j: "j < length ss"
  shows "in_range (of_nat (n + k)) (ss ! j) \<longleftrightarrow> j = place k ess"
proof -
  have "n + k < 2 ^ 64"
    using numbered_bound [OF chain_numbered [OF c]] k by (cases "concat ess = []") auto
  then have "in_range (of_nat (n + k)) (ss ! j) \<longleftrightarrow>
      n + length (concat (take j ess)) \<le> n + k \<and> n + k < n + length (concat (take j ess)) + length (ess ! j)"
    using in_range_at [OF chain_nth [OF c j], of "n + k"] by simp
  also have "\<dots> \<longleftrightarrow> j = place k ess"
    using place_eq_iff [OF k, of j] j chain_length [OF c] by simp
  finally show ?thesis .
qed

lemma place_mono: "k \<le> m \<Longrightarrow> place k ess \<le> place m ess"
  by (induction ess arbitrary: k m) auto

lemma getReadSegments_chain:
  assumes c: "chain N n (Segments s) ess" and k: "k \<le> m" "m < length (concat ess)"
  shows "getReadSegments s (of_nat (n + k)) (of_nat (n + m)) =
    Ok (take (place m ess + 1 - place k ess) (drop (place k ess) (Segments s)))"
proof -
  have len: "place k ess < length (Segments s)" "place m ess < length (Segments s)"
    using place_bounds [of k ess] place_bounds [of m ess] k chain_length [OF c] by auto
  have "find_segments (rev (enumerate 0 (Segments s))) (of_nat (n + k)) (of_nat (n + m)) None None =
      (Some (place k ess), Some (place m ess))"
  proof (rule find_segments_unique)
    fix i x assume "(i, x) \<in> set (rev (enumerate 0 (Segments s)))"
    then have "i < length (Segments s)" "x = Segments s ! i" by (auto simp: in_set_enumerate_eq)
    then show "(in_range (of_nat (n + k)) x \<longleftrightarrow> i = place k ess) \<and>
        (in_range (of_nat (n + m)) x \<longleftrightarrow> i = place m ess)"
      using chain_in_range [OF c, of k i] chain_in_range [OF c, of m i] k by simp
  qed (use len in \<open>simp_all only: rev_map [symmetric] set_rev map_fst_enumerate, auto\<close>)
  then show ?thesis
    using place_mono [OF k(1), of ess] by (auto simp: getReadSegments_def)
qed

section \<open>Reading the segments\<close>

text \<open>What the loop of \<^verbatim>\<open>readSegments\<close> takes of the parts of the range that lie in each segment.\<close>

primrec limit_segs :: "nat \<Rightarrow> Entry list list \<Rightarrow> Entry list" where
  "limit_segs mx [] = []"
| "limit_segs mx (p # ps) =
     (let rd = limit_read mx 0 p in if mx \<le> sizes rd then rd else rd @ limit_segs mx ps)"

text \<open>The lists up to the \<open>m\<close>-th entry.\<close>

primrec clip :: "nat \<Rightarrow> Entry list list \<Rightarrow> Entry list list" where
  "clip m [] = []"
| "clip m (es # ess) = (if m < length es then [take (Suc m) es] else es # clip (m - length es) ess)"

lemma concat_clip: "concat (clip m ess) = take (Suc m) (concat ess)"
  by (induction ess arbitrary: m) (auto simp: Suc_diff_le)

lemma clip_place: "m < length (concat ess) \<Longrightarrow> clip m (take (Suc (place m ess)) ess) = clip m ess"
  by (induction ess arbitrary: m) auto

lemma read_first:
  assumes s: "Segment_at N s n es" "es \<noteq> []" "N \<le> 2 ^ 32" and k: "k \<le> m" "k < length es"
    and m: "n + m < 2 ^ 64" and lo: "unat lo = n + k \<or> k = 0 \<and> unat lo \<le> n"
  shows "readRaftEntries s (if FirstIndex s < lo then lo else FirstIndex s)
      (if LastIndex s < of_nat (n + m) then LastIndex s else of_nat (n + m)) mx =
    (let rd = limit_read (unat mx) 0 (drop k (take (Suc m) es))
     in Ok (rd, if unat mx < sizes rd then 0 else mx - of_nat (sizes rd)))"
proof -
  let ?m = "min m (length es - 1)"
  have f: "unat (FirstIndex s) = n" "unat (LastIndex s) = n + length es - 1" "0 < length es"
    using Segment_at_first [OF s(1,2)] s(2) by simp_all
  have h: "Segment_holds N s es" using s(1) by (simp add: Segment_at_def)
  have u: "unat (of_nat i :: u64) = i" if "i \<le> n + m" for i
    using that m by (simp add: unat_of_nat take_bit_nat_eq_self)
  have w: "FirstIndex s + of_nat i = of_nat (n + i)" for i
    using Segment_at_first(1) [OF s(1,2)] by simp
  have "(if FirstIndex s < lo then lo else FirstIndex s) = FirstIndex s + of_nat k"
    unfolding w using f u [of "n + k"] k lo
    by (auto simp: word_less_nat_alt word_unat_eq_iff simp del: of_nat_add)
  moreover have "(if LastIndex s < of_nat (n + m) then LastIndex s else of_nat (n + m)) =
      FirstIndex s + of_nat ?m"
  proof -
    have "LastIndex s < of_nat (n + m) \<longleftrightarrow> length es - 1 < m"
      using f u [of "n + m"] unfolding word_less_nat_alt by linarith
    moreover have "LastIndex s = of_nat (n + (length es - 1))"
    proof -
      have e: "unat (LastIndex s) = n + (length es - 1)" using f(2,3) by linarith
      show ?thesis by (simp only: e [symmetric] of_nat_unat ucast_id)
    qed
    ultimately show ?thesis unfolding w by (simp add: min_def del: of_nat_add)
  qed
  moreover have "drop k (take (Suc ?m) es) = drop k (take (Suc m) es)"
    using f(3) by (auto simp: min_def)
  ultimately show ?thesis
    using readRaftEntries_holds [OF h s(3), of k ?m mx] k f(3) by (simp add: Let_def)
qed

lemma remaining_zero:
  "(if unat mx < z then 0 else mx - of_nat z) = (0 :: u64) \<longleftrightarrow> unat mx \<le> z"
proof (cases "unat mx < z")
  case False
  then have "unat (mx - of_nat z) = unat mx - z"
    using unsigned_less [of mx, where 'a = nat]
    by (simp add: unat_sub word_le_nat_alt unat_of_nat take_bit_nat_eq_self)
  then show ?thesis using False by (auto simp: word_unat_eq_iff)
qed simp

lemma read_segments_Cons:
  assumes "readRaftEntries s (if FirstIndex s < lo then lo else FirstIndex s)
      (if LastIndex s < hi then LastIndex s else hi) mx =
    (let rd = p in Ok (rd, if unat mx < sizes rd then 0 else mx - of_nat (sizes rd)))"
  shows "read_segments (s # ss) lo hi mx =
    (if unat mx \<le> sizes p then Ok p else obind (read_segments ss lo hi mx) (\<lambda>es'. Ok (p @ es')))"
  by (simp only: read_segments.simps Let_def assms obind_simps prod.case remaining_zero)

lemma read_segments_from:
  assumes "chain N n ss ess" "N \<le> 2 ^ 32" "m < length (concat ess)" "length (concat (butlast ess)) \<le> m"
    "unat lo \<le> n"
  shows "read_segments ss lo (of_nat (n + m)) mx = Ok (limit_segs (unat mx) (clip m ess))"
  using assms
proof (induction ss arbitrary: n ess m)
  case (Cons s ss)
  then obtain es r where c: "ess = es # r" "es \<noteq> []" "Segment_at N s n es" "chain N (n + length es) ss r"
    by auto
  have m: "n + m < 2 ^ 64"
    using numbered_bound [OF chain_numbered [OF Cons.prems(1)]] Cons.prems(3) by (cases "concat ess = []") auto
  have rd: "read_segments (s # ss) lo (of_nat (n + m)) mx =
      (let p = limit_read (unat mx) 0 (take (Suc m) es)
       in if unat mx \<le> sizes p then Ok p
          else obind (read_segments ss lo (of_nat (n + m)) mx) (\<lambda>es'. Ok (p @ es')))"
    using read_segments_Cons [OF read_first [OF c(3,2) Cons.prems(2) _ _ m, of 0 lo mx]] c(2) Cons.prems(5)
    by (simp add: Let_def del: of_nat_add)
  show ?case
  proof (cases "m < length es")
    case True
    then have "r = []" using Cons.prems(4) c(1) by (cases r) auto
    moreover have "ss = []" using \<open>r = []\<close> c(4) by (cases ss) auto
    ultimately show ?thesis using rd c(1) True by (simp add: Let_def)
  next
    case False
    then have "read_segments ss lo (of_nat (n + length es + (m - length es))) mx =
        Ok (limit_segs (unat mx) (clip (m - length es) r))"
      using Cons.prems c by (intro Cons.IH) (auto split: if_splits)
    then show ?thesis using rd c False Cons.prems(5) by (simp add: Let_def)
  qed
qed simp

text \<open>The parts of the range from the \<open>k\<close>-th to the \<open>m\<close>-th entry.\<close>

primrec parts :: "nat \<Rightarrow> nat \<Rightarrow> Entry list list \<Rightarrow> Entry list list" where
  "parts k m [] = []"
| "parts k m (es # ess) =
     (if k < length es
      then drop k (take (Suc m) es) # (if m < length es then [] else clip (m - length es) ess)
      else parts (k - length es) (m - length es) ess)"

lemma concat_parts: "k \<le> m \<Longrightarrow> concat (parts k m ess) = drop k (take (Suc m) (concat ess))"
  by (induction ess arbitrary: k m) (auto simp: concat_clip Suc_diff_le)

lemma parts_hd: "k \<le> m \<Longrightarrow> k < length (concat ess) \<Longrightarrow> parts k m ess \<noteq> [] \<and> hd (parts k m ess) \<noteq> []"
  by (induction ess arbitrary: k m) auto

lemma chain_take: "chain N n ss ess \<Longrightarrow> chain N n (take j ss) (take j ess)"
  by (induction ss arbitrary: n ess j) (auto simp: take_Cons split: nat.split)

lemma read_segments_range:
  assumes "chain N n ss ess" "N \<le> 2 ^ 32" "k \<le> m" "m < length (concat ess)"
  shows "read_segments (take (place m ess + 1 - place k ess) (drop (place k ess) ss))
      (of_nat (n + k)) (of_nat (n + m)) mx = Ok (limit_segs (unat mx) (parts k m ess))"
  using assms
proof (induction ss arbitrary: n ess k m)
  case (Cons s ss)
  then obtain es r where c: "ess = es # r" "es \<noteq> []" "Segment_at N s n es" "chain N (n + length es) ss r"
    by auto
  have m: "n + m < 2 ^ 64"
    using numbered_bound [OF chain_numbered [OF Cons.prems(1)]] Cons.prems(4) by (cases "concat ess = []") auto
  show ?case
  proof (cases "k < length es")
    case True
    have lo: "unat (of_nat (n + k) :: u64) = n + k"
      using m Cons.prems(3) by (intro unat_of_nat_u64) simp
    have rd: "read_segments (s # ss') (of_nat (n + k)) (of_nat (n + m)) mx =
      (let p = limit_read (unat mx) 0 (drop k (take (Suc m) es))
       in if unat mx \<le> sizes p then Ok p
          else obind (read_segments ss' (of_nat (n + k)) (of_nat (n + m)) mx) (\<lambda>es'. Ok (p @ es')))" for ss'
      using read_segments_Cons [OF read_first [OF c(3,2) Cons.prems(2,3) True m, of "of_nat (n + k)" mx]] lo
      by (simp add: Let_def del: of_nat_add)
    show ?thesis
    proof (cases "m < length es")
      case True
      then show ?thesis using rd [of "[]"] \<open>k < length es\<close> c(1) by (simp add: Let_def)
    next
      case False
      let ?m = "m - length es" let ?p = "place ?m r"
      have p: "?m < length (concat r)" "?p < length r" "length (concat (take ?p r)) \<le> ?m"
        using place_bounds [of ?m r] False Cons.prems(4) c(1) by auto
      have "read_segments (take (Suc ?p) ss) (of_nat (n + k)) (of_nat (n + length es + ?m)) mx =
          Ok (limit_segs (unat mx) (clip ?m (take (Suc ?p) r)))"
      proof (rule read_segments_from [OF chain_take [OF c(4)] Cons.prems(2)])
        show "?m < length (concat (take (Suc ?p) r))"
          using place_bounds [OF p(1)] by (simp add: offset_Suc)
        show "length (concat (butlast (take (Suc ?p) r))) \<le> ?m"
          using p by (simp add: butlast_take)
      qed (use lo True in simp)
      then show ?thesis using rd [of "take (Suc ?p) ss"] True False c(1)
        by (simp add: Let_def clip_place [OF p(1)])
    qed
  next
    case False
    then have "read_segments (take (place (m - length es) r + 1 - place (k - length es) r) (drop (place (k - length es) r) ss))
        (of_nat (n + length es + (k - length es))) (of_nat (n + length es + (m - length es))) mx =
        Ok (limit_segs (unat mx) (parts (k - length es) (m - length es) r))"
      using Cons.prems c by (intro Cons.IH) auto
    then show ?thesis using c False Cons.prems(3) by simp
  qed
qed simp

section \<open>Reading the log\<close>

lemma limit_read_prefix: "prefix (limit_read mx sz es) es"
  by (induction es arbitrary: sz) auto

lemma limit_read_nonempty: "es \<noteq> [] \<Longrightarrow> limit_read mx sz es \<noteq> []"
  by (cases es) auto

lemma limit_read_all: "sz + sizes es \<le> mx \<Longrightarrow> limit_read mx sz es = es"
  by (induction es arbitrary: sz) auto

lemma limit_read_short: "sz + sizes (limit_read mx sz es) \<le> mx \<Longrightarrow> limit_read mx sz es = es"
  by (induction es arbitrary: sz) (auto split: if_splits)

lemma Entry_Size_pos: "0 < Entry_Size e"
  by (simp add: Entry_Size_def)

lemma sizes_eq_0 [simp]: "sizes es = 0 \<longleftrightarrow> es = []"
  using Entry_Size_pos by (cases es) auto

lemma limit_segs_prefix: "prefix (limit_segs mx ps) (concat ps)"
proof (induction ps)
  case (Cons p ps)
  let ?rd = "limit_read mx 0 p"
  show ?case
  proof (cases "mx \<le> sizes ?rd")
    case True
    then show ?thesis using limit_read_prefix [of mx 0 p] by (auto simp: Let_def intro: prefix_prefix)
  next
    case False
    then have "?rd = p" using limit_read_short [of 0 mx p] by simp
    then show ?thesis using Cons.IH False by (simp add: Let_def)
  qed
qed simp

lemma limit_segs_nonempty: "ps \<noteq> [] \<Longrightarrow> hd ps \<noteq> [] \<Longrightarrow> limit_segs mx ps \<noteq> []"
  using limit_read_nonempty by (cases ps) (auto simp: Let_def)

lemma limit_segs_all: "sizes (concat ps) \<le> mx \<Longrightarrow> limit_segs mx ps = concat ps"
proof (induction ps)
  case (Cons p ps)
  then have "limit_read mx 0 p = p" using limit_read_all [of 0 p mx] by simp
  moreover have "sizes (concat ps) = 0" if "mx \<le> sizes p"
    using Cons.prems that by (simp del: sizes_eq_0)
  then have "mx \<le> sizes p \<Longrightarrow> concat ps = []" by (simp only: sizes_eq_0)
  ultimately show ?case using Cons by (auto simp: Let_def)
qed simp


definition data_sum :: "Entry list \<Rightarrow> nat" where
  "data_sum es = sum_list (map data_len es)"

lemma data_sum_simps [simp]:
  "data_sum [] = 0" "data_sum (e # es) = data_len e + data_sum es"
  "data_sum (xs @ ys) = data_sum xs + data_sum ys"
  by (simp_all add: data_sum_def)

lemma data_len_le: "data_len e \<le> Entry_Size e"
  by (auto simp: data_len_def Entry_Size_def split: option.splits)

lemma data_sum_le: "data_sum es \<le> sizes es"
  by (induction es) (use data_len_le in \<open>auto intro: add_mono\<close>)

lemma cut_count_le: "cut_count mx sz es \<le> length es"
  by (induction es arbitrary: sz) (auto simp: Let_def)

lemma cut_count_limit:
  assumes "sz + data_sum es < 2 ^ 64"
  shows "cut_count mx sz es = 0 \<or> sz + data_sum (take (cut_count mx sz es) es) \<le> unat mx"
  using assms
proof (induction es arbitrary: sz)
  case (Cons e es)
  have "unat (of_nat (sz + data_len e) :: u64) = sz + data_len e"
    using Cons.prems by (intro unat_of_nat_u64) simp
  then show ?case using Cons.IH [of "sz + data_len e"] Cons.prems
    by (auto simp: Let_def word_less_nat_alt simp del: of_nat_add)
qed simp

lemma cut_count_all:
  assumes "sz + data_sum es \<le> unat mx"
  shows "cut_count mx sz es = length es"
  using assms
proof (induction es arbitrary: sz)
  case (Cons e es)
  have "unat (of_nat (sz + data_len e) :: u64) = sz + data_len e"
    using Cons.prems unsigned_less [of mx, where 'a = nat] by (intro unat_of_nat_u64) simp
  then show ?case using Cons.IH [of "sz + data_len e"] Cons.prems
    by (auto simp: Let_def word_less_nat_alt simp del: of_nat_add)
qed simp

lemma continuous_numbered: "numbered n es \<Longrightarrow> continuous es"
proof (induction es arbitrary: n rule: continuous.induct)
  case (1 a b es)
  then have "unat (Entry.Index a) = n" "unat (Entry.Index b) = Suc n" "numbered (Suc n) (b # es)" by auto
  moreover from this have "Entry.Index a + 1 = Entry.Index b"
    by (metis of_nat_Suc of_nat_unat ucast_id add.commute)
  ultimately show ?case using 1 by simp
qed simp_all

lemma cutRaftEntries_numbered:
  assumes "numbered n es" "es \<noteq> []" "data_sum es < 2 ^ 64"
  obtains rd where "cutRaftEntries es mx = Ok rd" "rd \<noteq> []" "prefix rd es"
    "length rd = 1 \<or> data_sum rd \<le> unat mx" "data_sum es \<le> unat mx \<Longrightarrow> rd = es"
proof -
  obtain e r where es: "es = e # r" using assms(2) by (cases es) auto
  let ?c = "cut_count mx (data_len e) r"
  show thesis
  proof (rule that [of "e # take ?c r"])
    show "cutRaftEntries es mx = Ok (e # take ?c r)"
      using continuous_numbered [OF assms(1)] by (simp add: cutRaftEntries_def es Let_def)
    show "prefix (e # take ?c r) es" by (simp add: es take_is_prefix)
    show "length (e # take ?c r) = 1 \<or> data_sum (e # take ?c r) \<le> unat mx"
      using cut_count_limit [of "data_len e" r mx] assms(3) es by auto
    show "data_sum es \<le> unat mx \<Longrightarrow> e # take ?c r = es"
      using cut_count_all [of "data_len e" r mx] es by simp
  qed simp
qed


lemma chain_indexes:
  assumes c: "chain N n (Segments s) ess" "Segments s \<noteq> []"
  shows "unat (DiskStorage_FirstIndex s) = n" "unat (DiskStorage_LastIndex s) = n + length (concat ess) - 1"
    "concat ess \<noteq> []"
proof -
  obtain x xs where x: "Segments s = x # xs" using c(2) by (cases "Segments s") auto
  then obtain e r where e: "ess = e # r" "e \<noteq> []" "Segment_at N x n e" using c(1) by auto
  obtain ys y where y: "Segments s = ys @ [y]" using c(2) by (cases "Segments s" rule: rev_cases) auto
  then obtain a b where b: "ess = a @ [b]" "b \<noteq> []" "Segment_at N y (n + length (concat a)) b"
    using c(1) by (auto simp: chain_append)
  show "unat (DiskStorage_FirstIndex s) = n"
    using Segment_at_first(2) [OF e(3,2)] x by (simp add: DiskStorage_FirstIndex_def)
  show "unat (DiskStorage_LastIndex s) = n + length (concat ess) - 1"
    using Segment_at_first(3) [OF b(3,2)] y b(1) by (simp add: DiskStorage_LastIndex_def)
  show "concat ess \<noteq> []" using e by simp
qed

lemma checkRaftIndex_chain:
  assumes c: "chain N n (Segments s) ess" and k: "k < length (concat ess)"
  shows "checkRaftIndex s (of_nat (n + k)) = Ok ()"
proof -
  have ne: "Segments s \<noteq> []" using c k by (cases "Segments s") auto
  have "n + length (concat ess) \<le> 2 ^ 64"
    using numbered_bound [OF chain_numbered [OF c]] chain_indexes(3) [OF c ne] by simp
  then have "unat (of_nat (n + k) :: u64) = n + k" using k by (intro unat_of_nat_u64) simp
  then show ?thesis using chain_indexes [OF c ne] k
    by (simp add: checkRaftIndex_def word_less_nat_alt del: of_nat_add)
qed

lemma sizes_take_drop: "sizes (drop k (take m es)) \<le> sizes es"
proof -
  have "sizes es = sizes (take k (take m es)) + sizes (drop k (take m es)) + sizes (drop m es)"
    by (metis append_take_drop_id sizes_simps(3))
  then show ?thesis by simp
qed

lemma prefix_sums:
  assumes "prefix xs ys"
  shows "data_sum xs \<le> data_sum ys" "sizes xs \<le> sizes ys" "numbered n ys \<Longrightarrow> numbered n xs"
  using assms by (auto simp: prefix_def numbered_append)

lemma Entries_chain:
  assumes c: "chain N n (Segments s) ess" and N: "N \<le> 2 ^ 32" and sz: "length (frames (concat ess)) < 2 ^ 64"
    and k: "k \<le> m" "m < length (concat ess)"
  defines "rng \<equiv> drop k (take (Suc m) (concat ess))"
  obtains rd where "Entries s (of_nat (n + k)) (of_nat (n + m) + 1) mx = Ok rd" "rd \<noteq> []" "prefix rd rng"
    "length rd = 1 \<or> data_sum rd \<le> unat mx" "sizes rng \<le> unat mx \<Longrightarrow> rd = rng"
proof -
  let ?es = "concat ess" let ?lo = "of_nat (n + k) :: u64" let ?hi = "of_nat (n + m) :: u64"
  let ?all = "limit_segs (unat mx) (parts k m ess)"
  have b: "n + m < 2 ^ 64"
    using numbered_bound [OF chain_numbered [OF c]] k by (cases "?es = []") auto
  then have u: "unat ?lo = n + k" "unat ?hi = n + m" using k(1) unat_of_nat_u64 [of "n + k"] unat_of_nat_u64 [of "n + m"] by simp_all
  have "6 * length ?es < 2 ^ 64" using length_frames_ge [of ?es] sz by simp
  then have "m - k + 1 < 2 ^ 63" using k by simp
  from sint_of_nat_u64 [OF this]
  have "\<not> sint (of_nat (m - k + 1) :: u64) < 0" by linarith
  moreover have "?hi - ?lo + 1 = of_nat (m - k + 1)" using k(1) by (simp add: of_nat_diff)
  ultimately have pos: "\<not> sint (?hi - ?lo + 1) < 0" by (simp only: not_False_eq_True)
  have all: "prefix ?all rng" "?all \<noteq> []" "sizes rng \<le> unat mx \<Longrightarrow> ?all = rng"
    using limit_segs_prefix [of "unat mx" "parts k m ess"] limit_segs_all [of "parts k m ess" "unat mx"]
      limit_segs_nonempty parts_hd [of k m ess] k by (auto simp: rng_def concat_parts)
  have num: "numbered (n + k) ?all"
    using prefix_sums(3) [OF all(1)] numbered_take_drop chain_numbered [OF c] k
    by (simp add: rng_def)
  have "data_sum rng < 2 ^ 64"
    using data_sum_le [of rng] sizes_take_drop [of k "Suc m" ?es] sizes_le_frames [of ?es] sz
    unfolding rng_def by linarith
  then have ds: "data_sum ?all < 2 ^ 64" using prefix_sums(1) [OF all(1)] by simp
  obtain rd where rd: "cutRaftEntries ?all mx = Ok rd" "rd \<noteq> []" "prefix rd ?all"
    "length rd = 1 \<or> data_sum rd \<le> unat mx" "data_sum ?all \<le> unat mx \<Longrightarrow> rd = ?all"
    using cutRaftEntries_numbered [OF num all(2) ds, of mx] by metis
  show thesis
  proof (rule that [of rd])
    have "readSegments (take (place m ess + 1 - place k ess) (drop (place k ess) (Segments s))) ?lo ?hi mx =
        Ok ?all"
      using read_segments_range [OF c N k, of mx] pos by (simp add: readSegments_def)
    then show "Entries s ?lo (?hi + 1) mx = Ok rd"
      using rd(1) u k checkRaftIndex_chain [OF c, of k] checkRaftIndex_chain [OF c, of m]
        getReadSegments_chain [OF c k]
      by (simp add: Entries_def word_less_nat_alt del: of_nat_add)
    show "prefix rd rng" using rd(3) all(1) by (rule prefix_order.trans)
    show "rd = rng" if "sizes rng \<le> unat mx"
      using rd(5) all(3) [OF that] data_sum_le [of rng] that by simp
  qed (use rd in auto)
qed

section \<open>Writing the log\<close>

lemma positioned_snoc [simp]:
  "length ss = length r \<Longrightarrow> positioned (ss @ [s]) (r @ [es]) \<longleftrightarrow>
     positioned ss r \<and> writePosition (LogFile s) = length (frames es)"
  by (auto simp: positioned_def list_all2_append)

lemma entriesToRecords_eq:
  "entriesToRecords es = Ok (map record_of es, length (frames es))"
proof (induction es)
  case (Cons e es)
  then show ?case
    by (simp add: Entry_Marshal_eq Let_def record_of_def length_frame RecordLengthSize_def)
qed simp

lemma Segment_at_position:
  assumes "Segment_at N s n es" "Status s = SegmentRDWR"
  shows "writePosition (LogFile s) = length (frames es)" "maxBytes (LogFile s) = N"
  using assms by (auto simp: Segment_at_def Segment_holds_def segment_data_defs)

lemma rollingSegment_empty:
  assumes "Segments s = []" "0 < N" "i \<noteq> 0"
  shows "runs os (rollingSegment os N s i)
    (\<lambda>seg s'. s' = s \<and> Segment_at N seg (unat i) [] \<and> Status seg = SegmentRDWR)"
  using assms
  by (auto simp: rollingSegment_def intro!: runs_mono [OF newSegment_at])

lemma rollingSegment_full:
  assumes "Segments s = ss @ [x]" "0 < N" "i \<noteq> 0"
    "Segment_at N x n es" "Status x = SegmentRDWR" "es \<noteq> []"
  shows "runs os (rollingSegment os N s i)
    (\<lambda>seg s'. Segment_at N seg (unat i) [] \<and> Status seg = SegmentRDWR \<and>
       (\<exists>x'. s' = s\<lparr>Segments := ss @ [x']\<rparr> \<and> Segment_at N x' n es \<and> Status x' = SegmentReadOnly \<and>
             writePosition (LogFile x') = length (frames es)))"
  using assms
  by (auto simp: rollingSegment_def intro!: runs_mono [OF changeToReadonly_at] runs_mono [OF newSegment_at])

text \<open>What a call of \<^verbatim>\<open>SaveRaftEntries\<close> relies on: the entries follow the log and fit in one segment.\<close>

definition saveable :: "nat \<Rightarrow> nat \<Rightarrow> Entry list \<Rightarrow> bool" where
  "saveable N i new \<longleftrightarrow>
     new \<noteq> [] \<and> list_all fits new \<and> numbered i new \<and> length (frames new) \<le> N"

lemma saveable_hd:
  assumes "saveable N i new" "0 < i"
  shows "Entry.Index (hd new) \<noteq> 0" "unat (Entry.Index (hd new)) = i" "0 < N" "new \<noteq> []"
    "length (frames new) \<le> N"
  using assms frame_length_bounds [of "hd new"] by (cases new; auto simp: saveable_def)+

lemma SaveRaftEntries_runs:
  assumes "new \<noteq> []" "length (frames new) \<le> N"
  shows "runs os (SaveRaftEntries os N s new) P =
    runs os (getWriteSegment os N s (Entry.Index (hd new)) (length (frames new)))
      (\<lambda>(seg, isNew) s'. runs os (appendRecords os seg (map record_of new) (Entry.Index (hd new)))
         (\<lambda>_ x. P () (if isNew then s'\<lparr>Segments := Segments s' @ [x]\<rparr>
                     else s'\<lparr>Segments := butlast (Segments s') @ [x]\<rparr>)))"
proof -
  obtain e r where e: "new = e # r" using assms(1) by (cases new) auto
  have "SaveRaftEntries os N s new =
      sbind (getWriteSegment os N s (Entry.Index (hd new)) (length (frames new))) (\<lambda>s. s) (\<lambda>(seg, isNew) s.
        scall (appendRecords os seg (map record_of new) (Entry.Index (hd new)))
          (\<lambda>seg. if isNew then s else s\<lparr>Segments := butlast (Segments s) @ [seg]\<rparr>)
          (\<lambda>_ seg. (Ok (), if isNew then s\<lparr>Segments := Segments s @ [seg]\<rparr>
                         else s\<lparr>Segments := butlast (Segments s) @ [seg]\<rparr>)))"
    using assms(2) by (simp add: SaveRaftEntries_def e entriesToRecords_eq Let_def
        del: entriesToRecords.simps list.map frames_simps)
  then show ?thesis by (simp add: case_prod_unfold)
qed

lemma SaveRaftEntries_first:
  assumes "Segments s = []" "saveable N n new" "0 < n"
  shows "runs os (SaveRaftEntries os N s new)
    (\<lambda>_ s'. \<exists>x. s' = s\<lparr>Segments := [x]\<rparr> \<and> Segment_at N x n new \<and> Status x = SegmentRDWR)"
proof -
  note h = saveable_hd [OF assms(2,3)]
  have app: "runs os (appendRecords os seg (map record_of new) (Entry.Index (hd new)))
      (\<lambda>_ x. Segment_at N x n new \<and> Status x = SegmentRDWR)"
    if "Segment_at N seg n []" "Status seg = SegmentRDWR" for seg
    using appendRecords_at [OF that, of new os] assms(2) by (simp add: saveable_def)
  show ?thesis using h assms(1)
    by (auto simp: SaveRaftEntries_runs getWriteSegment_def
        intro!: runs_mono [OF rollingSegment_empty] runs_mono [OF app])
qed

lemma SaveRaftEntries_last:
  assumes segs: "Segments s = ss @ [x]" and x: "Segment_at N x m es" "Status x = SegmentRDWR"
    and new: "saveable N (m + length es) new"
  shows "runs os (SaveRaftEntries os N s new)
    (\<lambda>_ s'. (\<exists>x'. s' = s\<lparr>Segments := ss @ [x']\<rparr> \<and> Segment_at N x' m (es @ new) \<and> Status x' = SegmentRDWR) \<or>
       (\<exists>x' y. s' = s\<lparr>Segments := ss @ [x', y]\<rparr> \<and> es \<noteq> [] \<and>
          Segment_at N x' m es \<and> Status x' = SegmentReadOnly \<and> writePosition (LogFile x') = length (frames es) \<and>
          Segment_at N y (m + length es) new \<and> Status y = SegmentRDWR))"
proof -
  have "0 < m + length es" using x(1) by (simp add: Segment_at_def)
  note h = saveable_hd [OF new this]
  have app: "runs os (appendRecords os seg (map record_of new) (Entry.Index (hd new)))
      (\<lambda>_ x. Segment_at N x n' (es' @ new) \<and> Status x = SegmentRDWR)"
    if "Segment_at N seg n' es'" "Status seg = SegmentRDWR" "n' + length es' = m + length es"
      "length (frames (es' @ new)) \<le> N" for seg n' es'
    using appendRecords_at [OF that(1,2), of new os] new that(3,4) by (simp add: saveable_def)
  show ?thesis
  proof (cases "needRolling x (length (frames new))")
    case True
    then have "es \<noteq> []" using h(5) Segment_at_position [OF x] by (auto simp: needRolling_def)
    then show ?thesis using h segs x True
      by (auto simp: SaveRaftEntries_runs getWriteSegment_def
          intro!: runs_mono [OF rollingSegment_full] runs_mono [OF app [where es' = "[]", simplified]])
  next
    case False
    then have room: "length (frames (es @ new)) \<le> N"
      using Segment_at_position [OF x] by (simp add: needRolling_def)
    show ?thesis using h segs x False room
      by (auto simp: SaveRaftEntries_runs getWriteSegment_def intro!: runs_mono [OF app [OF x _ room]])
  qed
qed

lemma log_holds_snoc:
  "log_holds N (ss @ [x]) n ess \<longleftrightarrow>
     (\<exists>r es. ess = r @ [es] \<and> chain N n ss r \<and> list_all (\<lambda>s. Status s = SegmentReadOnly) ss \<and>
        Segment_at N x (n + length (concat r)) es \<and> Status x = SegmentRDWR)"
  by (auto simp: log_holds_def)

lemma log_holds_simps [simp]: "log_holds N [] n ess \<longleftrightarrow> ess = []"
  by (auto simp: log_holds_def)

lemma settled_last: "Segments s = ss @ [x] \<Longrightarrow> Segment_at N x m es \<Longrightarrow> es \<noteq> [] \<Longrightarrow> settled s"
  using Segment_at_first(5) by (auto simp: settled_def)

lemma storage_holds_snoc:
  assumes "Segments s = ss @ [x]" "0 < n"
  shows "storage_holds own N s n es \<longleftrightarrow>
    (\<exists>r e. chain N n ss r \<and> list_all (\<lambda>s. Status s = SegmentReadOnly) ss \<and> (own \<longrightarrow> positioned ss r) \<and>
       Segment_at N x (n + length (concat r)) e \<and> Status x = SegmentRDWR \<and> es = concat r @ e)"
proof -
  have "positioned (ss @ [x]) (r @ [e]) \<longleftrightarrow> positioned ss r"
    if "chain N n ss r" "Segment_at N x m e" "Status x = SegmentRDWR" for r e m
    using chain_length [OF that(1)] Segment_at_position [OF that(2,3)] by simp
  then have "chain N n ss r \<and> list_all (\<lambda>s. Status s = SegmentReadOnly) ss \<and> (own \<longrightarrow> positioned ss r) \<and>
       Segment_at N x (n + length (concat r)) e \<and> Status x = SegmentRDWR \<and> es = concat r @ e \<longleftrightarrow>
      (chain N n ss r \<and> list_all (\<lambda>s. Status s = SegmentReadOnly) ss \<and>
       Segment_at N x (n + length (concat r)) e \<and> Status x = SegmentRDWR) \<and>
      (own \<longrightarrow> positioned (ss @ [x]) (r @ [e])) \<and> es = concat (r @ [e])" for r e by auto
  then show ?thesis unfolding storage_holds_def assms(1) log_holds_snoc
    using assms(2) by (simp only: simp_thms) blast
qed

lemma SaveRaftEntries_holds:
  assumes s: "storage_holds own N s n es" and new: "saveable N (n + length es) new"
  shows "runs os (SaveRaftEntries os N s new)
    (\<lambda>_ s'. storage_holds own N s' n (es @ new) \<and> settled s' \<and> s' = s\<lparr>Segments := Segments s'\<rparr>)"
    (is "runs os _ ?Q")
proof -
  have n: "0 < n" and ne: "new \<noteq> []" using s new by (auto simp: storage_holds_def saveable_def)
  have Q: "?Q u s'" if "s' = s\<lparr>Segments := ss @ [x]\<rparr>" "chain N n ss r" "list_all (\<lambda>s. Status s = SegmentReadOnly) ss"
    "own \<longrightarrow> positioned ss r" "Segment_at N x (n + length (concat r)) e" "Status x = SegmentRDWR"
    "es @ new = concat r @ e" "e \<noteq> []" for u s' ss x r e
    using that n storage_holds_snoc [of s' ss x n own N "es @ new"] settled_last [of s' ss x] by auto
  show ?thesis
  proof (cases "Segments s" rule: rev_cases)
    case Nil
    then have es: "es = []" using s by (auto simp: storage_holds_def)
    show ?thesis
      by (rule runs_mono [OF SaveRaftEntries_first [OF Nil _ n, of N new]], use new es in simp,
          elim exE conjE, rule Q [where ss = "[]" and r = "[]"])
        (use es ne in \<open>auto simp: positioned_def\<close>)
  next
    case (snoc ss x)
    then obtain r e where r: "chain N n ss r" "list_all (\<lambda>s. Status s = SegmentReadOnly) ss" "own \<longrightarrow> positioned ss r"
      "Segment_at N x (n + length (concat r)) e" "Status x = SegmentRDWR" "es = concat r @ e"
      using s n by (auto simp: storage_holds_snoc)
    have len: "length ss = length r" using chain_length [OF r(1)] by simp
    have "saveable N (n + length (concat r) + length e) new" using new r(6) by (simp add: add.assoc)
    note last = SaveRaftEntries_last [OF snoc r(4,5) this, of os]
    show ?thesis
    proof (rule runs_mono [OF last], elim disjE exE conjE)
      fix u s' x' y assume x: "s' = s\<lparr>Segments := ss @ [x', y]\<rparr>" "e \<noteq> []"
        "Segment_at N x' (n + length (concat r)) e" "Status x' = SegmentReadOnly"
        "writePosition (LogFile x') = length (frames e)"
        and y: "Segment_at N y (n + length (concat r) + length e) new" "Status y = SegmentRDWR"
      have "chain N n (ss @ [x']) (r @ [e])" "own \<longrightarrow> positioned (ss @ [x']) (r @ [e])"
        using r(1,3) x len by (auto simp: chain_append)
      then show "?Q u s'" using x y r ne
        by (intro Q [where ss = "ss @ [x']" and r = "r @ [e]" and e = new]) (auto simp: add.assoc)
    qed (rule Q [where ss = ss and r = r and e = "e @ new"], use r ne in auto)
  qed
qed

section \<open>Truncating the log\<close>

lemma Segment_remove_runs:
  assumes "Segment_holds N s es"
  shows "runs os (Segment_remove os s) (\<lambda>_ _. True)"
proof -
  have m: "runs os (MmapFile_remove os f) (\<lambda>_ _. True)" if "mapped f" for f
    using that by (auto simp: MmapFile_remove_def MmapFile_close_def)
  have "mapped (LogFile s)" "Index_holds (LogIndex s) (Status s) (index_of 0 es)"
    using assms by (auto simp: Segment_holds_def segment_data_defs)
  moreover have "runs os (RWFile_remove os rw) (\<lambda>_ _. True)" if "RWFile_holds rw ds" for rw ds
    using that by (auto simp: RWFile_remove_def RWFile_close_def Writer_Flush_def RWFile_holds_def
        File_Write_def)
  ultimately show ?thesis
    by (auto simp: Segment_remove_def Let_def Index_remove_def Index_holds_def
        split: SegmentStatus.splits intro!: runs_mono [OF m])
qed

lemma remove_all_runs:
  assumes "list_all (\<lambda>x. runs os (Segment_remove os x) (\<lambda>_ _. True)) segs"
  shows "runs os (remove_all os segs, s) (\<lambda>_ s'. s' = s)"
  using assms
proof (induction segs)
  case (Cons x segs)
  then show ?case by (cases "Segment_remove os x"; cases "fst (Segment_remove os x)") auto
qed simp

lemma meta_refl: "\<exists>m. s = s\<lparr>ds_Meta := m\<rparr>"
  by (rule exI [of _ "ds_Meta s"]) simp

lemma purgeSegments_frame: "purgeSegments os s segs = (r, s') \<Longrightarrow> \<exists>m. s' = s\<lparr>ds_Meta := m\<rparr>"
  by (auto simp: purgeSegments_def sbind_def split: prod.splits outcome.splits)

text \<open>The purged GTID set can be brought up to date: what purging needs of the metadata.\<close>

definition purge_ready :: "os \<Rightarrow> DiskStorage \<Rightarrow> bool" where
  "purge_ready os s \<longleftrightarrow> runs os (UpdatePugedGtidset os (ds_Meta s) (DiskStorage_FirstIndex s)) (\<lambda>_ _. True)"

lemma purgeSegments_runs:
  assumes "purge_ready os s" "list_all (\<lambda>x. runs os (Segment_remove os x) (\<lambda>_ _. True)) segs"
  shows "runs os (purgeSegments os s segs) (\<lambda>_ s'. \<exists>m. s' = s\<lparr>ds_Meta := m\<rparr>)"
proof -
  have "runs os (UpdatePugedGtidset os (ds_Meta s) (DiskStorage_FirstIndex s))
      (\<lambda>_ m. runs os (remove_all os segs, s\<lparr>ds_Meta := m\<rparr>) (\<lambda>_ s'. \<exists>m. s' = s\<lparr>ds_Meta := m\<rparr>))"
    by (rule runs_mono [OF assms(1) [unfolded purge_ready_def]], rule runs_mono [OF remove_all_runs [OF assms(2)]])
      blast
  then show ?thesis by (simp add: purgeSegments_def)
qed

lemma find_place:
  assumes "\<And>i s. (i, s) \<in> set xs \<Longrightarrow> (P s \<longleftrightarrow> i = f)" "f \<in> set (map fst xs)"
  shows "map_option fst (List.find (\<lambda>(_, s). P s) xs) = Some f"
  using assms
proof (induction xs)
  case (Cons x xs)
  obtain i s where x: "x = (i, s)" by (cases x)
  show ?case
  proof (cases "i = f")
    case False
    then show ?thesis using Cons x by (auto simp del: set_map)
  qed (use Cons.prems(1) x in auto)
qed simp

lemma log_holds_nth:
  assumes "log_holds N segs n ess" "j < length segs"
  shows "Segment_at N (segs ! j) (n + length (concat (take j ess))) (ess ! j)"
    "length ess = length segs" "Suc j < length segs \<Longrightarrow> Status (segs ! j) = SegmentReadOnly"
proof -
  obtain ss x r es where h: "segs = ss @ [x]" "ess = r @ [es]" "chain N n ss r"
    "list_all (\<lambda>s. Status s = SegmentReadOnly) ss" "Segment_at N x (n + length (concat r)) es"
    using assms by (auto simp: log_holds_def)
  note len = chain_length [OF h(3)]
  show "length ess = length segs" using h len by simp
  show "Segment_at N (segs ! j) (n + length (concat (take j ess))) (ess ! j)"
    using chain_nth(1) [OF h(3), of j] h assms(2) len by (cases "j = length ss") (auto simp: nth_append)
  show "Suc j < length segs \<Longrightarrow> Status (segs ! j) = SegmentReadOnly"
    using h by (auto simp: nth_append list_all_length)
qed

lemma log_holds_remove:
  assumes h: "log_holds N segs n ess" and x: "x \<in> set segs"
  shows "runs os (Segment_remove os x) (\<lambda>_ _. True)"
proof -
  obtain j where "j < length segs" "x = segs ! j" using x by (auto simp: in_set_conv_nth)
  then have "Segment_holds N x (ess ! j)" using log_holds_nth(1) [OF h, of j] by (simp add: Segment_at_def)
  then show ?thesis by (rule Segment_remove_runs)
qed

lemma log_holds_take:
  assumes "log_holds N segs n ess" "j < length segs"
  shows "chain N n (take j segs) (take j ess)" "list_all (\<lambda>s. Status s = SegmentReadOnly) (take j segs)"
proof -
  obtain ss x r es where h: "segs = ss @ [x]" "ess = r @ [es]" "chain N n ss r"
    "list_all (\<lambda>s. Status s = SegmentReadOnly) ss"
    using assms by (auto simp: log_holds_def)
  then show "chain N n (take j segs) (take j ess)" "list_all (\<lambda>s. Status s = SegmentReadOnly) (take j segs)"
    using chain_take [OF h(3), of j] assms(2) chain_length [OF h(3)]
    by (auto simp: list_all_length)
qed

lemma find_truncate_log:
  assumes h: "log_holds N segs n ess" "0 < n" and k: "k < length (concat ess)"
  shows "find_truncate (of_nat (n + k)) segs = Some (place k ess)" "place k ess < length segs"
proof -
  have len: "length ess = length segs" using h(1) k log_holds_nth(2) [OF h(1)] by (cases segs) auto
  show p: "place k ess < length segs" using place_bounds [OF k] len by simp
  have b: "n + k < 2 ^ 64"
    using numbered_bound [OF log_holds_numbered [OF h(1)]] k by (cases "concat ess = []") auto
  have "in_range (of_nat (n + k)) (segs ! j) \<longleftrightarrow> j = place k ess" if j: "j < length segs" for j
  proof (cases "ess ! j = []")
    case True
    then have "FirstIndex (segs ! j) = 0" "LastIndex (segs ! j) = 0"
      using log_holds_nth(1) [OF h(1) j] by (auto simp: Segment_at_def Segment_holds_def)
    moreover have "(of_nat (n + k) :: u64) \<noteq> 0"
      using unat_of_nat_u64 [OF b] h(2) by (metis add_is_0 less_numeral_extra(3) unat_0)
    moreover have "j \<noteq> place k ess" using place_bounds [OF k] True by auto
    ultimately show ?thesis by (auto simp: in_range_def)
  next
    case False
    show ?thesis using in_range_at [OF log_holds_nth(1) [OF h(1) j] False b] place_eq_iff [OF k, of j] j len
      by auto
  qed
  then show "find_truncate (of_nat (n + k)) segs = Some (place k ess)"
    unfolding find_truncate_def using p
    by (intro find_place) (auto simp: in_set_enumerate_eq rev_map [symmetric])
qed

text \<open>The last step of a truncation, when the segments after the one that is cut are gone.\<close>

lemma cut_last_segment:
  assumes s: "log_holds N segs n ess" "positioned segs ess" "0 < n" and N: "N \<le> 2 ^ 32"
    and k: "k < length (concat ess)" and s1: "Segments s1 = take (Suc (place k ess)) segs"
  shows "runs os (sbind (Segment_truncateSuffix os (Segments s1 ! place k ess) (of_nat (n + k)))
      (\<lambda>seg. s1\<lparr>Segments := (Segments s1)[place k ess := seg]\<rparr>) (\<lambda>_ s. (Ok (), s)))
    (\<lambda>_ s'. storage_holds True N s' n (take k (concat ess)) \<and> (\<exists>g. s' = s1\<lparr>Segments := g\<rparr>) \<and>
      (length (concat (take (place k ess) ess)) = k \<longrightarrow> DiskStorage_LastIndex s' = 0))"
proof -
  let ?i = "place k ess" let ?off = "length (concat (take ?i ess))" let ?k = "k - ?off"
  have i: "?i < length segs" "?off \<le> k" "?k < length (ess ! ?i)"
    using find_truncate_log(2) [OF s(1,3) k] place_bounds [OF k] by auto
  have x: "Segment_at N (segs ! ?i) (n + ?off) (ess ! ?i)"
    "writePosition (LogFile (segs ! ?i)) = length (frames (ess ! ?i))"
    using log_holds_nth(1) [OF s(1) i(1)] s(2) i(1) by (auto simp: positioned_def list_all2_conv_all_nth)
  have nth: "Segments s1 ! ?i = segs ! ?i" and upd: "(Segments s1)[?i := y] = take ?i segs @ [y]" for y
    using s1 i(1) by (simp_all add: take_Suc_conv_app_nth list_update_append nth_append)
  have idx: "of_nat (n + k) = (of_nat (n + ?off + ?k) :: u64)" using i(2) by simp
  have es: "take k (concat ess) = concat (take ?i ess) @ take ?k (ess ! ?i)"
  proof -
    have "ess = take ?i ess @ ess ! ?i # drop (Suc ?i) ess"
      using i(1) log_holds_nth(2) [OF s(1) i(1)] by (intro id_take_nth_drop) simp
    then have "concat ess = concat (take ?i ess) @ ess ! ?i @ concat (drop (Suc ?i) ess)"
      by (metis concat.simps(2) concat_append)
    then show ?thesis using i(2,3) by simp
  qed
  have pos: "positioned (take ?i segs) (take ?i ess)"
    using s(2) by (auto simp: positioned_def intro: list_all2_takeI)
  have last0: "LastIndex y = 0" if "Segment_at N y m (take ?k (ess ! ?i))" "?off = k" for y m
    using that by (simp add: Segment_at_def Segment_holds_def)
  show ?thesis unfolding nth upd idx
    using s(3) log_holds_take [OF s(1) i(1)] pos es
    by (auto intro!: runs_mono [OF Segment_truncateSuffix_at [OF x(1) N i(3) x(2)]] simp: storage_holds_snoc
        DiskStorage_LastIndex_def last0 simp del: of_nat_add)
qed

lemma TruncateSuffix_eq:
  assumes "log_holds N (Segments s) n ess" "0 < n" "k < length (concat ess)"
  defines "i \<equiv> place k ess"
  defines "s0 \<equiv> s\<lparr>Segments := take (Suc i) (Segments s)\<rparr>"
  shows "TruncateSuffix os s (of_nat (n + k)) =
    sbind (if drop (Suc i) (Segments s) = [] then (Ok (), s0)
           else purgeSegments os s0 (drop (Suc i) (Segments s))) (\<lambda>s. s) (\<lambda>_ s1.
      sbind (Segment_truncateSuffix os (Segments s1 ! i) (of_nat (n + k)))
        (\<lambda>seg. s1\<lparr>Segments := (Segments s1)[i := seg]\<rparr>) (\<lambda>_ s. (Ok (), s)))"
  using find_truncate_log(1) [OF assms(1-3)]
  by (simp add: TruncateSuffix_def Let_def i_def s0_def del: of_nat_add)

lemma TruncateSuffix_holds:
  assumes s: "storage_holds True N s n es" and N: "N \<le> 2 ^ 32" and k: "k < length es"
    and ready: "purge_ready os s"
  shows "runs os (TruncateSuffix os s (of_nat (n + k)))
    (\<lambda>_ s'. storage_holds True N s' n (take k es) \<and> (\<exists>m g. s' = s\<lparr>ds_Meta := m, Segments := g\<rparr>))"
proof -
  obtain ess where ess: "log_holds N (Segments s) n ess" "positioned (Segments s) ess" "0 < n" "es = concat ess"
    using s by (auto simp: storage_holds_def)
  then have kl: "k < length (concat ess)" using k by simp
  let ?i = "place k ess" let ?s = "s\<lparr>Segments := take (Suc ?i) (Segments s)\<rparr>"
  have rem: "list_all (\<lambda>x. runs os (Segment_remove os x) (\<lambda>_ _. True)) (drop (Suc ?i) (Segments s))"
    using log_holds_remove [OF ess(1)] by (meson in_set_dropD list_all_iff)
  have "DiskStorage_FirstIndex ?s = DiskStorage_FirstIndex s"
    by (cases "Segments s") (simp_all add: DiskStorage_FirstIndex_def)
  then have "purge_ready os ?s" using ready by (simp add: purge_ready_def)
  from purgeSegments_runs [OF this rem]
  have "runs os (if drop (Suc ?i) (Segments s) = [] then (Ok (), ?s)
           else purgeSegments os ?s (drop (Suc ?i) (Segments s))) (\<lambda>_ s1. \<exists>m. s1 = ?s\<lparr>ds_Meta := m\<rparr>)"
    using meta_refl [of ?s] by (cases "drop (Suc ?i) (Segments s) = []") simp_all
  then show ?thesis unfolding TruncateSuffix_eq [OF ess(1,3) kl] runs_sbind [of _ _ "\<lambda>s. s"]
  proof (rule runs_mono, elim exE)
    fix u s1 m assume s1: "s1 = ?s\<lparr>ds_Meta := m\<rparr>"
    show "runs os (sbind (Segment_truncateSuffix os (Segments s1 ! ?i) (of_nat (n + k)))
        (\<lambda>seg. s1\<lparr>Segments := (Segments s1)[?i := seg]\<rparr>) (\<lambda>_ s. (Ok (), s)))
      (\<lambda>_ s'. storage_holds True N s' n (take k es) \<and> (\<exists>m g. s' = s\<lparr>ds_Meta := m, Segments := g\<rparr>))"
      by (rule runs_mono [OF cut_last_segment [OF ess(1-3) N kl]]) (use s1 ess(4) in auto)
  qed
qed


text \<open>The same for a truncation that returned, whatever the metadata.\<close>

lemma TruncateSuffix_log:
  assumes ess: "log_holds N (Segments s) n ess" "positioned (Segments s) ess" "0 < n"
    and N: "N \<le> 2 ^ 32" and kl: "k < length (concat ess)"
    and ret: "TruncateSuffix os s (of_nat (n + k)) = (Ok u, s')"
  shows "storage_holds True N s' n (take k (concat ess))" "purger s' = purger s" "purgeStarted s' = purgeStarted s"
    "length (concat (take (place k ess) ess)) = k \<Longrightarrow> DiskStorage_LastIndex s' = 0"
proof -
  let ?i = "place k ess" let ?s = "s\<lparr>Segments := take (Suc ?i) (Segments s)\<rparr>"
  let ?cut = "\<lambda>s1. sbind (Segment_truncateSuffix os (Segments s1 ! ?i) (of_nat (n + k)))
        (\<lambda>seg. s1\<lparr>Segments := (Segments s1)[?i := seg]\<rparr>) (\<lambda>_ s. (Ok (), s))"
  let ?rest = "drop (Suc ?i) (Segments s)"
  have "sbind (if ?rest = [] then (Ok (), ?s) else purgeSegments os ?s ?rest) (\<lambda>s. s) (\<lambda>_. ?cut) = (Ok u, s')"
    using ret unfolding TruncateSuffix_eq [OF ess(1,3) kl] .
  then obtain a s1 where s1: "?cut s1 = (Ok u, s')"
    "(if ?rest = [] then (Ok (), ?s) else purgeSegments os ?s ?rest) = (Ok a, s1)"
    unfolding sbind_eq_Ok [of _ "\<lambda>s. s"] by blast
  obtain m where m: "s1 = ?s\<lparr>ds_Meta := m\<rparr>"
  proof (cases "?rest = []")
    case True
    then have "?s = s1" using s1(2) by (simp only: simp_thms if_True prod.inject)
    then show ?thesis using meta_refl [of ?s] that by blast
  next
    case False
    then have "purgeSegments os ?s ?rest = (Ok a, s1)" using s1(2) by (simp only: if_False)
    then show ?thesis using purgeSegments_frame that by blast
  qed
  have "storage_holds True N s' n (take k (concat ess)) \<and> (\<exists>g. s' = s1\<lparr>Segments := g\<rparr>) \<and>
      (length (concat (take (place k ess) ess)) = k \<longrightarrow> DiskStorage_LastIndex s' = 0)"
    by (rule runs_okD [OF cut_last_segment [OF ess N kl] s1(1)]) (simp add: m)
  then show "storage_holds True N s' n (take k (concat ess))" "purger s' = purger s" "purgeStarted s' = purgeStarted s"
    "length (concat (take (place k ess) ess)) = k \<Longrightarrow> DiskStorage_LastIndex s' = 0" using m by auto
qed

lemma TruncateSuffix_ok:
  assumes s: "storage_holds True N s n es" and N: "N \<le> 2 ^ 32" and k: "k < length es"
    and ret: "TruncateSuffix os s (of_nat (n + k)) = (Ok u, s')"
  shows "storage_holds True N s' n (take k es)" "purger s' = purger s" "purgeStarted s' = purgeStarted s"
proof -
  obtain ess where ess: "log_holds N (Segments s) n ess" "positioned (Segments s) ess" "0 < n" "es = concat ess"
    using s by (auto simp: storage_holds_def)
  then show "storage_holds True N s' n (take k es)" "purger s' = purger s" "purgeStarted s' = purgeStarted s"
    using TruncateSuffix_log(1-3) [OF ess(1-3) N _ ret] k by simp_all
qed

section \<open>Purging, and every run of the storage\<close>

text \<open>The number of entries of a segment, by its two indexes.\<close>

definition entry_count :: "Segment \<Rightarrow> nat" where
  "entry_count s = (if LastIndex s = 0 then 0 else unat (LastIndex s) + 1 - unat (FirstIndex s))"

lemma entry_count_at: "Segment_at N s n es \<Longrightarrow> entry_count s = length es"
proof (cases "es = []")
  case True
  moreover assume "Segment_at N s n es"
  ultimately show ?thesis by (simp add: Segment_at_def Segment_holds_def entry_count_def)
next
  case False
  moreover assume s: "Segment_at N s n es"
  moreover have "0 < length es" using False by simp
  ultimately show ?thesis
    using Segment_at_first(2,3,5) [OF s False] by (simp add: entry_count_def)
qed

lemma log_holds_counts:
  assumes "log_holds N segs n ess"
  shows "map entry_count segs = map length ess"
proof (rule nth_equalityI)
  show l: "length (map entry_count segs) = length (map length ess)"
    using assms log_holds_nth(2) [OF assms, of 0] by (cases segs) auto
  fix i assume "i < length (map entry_count segs)"
  then show "map entry_count segs ! i = map length ess ! i"
    using entry_count_at [OF log_holds_nth(1) [OF assms]] l by simp
qed

lemma chain_drop: "chain N n ss ess \<Longrightarrow> chain N (n + length (concat (take j ess))) (drop j ss) (drop j ess)"
proof (induction ss arbitrary: n ess j)
  case (Cons s ss)
  then obtain es r where h: "ess = es # r" "es \<noteq> []" "Segment_at N s n es" "chain N (n + length es) ss r" by auto
  show ?case
  proof (cases j)
    case (Suc i)
    then show ?thesis using Cons.IH [OF h(4), of i] h(1) by (simp add: add.assoc)
  qed (use h in simp)
qed simp

lemma log_holds_drop:
  assumes "log_holds N segs n ess"
  shows "log_holds N (drop j segs) (n + length (concat (take j ess))) (drop j ess)"
proof (cases segs rule: rev_cases)
  case (snoc ss x)
  then obtain r es where h: "ess = r @ [es]" "chain N n ss r" "list_all (\<lambda>s. Status s = SegmentReadOnly) ss"
    "Segment_at N x (n + length (concat r)) es" "Status x = SegmentRDWR"
    using assms by (auto simp: log_holds_snoc)
  note len = chain_length [OF h(2)]
  show ?thesis
  proof (cases "j \<le> length ss")
    case True
    have "length (concat r) = length (concat (take j r)) + length (concat (drop j r))"
      by (metis append_take_drop_id concat_append length_append)
    moreover have "list_all (\<lambda>s. Status s = SegmentReadOnly) (drop j ss)"
      using h(3) by (meson in_set_dropD list_all_iff)
    ultimately show ?thesis
      using True h chain_drop [OF h(2), of j] len snoc by (simp add: log_holds_snoc add.assoc)
  qed (use snoc h len in \<open>simp add: not_le\<close>)
qed (use assms in simp)

lemma storage_holds_drop:
  assumes s: "storage_holds own N s n es" and d_def: "d = sum_list (map entry_count (take j (Segments s)))"
  shows "storage_holds own N (s\<lparr>Segments := drop j (Segments s), purger := p\<rparr>) (n + d) (drop d es)" "d \<le> length es"
proof -
  obtain ess where ess: "log_holds N (Segments s) n ess" "own \<longrightarrow> positioned (Segments s) ess" "es = concat ess" "0 < n"
    using s by (auto simp: storage_holds_def)
  have d: "d = length (concat (take j ess))"
    using log_holds_counts [OF ess(1)] unfolding d_def length_concat take_map [symmetric] by simp
  have es: "es = concat (take j ess) @ concat (drop j ess)"
    using ess(3) by (metis append_take_drop_id concat_append)
  then show "d \<le> length es" by (simp add: d)
  have "own \<longrightarrow> positioned (drop j (Segments s)) (drop j ess)"
    using ess(2) by (auto simp: positioned_def intro: list_all2_dropI)
  then show "storage_holds own N (s\<lparr>Segments := drop j (Segments s), purger := p\<rparr>) (n + d) (drop d es)"
    using log_holds_drop [OF ess(1), of j] ess(4) es unfolding storage_holds_def d
    by (intro conjI exI [of _ "drop j ess"]) auto
qed

text \<open>The segments the timer takes off, and the number of their entries.\<close>

definition delete_count :: "DiskStorage \<Rightarrow> nat" where
  "delete_count s = nat (int (length (Segments s)) - ReserveSegmentCount s)"

definition purged_entries :: "DiskStorage \<Rightarrow> nat" where
  "purged_entries s = sum_list (map entry_count (take (delete_count s) (Segments s)))"

lemma purge_fire_holds:
  assumes s: "storage_holds own N s n es" and f: "purge_fire s = (Ok u, s')"
  shows "storage_holds own N s' (n + purged_entries s) (drop (purged_entries s) es)"
proof (cases "ReserveSegmentCount s < int (length (Segments s))")
  case True
  then have "s' = s\<lparr>Segments := drop (delete_count s) (Segments s),
      purger := PurgeDelay (take (delete_count s) (Segments s))\<rparr>"
    using f by (auto simp: purge_fire_def Let_def delete_count_def split: if_splits)
  then show ?thesis using storage_holds_drop(1) [OF s purged_entries_def] by simp
next
  case False
  then have "delete_count s = 0" "s' = s\<lparr>purger := PurgeIdle\<rparr>"
    using f by (auto simp: purge_fire_def delete_count_def)
  then show ?thesis using s by (simp add: purged_entries_def storage_holds_def)
qed

lemma storage_holds_cong:
  "Segments s' = Segments s \<Longrightarrow> storage_holds own N s' n es \<longleftrightarrow> storage_holds own N s n es"
  by (simp add: storage_holds_def)

lemma purge_delayed_ok:
  assumes "purge_delayed os s segs = (Ok u, s')"
  shows "Segments s' = Segments s" "purger s' = PurgeIdle"
proof -
  obtain r t where t: "purgeSegments os s segs = (r, t)" by fastforce
  then obtain m where "t = s\<lparr>ds_Meta := m\<rparr>" using purgeSegments_frame by blast
  then show "Segments s' = Segments s" "purger s' = PurgeIdle"
    using assms t by (auto simp: purge_delayed_def split: outcome.splits)
qed

text \<open>
  The runs of a storage: the calls of the raft node (which saves entries that follow the log, and
  truncates at an index of the log) and the steps of the purging goroutine, in any order. The second
  and third component are the log that the storage stands for: its first index and its entries.
\<close>

inductive disk_step :: "nat \<Rightarrow> DiskStorage \<times> nat \<times> Entry list \<Rightarrow> DiskStorage \<times> nat \<times> Entry list \<Rightarrow> bool" for N where
  save: "saveable N (n + length es) new \<Longrightarrow> SaveRaftEntries os N s new = (Ok (), s') \<Longrightarrow>
    disk_step N (s, n, es) (s', n, es @ new)"
| truncate: "k < length es \<Longrightarrow> TruncateSuffix os s (of_nat (n + k)) = (Ok (), s') \<Longrightarrow>
    disk_step N (s, n, es) (s', n, take k es)"
| start: "disk_step N (s, n, es) (StartPurgeLog s, n, es)"
| fire: "purger s = PurgeArmed \<Longrightarrow> purge_fire s = (Ok (), s') \<Longrightarrow>
    disk_step N (s, n, es) (s', n + purged_entries s, drop (purged_entries s) es)"
| delayed: "purger s = PurgeDelay segs \<Longrightarrow> purge_delayed os s segs = (Ok (), s') \<Longrightarrow>
    disk_step N (s, n, es) (s', n, es)"

inductive_cases disk_stepE: "disk_step N (s, n, es) (s', n', es')"

lemma StartPurgeLog_Segments [simp]: "Segments (StartPurgeLog s) = Segments s"
  by (simp add: StartPurgeLog_def)

lemma disk_step_holds:
  assumes "disk_step N (s, n, es) (s', n', es')" "storage_holds True N s n es" "N \<le> 2 ^ 32"
  shows "storage_holds True N s' n' es'"
  using assms(1)
proof (cases rule: disk_step.cases)
  case (save new os)
  then show ?thesis using runs_okD [OF SaveRaftEntries_holds [OF assms(2) save(3)] save(4)] by simp
next
  case (truncate k os)
  then show ?thesis using TruncateSuffix_ok(1) [OF assms(2,3) truncate(3,4)] by simp
next
  case start
  then show ?thesis using assms(2) by (simp add: storage_holds_cong [of "StartPurgeLog s" s])
next
  case fire
  then show ?thesis using purge_fire_holds [OF assms(2)] by simp
next
  case (delayed segs os)
  then show ?thesis using assms(2) purge_delayed_ok(1) [of os s segs] by (simp add: storage_holds_cong [of s' s])
qed

lemma disk_run_holds:
  assumes "(disk_step N)\<^sup>*\<^sup>* x y" "storage_holds True N (fst x) (fst (snd x)) (snd (snd x))" "N \<le> 2 ^ 32"
  shows "storage_holds True N (fst y) (fst (snd y)) (snd (snd y))"
  using assms(1)
proof (induction rule: rtranclp_induct)
  case (step y z)
  then show ?case using disk_step_holds [of N _ _ _ "fst z" "fst (snd z)" "snd (snd z)"] assms(3)
    by (metis prod.collapse)
qed (use assms(2) in simp)

end
