(* ===== verification/Disk_Recovery.thy ===== *)
theory Disk_Recovery
  imports Disk_Log
begin

text \<open>
  The files a storage leaves behind, with or without \<^verbatim>\<open>Close\<close>, and what \<^verbatim>\<open>NewDiskStorage\<close> makes of them.
\<close>

section \<open>Opening an old log\<close>

lemma openMmapFile_name: "openMmapFile os dir name c = Ok f \<Longrightarrow> fileName f = name"
  by (auto simp: openMmapFile_def split: if_splits)

lemma openIndex_name:
  assumes "openIndex os dir name c st = Ok d"
  shows "if st = SegmentReadOnly then \<exists>f. readonly d = Some f \<and> fileName f = name
         else \<exists>rw. readWrite d = Some rw \<and> rw_name rw = name"
  using assms
  by (auto simp: openIndex_def obind_eq_Ok openRWFile_def dest: openMmapFile_name split: if_splits option.splits)

lemma appendIndexEntry_name:
  "appendIndexEntry os d e = (r, d') \<Longrightarrow> map_option rw_name (readWrite d') = map_option rw_name (readWrite d)"
  by (auto simp: appendIndexEntry_def sbind_def split: option.splits outcome.splits prod.splits dest: Writer_Write_name)

lemma rebuild_loop_name:
  "rebuild_loop os N data p rec0 e d = (r, d') \<Longrightarrow> map_option rw_name (readWrite d') = map_option rw_name (readWrite d)"
proof (induction "N - p" arbitrary: p rec0 e d rule: less_induct)
  case less
  have IH: "map_option rw_name (readWrite d') = map_option rw_name (readWrite d1)"
    if "rebuild_loop os N data (p + RecordLengthSize + z) rec1 e1 d1 = (r, d')" "p + RecordLengthSize < N"
    for z rec1 e1 d1
    by (rule less.hyps [OF _ that(1)]) (use that(2) in \<open>simp add: RecordLengthSize_def\<close>)
  from less.prems show ?case
    by (subst (asm) rebuild_loop.simps)
      (auto simp: Let_def dest!: appendIndexEntry_name dest: IH
        split: if_splits option.splits outcome.splits prod.splits)
qed

lemma rebuildIndex_name:
  "rebuildIndex os N files f = Ok d \<Longrightarrow> \<exists>rw. readWrite d = Some rw \<and> rw_name rw = GetIndexName (fileName f)"
  by (auto simp: rebuildIndex_def Let_def obind_eq_Ok newIndex_def newRWFile_def dest!: rebuild_loop_name
      split: if_splits outcome.splits prod.splits)

lemma resume_fields:
  "resume a f d = Ok s \<Longrightarrow> fileName (LogFile s) = fileName f \<and> LogIndex s = d"
  by (auto simp: resume_def obind_eq_Ok Let_def setPosition_def split: if_splits option.splits prod.splits outcome.splits)

lemma openSegment_named_ro:
  assumes "openSegment os N dir files (ReadonlySegmentPattern a b) SegmentReadOnly r = Ok s"
  shows "Segment_named s a"
  using assms
  by (auto simp: openSegment_def Let_def obind_eq_Ok Segment_named_def
      dest!: openMmapFile_name openIndex_name)

lemma openSegment_named_rw:
  assumes "openSegment os N dir files (ReadWriteSegmentPattern a) SegmentRDWR r = Ok s"
  shows "Segment_named s a"
  using assms
  by (auto simp: openSegment_def Let_def obind_eq_Ok Segment_named_def
      dest!: openMmapFile_name openIndex_name rebuildIndex_name resume_fields split: if_splits)

lemma hd_index: "numbered n es \<Longrightarrow> es \<noteq> [] \<Longrightarrow> Entry.Index (hd es) = of_nat n"
  using of_nat_unat [of "Entry.Index (hd es)"] by (cases es) auto

lemma openSegment_at_ro:
  assumes h: "segment_files_hold N files name (index_bytes (index_of 0 es)) es"
    and name: "name = ReadonlySegmentPattern (of_nat n) (Entry.Index (last es))"
    and n: "numbered n es" "0 < n" "n < 2 ^ 64"
  shows "runs os (openSegment os N dir files name SegmentReadOnly b, x)
    (\<lambda>s x'. x' = x \<and> Segment_at N s n es \<and> Status s = SegmentReadOnly)"
proof -
  have ne: "es \<noteq> []" using h by (simp add: segment_files_hold_def)
  have nm: "name = ReadonlySegmentPattern (Entry.Index (hd es)) (Entry.Index (last es))"
    using name hd_index [OF n(1) ne] by simp
  have "runs os (openSegment os N dir files name SegmentReadOnly b, x)
      (\<lambda>s x'. (x' = x \<and> Segment_holds N s es \<and> Status s = SegmentReadOnly) \<and> Segment_named s (of_nat n))"
    by (rule runs_always [OF _ openSegment_readonly [OF h nm]]) (use name in \<open>auto intro: openSegment_named_ro\<close>)
  then show ?thesis by (rule runs_mono) (use n in \<open>auto simp: Segment_at_def\<close>)
qed

lemma openSegment_at_rw:
  assumes h: "segment_files_hold N files name ix es" and N: "N \<le> 2 ^ 32"
    and ix: "b \<or> ix = index_bytes (index_of 0 es)"
    and name: "name = ReadWriteSegmentPattern (of_nat n)"
    and n: "numbered n es" "0 < n" "n < 2 ^ 64"
  shows "runs os (openSegment os N dir files name SegmentRDWR b, x)
    (\<lambda>s x'. x' = x \<and> Segment_at N s n es \<and> Status s = SegmentRDWR)"
proof -
  have ne: "es \<noteq> []" using h by (simp add: segment_files_hold_def)
  have nm: "name = ReadWriteSegmentPattern (Entry.Index (hd es))"
    using name hd_index [OF n(1) ne] by simp
  have "runs os (openSegment os N dir files name SegmentRDWR b, x)
      (\<lambda>s x'. (x' = x \<and> Segment_holds N s es \<and> Status s = SegmentRDWR) \<and> Segment_named s (of_nat n))"
    by (rule runs_always [OF _ openSegment_readwrite [OF h N ix nm]]) (use name in \<open>auto intro: openSegment_named_rw\<close>)
  then show ?thesis by (rule runs_mono) (use n in \<open>auto simp: Segment_at_def\<close>)
qed


text \<open>The files of the storage. Of the index that is written on, what is still in the buffer is not there.\<close>

definition index_file :: "Index \<Rightarrow> directory" where
  "index_file d =
     (case readonly d of
        Some f \<Rightarrow> [(fileName f, mappedData f)]
      | None \<Rightarrow> (case readWrite d of Some rw \<Rightarrow> [(rw_name rw, rw_content rw)] | None \<Rightarrow> []))"

definition segment_files :: "Segment \<Rightarrow> directory" where
  "segment_files s = (fileName (LogFile s), mappedData (LogFile s)) # index_file (LogIndex s)"

definition disk_files :: "DiskStorage \<Rightarrow> directory" where
  "disk_files s = concat (map segment_files (Segments s))"

lemma pattern_prefix:
  "take 20 (ReadonlySegmentPattern a b) = pad20 a" "take 20 (ReadonlyIndexPattern a b) = pad20 a"
  "take 20 (ReadWriteSegmentPattern a) = pad20 a" "take 20 (ReadWriteIndexPattern a) = pad20 a"
  by (simp_all add: ReadonlySegmentPattern_def ReadonlyIndexPattern_def ReadWriteSegmentPattern_def
      ReadWriteIndexPattern_def)

lemma pattern_suffix:
  "HasSuffix (ReadonlySegmentPattern a b) LogSuffix" "\<not> HasSuffix (ReadonlyIndexPattern a b) LogSuffix"
  "HasSuffix (ReadWriteSegmentPattern a) LogSuffix" "\<not> HasSuffix (ReadWriteIndexPattern a) LogSuffix"
  by (simp_all add: ReadonlySegmentPattern_def ReadonlyIndexPattern_def ReadWriteSegmentPattern_def
      ReadWriteIndexPattern_def HasSuffix_def LogSuffix_def)

lemmas patterns = pattern_prefix pattern_suffix

definition index_complete :: "Segment \<Rightarrow> bool" where
  "index_complete s \<longleftrightarrow> (\<forall>rw. readWrite (LogIndex s) = Some rw \<longrightarrow> rw_buf rw = [])"

text \<open>The two files of a segment: their names, and what reading them relies on.\<close>

lemma segment_files_at:
  assumes s: "Segment_at N s n es" "es \<noteq> []" and st: "Status s = SegmentReadOnly \<or> Status s = SegmentRDWR"
  obtains nm ix where "segment_files s = [(nm, frames es @ replicate (N - length (frames es)) 0), (GetIndexName nm, ix)]"
    "nm = fileName (LogFile s)" "take 20 nm = pad20 (of_nat n)" "take 20 (GetIndexName nm) = pad20 (of_nat n)"
    "HasSuffix nm LogSuffix" "\<not> HasSuffix (GetIndexName nm) LogSuffix"
    "Status s = SegmentReadOnly \<longrightarrow> ix = index_bytes (index_of 0 es)"
    "index_complete s \<longrightarrow> ix = index_bytes (index_of 0 es)"
    "nm = (if Status s = SegmentReadOnly then ReadonlySegmentPattern (of_nat n) (Entry.Index (last es))
           else ReadWriteSegmentPattern (of_nat n))"
proof -
  have data: "mappedData (LogFile s) = frames es @ replicate (N - length (frames es)) 0"
    and ih: "Index_holds (LogIndex s) (Status s) (index_of 0 es)"
    and l: "LastIndex s = Entry.Index (last es)" and nm: "Segment_named s (of_nat n)"
    using s by (auto simp: Segment_at_def Segment_holds_def segment_data_defs)
  show thesis
  proof (cases "Status s = SegmentReadOnly")
    case True
    obtain f where f: "readonly (LogIndex s) = Some f" "fileName f = ReadonlyIndexPattern (of_nat n) (LastIndex s)"
      "mappedData f = index_bytes (index_of 0 es)" "fileName (LogFile s) = ReadonlySegmentPattern (of_nat n) (LastIndex s)"
      using ih nm True unfolding Segment_named_def Index_holds_def by auto
    show ?thesis
      by (rule that [of "ReadonlySegmentPattern (of_nat n) (LastIndex s)" "index_bytes (index_of 0 es)"])
        (use f data l True in \<open>simp_all add: segment_files_def index_file_def patterns\<close>)
  next
    case False
    then have st: "Status s = SegmentRDWR" using st by simp
    obtain rw where rw: "readonly (LogIndex s) = None" "readWrite (LogIndex s) = Some rw"
      "rw_name rw = ReadWriteIndexPattern (of_nat n)" "rw_content rw @ rw_buf rw = index_bytes (index_of 0 es)"
      "fileName (LogFile s) = ReadWriteSegmentPattern (of_nat n)"
      using ih nm st unfolding Segment_named_def Index_holds_def RWFile_holds_def by auto
    show ?thesis
      by (rule that [of "ReadWriteSegmentPattern (of_nat n)" "rw_content rw"])
        (use rw data st in \<open>auto simp: segment_files_def index_file_def patterns index_complete_def\<close>)
  qed
qed


lemma names_less:
  assumes "take 20 x = pad20 a" "take 20 y = pad20 b" "a < b"
  shows "x < y"
proof -
  have "pad20 a @ drop 20 x < pad20 b @ drop 20 y"
    using assms(3) unfolding pad20_less_iff [symmetric] list_less_def
    by (intro lexord_sufI) auto
  then show ?thesis using assms(1,2) by (metis append_take_drop_id)
qed

definition openable :: "Segment \<Rightarrow> bool" where
  "openable s \<longleftrightarrow> Status s = SegmentReadOnly \<or> Status s = SegmentRDWR"

text \<open>Later segments have greater names.\<close>

lemma chain_member:
  assumes "chain N n segs ess" "x \<in> set segs"
  obtains m es where "n \<le> m" "m < 2 ^ 64" "Segment_at N x m es" "es \<noteq> []"
proof -
  obtain j where j: "j < length segs" "x = segs ! j" using assms(2) by (auto simp: in_set_conv_nth)
  note at = chain_nth [OF assms(1) j(1)]
  show thesis
    by (rule that [of "n + length (concat (take j ess))" "ess ! j"])
      (use at j(2) in \<open>auto simp: Segment_at_def\<close>)
qed

lemma files_prefix:
  assumes "Segment_at N x m es" "es \<noteq> []" "openable x" "(nm, c) \<in> set (segment_files x)"
  shows "take 20 nm = pad20 (of_nat m)" "map_of (segment_files x) nm = Some c"
proof -
  obtain l ix where "segment_files x = [(l, frames es @ replicate (N - length (frames es)) 0), (GetIndexName l, ix)]"
    "take 20 l = pad20 (of_nat m)" "take 20 (GetIndexName l) = pad20 (of_nat m)"
    "HasSuffix l LogSuffix" "\<not> HasSuffix (GetIndexName l) LogSuffix"
    using segment_files_at [OF assms(1,2)] assms(3) unfolding openable_def by metis
  then show "take 20 nm = pad20 (of_nat m)" "map_of (segment_files x) nm = Some c" using assms(4) by auto
qed

lemma files_lookup:
  assumes "chain N n segs ess" "list_all openable segs" "x \<in> set segs" "(nm, c) \<in> set (segment_files x)"
  shows "map_of (concat (map segment_files segs) @ rest) nm = Some c"
  using assms
proof (induction segs arbitrary: n ess)
  case (Cons s ss)
  then obtain es r where h: "es \<noteq> []" "Segment_at N s n es" "chain N (n + length es) ss r" by auto
  have os: "openable s" "list_all openable ss" using Cons.prems(2) by simp_all
  show ?case
  proof (cases "(nm, c) \<in> set (segment_files s)")
    case True
    then show ?thesis using files_prefix(2) [OF h(2,1) os(1) True] by (simp add: map_add_Some_iff)
  next
    case False
    then have x: "x \<in> set ss" using Cons.prems(3,4) by auto
    then obtain m es' where m: "n + length es \<le> m" "m < 2 ^ 64" "Segment_at N x m es'" "es' \<noteq> []"
      using chain_member [OF h(3)] by metis
    have nm: "take 20 nm = pad20 (of_nat m)"
      by (rule files_prefix(1) [OF m(3,4) _ Cons.prems(4)]) (use x os(2) in \<open>simp add: list_all_iff\<close>)
    have "0 < length es" using h(1) by simp
    then have "(of_nat n :: u64) < of_nat m"
      using m(1,2) unfolding word_less_nat_alt by (subst (1 2) unat_of_nat_u64) linarith+
    then have "pad20 (of_nat m) \<noteq> pad20 (of_nat n)" using pad20_less_iff [of "of_nat n" "of_nat m"] by auto
    then have "(nm, c') \<notin> set (segment_files s)" for c'
      using files_prefix(1) [OF h(2,1) os(1), of nm c'] nm by auto
    then have "map_of (segment_files s) nm = None" by (meson map_of_SomeD not_Some_eq)
    then show ?thesis using Cons.IH [OF h(3) os(2) x Cons.prems(4)] by (simp add: map_add_def)
  qed
qed simp

lemma log_names:
  assumes "chain N n segs ess" "list_all openable segs"
  shows "filter (\<lambda>nm. HasSuffix nm LogSuffix) (map fst (concat (map segment_files segs))) =
      map (\<lambda>s. fileName (LogFile s)) segs \<and>
    sorted_wrt (<) (map (\<lambda>s. fileName (LogFile s)) segs)"
  using assms
proof (induction segs arbitrary: n ess)
  case (Cons s ss)
  then obtain es r where h: "es \<noteq> []" "Segment_at N s n es" "chain N (n + length es) ss r" by auto
  have os: "openable s" using Cons.prems(2) by simp
  obtain l ix where l: "segment_files s = [(l, frames es @ replicate (N - length (frames es)) 0), (GetIndexName l, ix)]"
    "l = fileName (LogFile s)" "take 20 l = pad20 (of_nat n)"
    "HasSuffix l LogSuffix" "\<not> HasSuffix (GetIndexName l) LogSuffix"
    using segment_files_at [OF h(2,1)] os unfolding openable_def by metis
  have "fileName (LogFile s) < fileName (LogFile x)" if x: "x \<in> set ss" for x
  proof -
    obtain m es' where m: "n + length es \<le> m" "m < 2 ^ 64" "Segment_at N x m es'" "es' \<noteq> []"
      using chain_member [OF h(3) x] by metis
    have "take 20 (fileName (LogFile x)) = pad20 (of_nat m)"
      using files_prefix(1) [OF m(3,4)] x Cons.prems(2) by (auto simp: list_all_iff segment_files_def)
    moreover have "0 < length es" using h(1) by simp
    then have "(of_nat n :: u64) < of_nat m"
      using m(1,2) unfolding word_less_nat_alt by (subst (1 2) unat_of_nat_u64) linarith+
    ultimately show ?thesis using names_less [of l "of_nat n"] l(2,3) by simp
  qed
  then show ?case using Cons.IH [OF h(3)] Cons.prems(2) l by auto
qed simp


text \<open>
  A directory with a log in it: the files of the segments, all but the last one with a complete
  index file; of the last index nothing is needed when it is rebuilt.
\<close>

primrec dir_log :: "bool \<Rightarrow> nat \<Rightarrow> directory \<Rightarrow> nat \<Rightarrow> Entry list list \<Rightarrow> string list \<Rightarrow> bool" where
  "dir_log b N files n [] names \<longleftrightarrow> names = []"
| "dir_log b N files n (es # r) names \<longleftrightarrow>
     (\<exists>nm names' ix. names = nm # names' \<and> segment_files_hold N files nm ix es \<and>
        numbered n es \<and> 0 < n \<and> n < 2 ^ 64 \<and>
        (if r = [] then nm = ReadWriteSegmentPattern (of_nat n) \<and> (b \<or> ix = index_bytes (index_of 0 es))
         else nm = ReadonlySegmentPattern (of_nat n) (Entry.Index (last es)) \<and> ix = index_bytes (index_of 0 es)) \<and>
        dir_log b N files (n + length es) r names')"

lemma log_holds_Cons:
  assumes "Segment_at N x n es" "es \<noteq> []" "Status x = SegmentReadOnly" "log_holds N segs (n + length es) r" "segs \<noteq> []"
  shows "log_holds N (x # segs) n (es # r)"
proof -
  obtain ss y where y: "segs = ss @ [y]" using assms(5) by (cases segs rule: rev_cases) auto
  then obtain r' e where "r = r' @ [e]" "chain N (n + length es) ss r'" "list_all (\<lambda>s. Status s = SegmentReadOnly) ss"
    "Segment_at N y (n + length es + length (concat r')) e" "Status y = SegmentRDWR"
    using assms(4) by (auto simp: log_holds_snoc)
  then show ?thesis
    using assms log_holds_snoc [of N "x # ss" y n "es # r"] y by (auto simp: add.assoc)
qed

lemma open_all_runs:
  assumes "dir_log b N files n ess names" "N \<le> 2 ^ 32" "ess \<noteq> []"
  shows "runs os (open_all os N dir files b names, x)
    (\<lambda>segs x'. x' = x \<and> log_holds N segs n ess \<and> segs \<noteq> [] \<and> LastIndex (last segs) \<noteq> 0)"
  using assms
proof (induction ess arbitrary: n names)
  case (Cons es r)
  then obtain nm names' ix where h: "names = nm # names'" "segment_files_hold N files nm ix es"
    "numbered n es" "0 < n" "n < 2 ^ 64" "dir_log b N files (n + length es) r names'"
    "if r = [] then nm = ReadWriteSegmentPattern (of_nat n) \<and> (b \<or> ix = index_bytes (index_of 0 es))
     else nm = ReadonlySegmentPattern (of_nat n) (Entry.Index (last es)) \<and> ix = index_bytes (index_of 0 es)"
    by auto
  have ne: "es \<noteq> []" using h(2) by (simp add: segment_files_hold_def)
  show ?case
  proof (cases "r = []")
    case True
    then have "names = [nm]" using h(1,6) by simp
    moreover have "runs os (openSegment os N dir files nm SegmentRDWR b, x)
        (\<lambda>s x'. x' = x \<and> Segment_at N s n es \<and> Status s = SegmentRDWR)"
      by (rule openSegment_at_rw [OF h(2) Cons.prems(2) _ _ h(3-5)]) (use h(7) True in simp_all)
    moreover have "log_holds N [s] n [es] \<and> LastIndex s \<noteq> 0"
      if "Segment_at N s n es" "Status s = SegmentRDWR" for s
      using log_holds_snoc [of N "[]" s n "[es]"] Segment_at_first(5) [OF that(1) ne] that by simp
    ultimately show ?thesis using True by (auto elim!: runs_mono)
  next
    case False
    then obtain m ms where ms: "names' = m # ms" using h(6) by (cases r) auto
    have hd: "runs os (openSegment os N dir files nm SegmentReadOnly False, x)
        (\<lambda>s x'. x' = x \<and> Segment_at N s n es \<and> Status s = SegmentReadOnly)"
      by (rule openSegment_at_ro [OF _ _ h(3-5)]) (use h(2,7) False in simp_all)
    note tl = Cons.IH [OF h(6) Cons.prems(2) False]
    show ?thesis unfolding h(1) ms using ne
      by (auto intro!: runs_mono [OF hd] runs_mono [OF tl [unfolded ms]] log_holds_Cons)
  qed
qed simp


text \<open>The index of a segment that is written on, with an empty buffer.\<close>

definition flush :: "Segment \<Rightarrow> Segment" where
  "flush s =
     (case readWrite (LogIndex s) of
        None \<Rightarrow> s
      | Some rw \<Rightarrow> s\<lparr>LogIndex := (LogIndex s)\<lparr>readWrite := Some
          (rw\<lparr>rw_content := rw_content rw @ rw_buf rw, rw_offset := length (rw_content rw @ rw_buf rw), rw_buf := []\<rparr>)\<rparr>\<rparr>)"

lemma flush_simps [simp]:
  "FirstIndex (flush s) = FirstIndex s" "LastIndex (flush s) = LastIndex s" "Status (flush s) = Status s"
  "LogFile (flush s) = LogFile s" "readonly (LogIndex (flush s)) = readonly (LogIndex s)"
  "readWrite (LogIndex (flush s)) = map_option (\<lambda>rw. rw\<lparr>rw_content := rw_content rw @ rw_buf rw,
     rw_offset := length (rw_content rw @ rw_buf rw), rw_buf := []\<rparr>) (readWrite (LogIndex s))"
  by (auto simp: flush_def split: option.split)

lemma flush_at:
  assumes "Segment_at N s n es"
  shows "Segment_at N (flush s) n es" "index_complete (flush s)"
proof -
  have ih: "Index_holds (LogIndex s) (Status s) (index_of 0 es)" "Segment_named s (of_nat n)"
    using assms by (auto simp: Segment_at_def Segment_holds_def Segment_data_def)
  have "Index_holds (LogIndex (flush s)) (Status s) (index_of 0 es)"
    using ih(1) by (cases "Status s") (auto simp: Index_holds_def RWFile_holds_def simp flip: length_append)
  moreover have "Segment_named (flush s) (of_nat n)"
    using ih(2) by (cases "Status s") (auto simp: Segment_named_def)
  ultimately show "Segment_at N (flush s) n es" "index_complete (flush s)"
    using assms by (auto simp: Segment_at_def Segment_holds_def Segment_data_def index_complete_def)
qed

lemma dir_log_chain:
  assumes "chain N n segs ess" "segs \<noteq> []" "list_all (\<lambda>s. Status s = SegmentReadOnly) (butlast segs)"
    "Status (last segs) = SegmentRDWR" "b \<or> index_complete (last segs)"
    and "\<And>x nm c. x \<in> set segs \<Longrightarrow> (nm, c) \<in> set (segment_files x) \<Longrightarrow> map_of files nm = Some c"
  shows "dir_log b N files n ess (map (\<lambda>s. fileName (LogFile s)) segs)"
  using assms
proof (induction segs arbitrary: n ess)
  case (Cons s ss)
  then obtain es r where h: "ess = es # r" "es \<noteq> []" "Segment_at N s n es" "chain N (n + length es) ss r" by auto
  have r: "r = [] \<longleftrightarrow> ss = []" using chain_length [OF h(4)] by auto
  have st: "Status s = (if ss = [] then SegmentRDWR else SegmentReadOnly)"
    using Cons.prems(3,4) by (cases ss) auto
  then have "Status s = SegmentReadOnly \<or> Status s = SegmentRDWR" by simp
  from segment_files_at [OF h(3,2) this] obtain nm ix where l: "segment_files s =
      [(nm, frames es @ replicate (N - length (frames es)) 0), (GetIndexName nm, ix)]" "nm = fileName (LogFile s)"
    "Status s = SegmentReadOnly \<longrightarrow> ix = index_bytes (index_of 0 es)"
    "index_complete s \<longrightarrow> ix = index_bytes (index_of 0 es)"
    "nm = (if Status s = SegmentReadOnly then ReadonlySegmentPattern (of_nat n) (Entry.Index (last es))
           else ReadWriteSegmentPattern (of_nat n))"
    by metis
  have "Entry.Index (hd es) = FirstIndex s" "FirstIndex s \<noteq> 0" "numbered (unat (FirstIndex s)) es"
    "length (frames es) \<le> N" "list_all fits es"
    using h(2,3) by (auto simp: Segment_at_def Segment_holds_def segment_data_defs)
  moreover have "map_of files nm = Some (frames es @ replicate (N - length (frames es)) 0)"
    "map_of files (GetIndexName nm) = Some ix"
    using Cons.prems(6) [of s] l(1) by auto
  ultimately have "segment_files_hold N files nm ix es" using h(2) by (simp add: segment_files_hold_def)
  moreover have "dir_log b N files (n + length es) r (map (\<lambda>s. fileName (LogFile s)) ss)"
  proof (cases "ss = []")
    case False
    then show ?thesis using Cons.prems(3-5)
      by (intro Cons.IH [OF h(4)] Cons.prems(6)) auto
  qed (use r in simp)
  moreover have "numbered n es" "0 < n" "n < 2 ^ 64" using h(3) by (simp_all add: Segment_at_def)
  moreover have "if r = [] then nm = ReadWriteSegmentPattern (of_nat n) \<and> (b \<or> ix = index_bytes (index_of 0 es))
     else nm = ReadonlySegmentPattern (of_nat n) (Entry.Index (last es)) \<and> ix = index_bytes (index_of 0 es)"
    using l(3-5) st r Cons.prems(5) by (cases "ss = []") auto
  ultimately show ?case using h(1) l(2) by auto
qed simp


lemma getRecover_runs:
  assumes "ms_open m"
  shows "runs os (getRecover os m, x) (\<lambda>b x'. x' = x \<and>
    b = (case map_of (ms_bucket m) NeedRecoverKey of None \<Rightarrow> False | Some v \<Rightarrow> BytesToString v = ''true''))"
  using assms by (auto simp: getRecover_def Get_def View_def NeedRecoverKey_def split: option.split)

lemma setRecover_runs:
  assumes "ms_open m"
  shows "runs os (setRecover os m b) (\<lambda>_ m'. m' = commit
    (bucket_put NeedRecoverKey (StringToBytes (if b then ''true'' else ''false'')) (ms_bucket m)) m)"
  using assms
  by (auto simp: setRecover_def Set_def Update_def Put_def NeedRecoverKey_def StringToBytes_def)

lemma Metadata_not_log: "\<not> HasSuffix MetadataFile LogSuffix"
  by (simp add: MetadataFile_def LogSuffix_def HasSuffix_def)

text \<open>The directory with the files of the given segments and the metadata, as a process leaves it behind.\<close>

definition left_behind :: "Segment list \<Rightarrow> bytes \<Rightarrow> directory" where
  "left_behind segs meta = concat (map segment_files segs) @ [(MetadataFile, meta)]"

lemma openSegments_runs:
  assumes c: "chain N n segs ess" "segs \<noteq> []" "list_all (\<lambda>s. Status s = SegmentReadOnly) (butlast segs)"
    "Status (last segs) = SegmentRDWR" "b \<or> index_complete (last segs)" and N: "N \<le> 2 ^ 32"
  shows "runs os (openSegments os N dir (left_behind segs meta) b, x)
    (\<lambda>segs' x'. x' = x \<and> log_holds N segs' n ess \<and> segs' \<noteq> [] \<and> LastIndex (last segs') \<noteq> 0)"
    "all_ok os \<Longrightarrow> ExistLog os dir (left_behind segs meta)"
proof -
  let ?files = "left_behind segs meta" let ?names = "map (\<lambda>s. fileName (LogFile s)) segs"
  have op: "list_all openable segs"
    using c(2-4) by (cases segs rule: rev_cases) (auto simp: openable_def list_all_iff)
  note ln = log_names [OF c(1) op]
  have fl: "filter (\<lambda>nm. HasSuffix nm LogSuffix) (map fst ?files) = ?names"
    using ln by (simp add: left_behind_def Metadata_not_log)
  then have "filter (\<lambda>nm. HasSuffix nm LogSuffix) (ReadDir ?files) = sort ?names"
    by (simp add: ReadDir_def filter_sort)
  also have "\<dots> = ?names" using ln by (intro sorted_sort_id) (auto simp: strict_sorted_iff)
  finally have names: "filter (\<lambda>nm. HasSuffix nm LogSuffix) (ReadDir ?files) = ?names" .
  have "dir_log b N ?files n ess ?names"
    using files_lookup [OF c(1) op] unfolding left_behind_def by (intro dir_log_chain c)
  moreover have "ess \<noteq> []" using chain_length [OF c(1)] c(2) by auto
  ultimately show "runs os (openSegments os N dir ?files b, x)
    (\<lambda>segs' x'. x' = x \<and> log_holds N segs' n ess \<and> segs' \<noteq> [] \<and> LastIndex (last segs') \<noteq> 0)"
    using open_all_runs [OF _ N] names by (auto simp: openSegments_def)
  show "ExistLog os dir ?files" if "all_ok os"
  proof -
    have "filter (\<lambda>nm. HasSuffix nm LogSuffix) (map fst ?files) \<noteq> []" using fl c(2) by simp
    then show ?thesis using that by (auto simp: ExistLog_def all_ok_def list_ex_iff filter_empty_conv)
  qed
qed


lemma NewDiskStorage_runs:
  assumes c: "chain N n segs ess" "segs \<noteq> []" "list_all (\<lambda>s. Status s = SegmentReadOnly) (butlast segs)"
    "Status (last segs) = SegmentRDWR" and N: "0 < N" "N \<le> 2 ^ 32" and ok: "all_ok os" "dir \<noteq> []" "0 < n"
    and b: "map_of bkt NeedRecoverKey = Some (StringToBytes ''true'') \<or> index_complete (last segs)"
  obtains s where "NewDiskStorage os N dir g True (left_behind segs meta) bkt = Ok s"
    "storage_holds False N s n (concat ess)" "settled s"
proof -
  let ?m = "\<lparr>ms_Dir = dir, ms_bucket = bkt, ms_open = True, ms_commits = []\<rparr>"
  have os: "os k p" for k p using ok(1) by (simp add: all_ok_def)
  define rb where "rb = (case map_of bkt NeedRecoverKey of None \<Rightarrow> False | Some v \<Rightarrow> BytesToString v = ''true'')"
  have gr: "getRecover os ?m = Ok rb"
    by (rule runs_total [OF getRecover_runs [of ?m os "()"] ok(1)]) (simp_all add: rb_def)
  have "BytesToString (StringToBytes ''true'') = ''true''" by code_simp
  then have rb: "rb \<or> index_complete (last segs)" using b by (auto simp: rb_def)
  obtain segs' x where "(openSegments os N dir (left_behind segs meta) rb, ()) = (Ok segs', x)"
    and sh: "log_holds N segs' n ess" "segs' \<noteq> []" "LastIndex (last segs') \<noteq> 0"
    by (rule runs_total [OF openSegments_runs(1) [OF c rb N(2), of os dir meta "()"] ok(1)]) blast
  then have segs': "openSegments os N dir (left_behind segs meta) rb = Ok segs'" by simp
  obtain m' where m': "setRecover os ?m True = (Ok (), m')"
    by (rule runs_total [OF setRecover_runs [of ?m os True] ok(1)]) auto
  let ?s = "\<lparr>ds_Dir = dir, Segments = segs', ReserveSegmentCount = go_div (wrap64 (g * 1024 * 1024 * 1024)) (int N),
    purgeStarted = False, purger = PurgeOff, ds_Meta = m'\<rparr>"
  show thesis
  proof (rule that [of ?s])
    show "NewDiskStorage os N dir g True (left_behind segs meta) bkt = Ok ?s"
      using N ok(2) openSegments_runs(2) [OF c rb N(2) ok(1), of dir meta]
      by (simp add: NewDiskStorage_def DirExist_def NewMetaStore_def initSegments_def os gr segs' m')
    show "storage_holds False N ?s n (concat ess)" using sh(1) ok(3) by (auto simp: storage_holds_def)
    show "settled ?s" using sh(2,3) by (simp add: settled_def)
  qed
qed

lemma Segment_close_runs:
  assumes "Segment_at N x n es"
  shows "runs os (Segment_close os x) (\<lambda>_ x'. segment_files x' = segment_files (flush x))"
proof -
  have h: "mapped (LogFile x)" "Index_holds (LogIndex x) (Status x) (index_of 0 es)"
    using assms by (auto simp: Segment_at_def Segment_holds_def segment_data_defs)
  have m: "runs os (MmapFile_close os f) (\<lambda>_ f'. f' = f\<lparr>mapped := False\<rparr>)" if "mapped f" for f
    using that by (auto simp: MmapFile_close_def)
  have "runs os (Index_close os (LogIndex x)) (\<lambda>_ d. index_file d = index_file (LogIndex (flush x)))"
    using h(2) by (cases "Status x") (auto simp: Index_close_def Index_holds_def RWFile_holds_def RWFile_close_def
        Writer_Flush_def File_Write_def file_write_def index_file_def intro!: runs_mono [OF m])
  then show ?thesis using h(1)
    by (auto simp: Segment_close_def Let_def segment_files_def intro!: runs_mono [OF m] elim!: runs_mono)
qed

lemma close_all_runs:
  assumes "\<And>x. x \<in> set segs \<Longrightarrow> \<exists>n es. Segment_at N x n es"
  shows "runs os (close_all os segs) (\<lambda>_ segs'. map segment_files segs' = map segment_files (map flush segs))"
  using assms
proof (induction segs)
  case (Cons x segs)
  obtain n es where "Segment_at N x n es" using Cons.prems [of x] by auto
  note hd = Segment_close_runs [OF this, of os]
  have "runs os (close_all os segs) (\<lambda>_ segs'. map segment_files segs' = map segment_files (map flush segs))"
    using Cons by simp
  then show ?case by (auto intro!: runs_mono [OF hd] elim!: runs_mono)
qed simp

lemma chain_flush: "chain N n segs ess \<Longrightarrow> chain N n (map flush segs) ess"
  by (induction segs arbitrary: n ess) (auto intro: flush_at)


lemma storage_holds_settled:
  assumes "storage_holds own N s n es" "settled s"
  obtains ess where "chain N n (Segments s) ess" "es = concat ess" "Segments s \<noteq> []" "0 < n"
    "list_all (\<lambda>s. Status s = SegmentReadOnly) (butlast (Segments s))" "Status (last (Segments s)) = SegmentRDWR"
    "es \<noteq> []" "0 < N"
proof -
  obtain ess where ess: "log_holds N (Segments s) n ess" "es = concat ess" "0 < n"
    using assms(1) by (auto simp: storage_holds_def)
  note c = log_holds_chain [OF ess(1)]
  have ne: "Segments s \<noteq> []" "LastIndex (last (Segments s)) \<noteq> 0" using assms(2) by (auto simp: settled_def)
  obtain x e where x: "Segment_at N x n e" "e \<noteq> []"
    using c [OF ne] ne(1) by (cases "Segments s") auto
  have "frames e \<noteq> []" "length (frames e) \<le> N"
    using x by (auto simp: Segment_at_def Segment_holds_def segment_data_defs)
  then have "0 < N" by (cases "frames e") auto
  moreover have "list_all (\<lambda>s. Status s = SegmentReadOnly) (butlast (Segments s))" "Status (last (Segments s)) = SegmentRDWR"
    using ess(1) ne(1) by (auto simp: log_holds_def)
  ultimately show thesis
    using that [OF c [OF ne]] ess ne chain_indexes(3) [OF c [OF ne] ne(1)] by simp
qed

lemma DiskStorage_Close_runs:
  assumes s: "storage_holds own N s n es" and p: "\<forall>segs. purger s \<noteq> PurgeDelay segs" and m: "ms_open (ds_Meta s)"
  shows "runs os (DiskStorage_Close os s)
    (\<lambda>_ s'. map segment_files (Segments s') = map segment_files (map flush (Segments s)) \<and>
       ms_bucket (ds_Meta s') = bucket_put NeedRecoverKey (StringToBytes ''false'') (ms_bucket (ds_Meta s)))"
proof -
  obtain ess where ess: "log_holds N (Segments s) n ess" using s by (auto simp: storage_holds_def)
  have mem: "\<exists>n es. Segment_at N x n es" if x: "x \<in> set (Segments s)" for x
  proof -
    obtain j where "j < length (Segments s)" "x = Segments s ! j" using x by (auto simp: in_set_conv_nth)
    then show ?thesis using log_holds_nth(1) [OF ess, of j] by blast
  qed
  have stop: "runs os (if purgeStarted s then StopPurgeLog os s else (Ok (), s))
      (\<lambda>_ s1. Segments s1 = Segments s \<and> ds_Meta s1 = ds_Meta s)"
    using p by (auto simp: StopPurgeLog_def split: purge_state.split)
  have close2: "ms_bucket (snd (Close2 os m)) = ms_bucket m" for m by (simp add: Close2_def)
  show ?thesis unfolding DiskStorage_Close_def runs_sbind
  proof (rule runs_mono [OF stop])
    fix u s1 assume s1: "Segments s1 = Segments s \<and> ds_Meta s1 = ds_Meta s"
    have "runs os (close_all os (Segments s1))
        (\<lambda>_ segs'. map segment_files segs' = map segment_files (map flush (Segments s)))"
      using close_all_runs [of "Segments s" N os, OF mem] s1 by simp
    then show "runs os (close_all os (Segments s1)) (\<lambda>a t. runs os (setRecover os (ds_Meta (s1\<lparr>Segments := t\<rparr>)) False)
        (\<lambda>a' t'. runs os (Ok (), s1\<lparr>Segments := t, ds_Meta := t', ds_Meta := snd (Close2 os (ds_Meta (s1\<lparr>Segments := t, ds_Meta := t'\<rparr>)))\<rparr>)
          (\<lambda>_ s'. map segment_files (Segments s') = map segment_files (map flush (Segments s)) \<and>
            ms_bucket (ds_Meta s') = bucket_put NeedRecoverKey (StringToBytes ''false'') (ms_bucket (ds_Meta s)))))"
      by (rule runs_mono) (use s1 m in \<open>auto simp: close2 intro!: runs_mono [OF setRecover_runs]\<close>)
  qed
qed

section \<open>Segments that wait for their removal\<close>

text \<open>
  Between the firing of the timer and the removal of the files, four seconds later, the purged segments are still on
  disk. They hold the entries before the first index of the log; \<open>waiting_hold\<close> is the invariant.
\<close>

definition waiting :: "DiskStorage \<Rightarrow> Segment list" where
  "waiting s = (case purger s of PurgeDelay segs \<Rightarrow> segs | _ \<Rightarrow> [])"

definition waiting_hold :: "nat \<Rightarrow> DiskStorage \<Rightarrow> nat \<Rightarrow> bool" where
  "waiting_hold N s n \<longleftrightarrow>
     (\<exists>m ess. chain N m (waiting s) ess \<and> m + length (concat ess) = n \<and> 0 < m \<and>
        list_all (\<lambda>s. Status s = SegmentReadOnly) (waiting s))"

lemma waiting_hold_none: "waiting s = [] \<Longrightarrow> 0 < n \<Longrightarrow> waiting_hold N s n"
  by (simp add: waiting_hold_def)

lemma waiting_hold_cong: "purger s' = purger s \<Longrightarrow> waiting_hold N s' n \<longleftrightarrow> waiting_hold N s n"
  by (simp add: waiting_hold_def waiting_def)

lemma waiting_chain:
  assumes "waiting_hold N s n" "chain N n (Segments s) ess"
  obtains old where "chain N (n - length (concat old)) (drop j (waiting s)) old"
    "chain N (n - length (concat old)) (drop j (waiting s) @ Segments s) (old @ ess)" "0 < n - length (concat old)"
    "list_all (\<lambda>s. Status s = SegmentReadOnly) (drop j (waiting s))"
proof -
  obtain m w where w: "chain N m (waiting s) w" "m + length (concat w) = n" "0 < m"
    "list_all (\<lambda>s. Status s = SegmentReadOnly) (waiting s)"
    using assms(1) by (auto simp: waiting_hold_def)
  have "length (concat w) = length (concat (take j w)) + length (concat (drop j w))"
    by (metis append_take_drop_id concat_append length_append)
  then have i: "n - length (concat (drop j w)) = m + length (concat (take j w))"
    "m + length (concat (take j w)) + length (concat (drop j w)) = n" using w(2) by simp_all
  show thesis
  proof (rule that [of "drop j w"])
    show c: "chain N (n - length (concat (drop j w))) (drop j (waiting s)) (drop j w)"
      unfolding i by (rule chain_drop [OF w(1)])
    show "chain N (n - length (concat (drop j w))) (drop j (waiting s) @ Segments s) (drop j w @ ess)"
      using c assms(2) i unfolding chain_append by (intro exI [of _ "drop j w"] exI [of _ ess]) simp
    show "0 < n - length (concat (drop j w))" using i w(3) by simp
    show "list_all (\<lambda>s. Status s = SegmentReadOnly) (drop j (waiting s))"
      using w(4) by (auto simp: list_all_iff dest: in_set_dropD)
  qed
qed

lemma purge_fire_waiting:
  assumes s: "storage_holds own N s n es" and f: "purge_fire s = (Ok u, s')" and r: "1 \<le> ReserveSegmentCount s"
  shows "waiting_hold N s' (n + purged_entries s)"
proof (cases "ReserveSegmentCount s < int (length (Segments s))")
  case True
  obtain ess where ess: "log_holds N (Segments s) n ess" "0 < n" using s by (auto simp: storage_holds_def)
  have j: "delete_count s < length (Segments s)" using True r by (simp add: delete_count_def)
  have w: "waiting s' = take (delete_count s) (Segments s)"
    using f True by (auto simp: purge_fire_def Let_def delete_count_def waiting_def split: if_splits)
  have "purged_entries s = length (concat (take (delete_count s) ess))"
    using log_holds_counts [OF ess(1)] by (simp add: purged_entries_def length_concat flip: take_map)
  then show ?thesis
    using log_holds_take [OF ess(1) j] ess(2) unfolding waiting_hold_def w
    by (intro exI [of _ n] exI [of _ "take (delete_count s) ess"]) simp
next
  case False
  then have "delete_count s = 0" "waiting s' = []"
    using f by (auto simp: purge_fire_def delete_count_def waiting_def)
  then show ?thesis using s by (simp add: purged_entries_def waiting_hold_def storage_holds_def)
qed

lemma TruncateSuffix_reserve: "ReserveSegmentCount (snd (TruncateSuffix os s i)) = ReserveSegmentCount s"
proof -
  have p: "ReserveSegmentCount (snd (purgeSegments os t segs)) = ReserveSegmentCount t" for t segs
    using purgeSegments_frame [of os t segs] by (cases "purgeSegments os t segs") auto
  show ?thesis
    using p by (auto simp: TruncateSuffix_def Let_def sbind_def split: option.split prod.split outcome.split)
       (metis snd_conv DiskStorage.select_convs(3) DiskStorage.surjective DiskStorage.update_convs(2))+
qed

text \<open>The invariant of a run, with at least one segment in reserve.\<close>

lemma disk_step_waiting:
  assumes "disk_step N (s, n, es) (s', n', es')" "storage_holds True N s n es" "N \<le> 2 ^ 32"
    and "waiting_hold N s n" "1 \<le> ReserveSegmentCount s"
  shows "waiting_hold N s' n' \<and> 1 \<le> ReserveSegmentCount s'"
  using assms(1)
proof (cases rule: disk_step.cases)
  case (save new os)
  have e: "s' = s\<lparr>Segments := Segments s'\<rparr>"
    using runs_okD [OF SaveRaftEntries_holds [OF assms(2) save(3)] save(4)] by simp
  have "purger s' = purger s" "ReserveSegmentCount s' = ReserveSegmentCount s" by (subst e, simp)+
  then show ?thesis using assms(4,5) save(1) waiting_hold_cong [of s' s] by simp
next
  case (truncate k os)
  then have "purger s' = purger s" using TruncateSuffix_ok(2) [OF assms(2,3) truncate(3,4)] by simp
  then show ?thesis
    using assms(4,5) truncate(1,4) TruncateSuffix_reserve [of os s "of_nat (n + k)"] waiting_hold_cong [of s' s] by simp
next
  case start
  then show ?thesis using assms(2,4,5) waiting_hold_cong [of "StartPurgeLog s" s]
    by (cases "purgeStarted s") (auto simp: StartPurgeLog_def storage_holds_def waiting_def intro!: waiting_hold_none)
next
  case fire
  then have "ReserveSegmentCount s' = ReserveSegmentCount s" by (auto simp: purge_fire_def Let_def split: if_splits)
  then show ?thesis using purge_fire_waiting [OF assms(2) fire(4) assms(5)] fire(1) assms(5) by simp
next
  case (delayed segs os)
  obtain r t where t: "purgeSegments os s segs = (r, t)" by fastforce
  then obtain m where "t = s\<lparr>ds_Meta := m\<rparr>" using purgeSegments_frame by blast
  then have "ReserveSegmentCount s' = ReserveSegmentCount s" "purger s' = PurgeIdle"
    using delayed(4) t by (auto simp: purge_delayed_def split: outcome.splits)
  then show ?thesis using delayed(1) assms(2,5) by (auto simp: waiting_def storage_holds_def intro!: waiting_hold_none)
qed

lemma disk_run_waiting:
  assumes "(disk_step N)\<^sup>*\<^sup>* (s, n, es) (s', n', es')" "storage_holds True N s n es" "N \<le> 2 ^ 32"
    and "waiting_hold N s n" "1 \<le> ReserveSegmentCount s"
  shows "storage_holds True N s' n' es' \<and> waiting_hold N s' n'"
proof -
  have "storage_holds True N s' n' es' \<and> waiting_hold N s' n' \<and> 1 \<le> ReserveSegmentCount s'"
    using assms(1)
  proof (induction "(s', n', es')" arbitrary: s' n' es' rule: rtranclp_induct)
    case (step y)
    then show ?case using disk_step_holds disk_step_waiting assms(3) by (metis prod.collapse)
  qed (use assms in simp)
  then show ?thesis by simp
qed

section \<open>An empty segment\<close>

text \<open>A segment in which nothing is written cannot be opened again: its index has no last entry.\<close>

lemma openSegment_empty:
  assumes "Segment_at N x n []" "Status x = SegmentRDWR" "all_ok os"
    and "map_of files (fileName (LogFile x)) = Some (mappedData (LogFile x))"
    and "map_of files (GetIndexName (fileName (LogFile x))) \<noteq> None"
  shows "openSegment os N dir files (fileName (LogFile x)) SegmentRDWR True = Crash"
proof -
  have os: "os k p" for k p using assms(3) by (simp add: all_ok_def)
  have d: "mappedData (LogFile x) = replicate N 0" "fileName (LogFile x) = ReadWriteSegmentPattern (of_nat n)"
    using assms(1,2) by (auto simp: Segment_at_def Segment_holds_def segment_data_defs Segment_named_def)
  show ?thesis
  proof (cases "N = 0")
    case False
    let ?f = "\<lparr>fileDir = dir, fileName = fileName (LogFile x), mappedData = replicate N 0,
      writePosition = 0, syncPosition = 0, maxBytes = N, mapped = True\<rparr>"
    obtain ix y where "(rebuildIndex os N files ?f, ()) = (Ok ix, y)" and ix: "Index_holds ix SegmentRDWR (index_of 0 [])"
      by (rule runs_total [OF rebuildIndex_holds [of ?f "[]" "replicate N 0" N files os "()"] assms(3)])
        (use assms(5) torn_zeros in auto)
    moreover have "getLastRaftEntry ix SegmentRDWR = Crash"
      using ix by (auto simp: getLastRaftEntry_def Index_holds_def RWFile_holds_def)
    ultimately show ?thesis
      using assms(4) False by (simp add: openSegment_def Let_def openMmapFile_def os d Sscanf_patterns resume_def)
  qed (use assms(4) d in \<open>simp add: openSegment_def Let_def openMmapFile_def\<close>)
qed

text \<open>
  A storage whose log was truncated at its first entry, or that stopped before the first entry was written, holds
  one segment without entries. Opening it again panics.
\<close>

theorem reopen_empty_log_crashes:
  assumes "storage_holds own N s n []" "Segments s \<noteq> []" "0 < N" "all_ok os" "dir \<noteq> []"
    and "map_of bkt NeedRecoverKey = Some (StringToBytes ''true'')"
  shows "NewDiskStorage os N dir g True (left_behind (Segments s) meta) bkt = Crash"
proof -
  obtain x where x: "Segments s = [x]" "Segment_at N x n []" "Status x = SegmentRDWR"
  proof -
    obtain ss x r es where h: "Segments s = ss @ [x]" "chain N n ss r" "Segment_at N x (n + length (concat r)) es"
      "Status x = SegmentRDWR" "concat r @ es = []"
      using assms(1,2) by (auto simp: storage_holds_def log_holds_def)
    then have "ss = []" by (cases ss) auto
    then show ?thesis using that h by simp
  qed
  let ?nm = "fileName (LogFile x)" and ?m = "\<lparr>ms_Dir = dir, ms_bucket = bkt, ms_open = True, ms_commits = []\<rparr>"
  have nm: "?nm = ReadWriteSegmentPattern (of_nat n)" using x by (auto simp: Segment_at_def Segment_named_def)
  obtain c where ix: "index_file (LogIndex x) = [(GetIndexName ?nm, c)]"
    using x by (auto simp: Segment_at_def Segment_named_def index_file_def Segment_holds_def Segment_data_def Index_holds_def)
  let ?files = "left_behind (Segments s) meta"
  have files: "?files = [(?nm, mappedData (LogFile x)), (GetIndexName ?nm, c), (MetadataFile, meta)]"
    using x ix by (simp add: left_behind_def segment_files_def)
  have sfx: "HasSuffix ?nm LogSuffix" "\<not> HasSuffix (GetIndexName ?nm) LogSuffix" by (simp_all add: nm patterns)
  have os: "os k p" for k p using assms(4) by (simp add: all_ok_def)
  have "filter (\<lambda>n. HasSuffix n LogSuffix) (map fst ?files) = [?nm]" using sfx Metadata_not_log by (simp add: files)
  then have names: "filter (\<lambda>n. HasSuffix n LogSuffix) (ReadDir ?files) = [?nm]" by (simp add: ReadDir_def filter_sort)
  have "openSegment os N dir ?files ?nm SegmentRDWR True = Crash"
    using openSegment_empty [OF x(2,3) assms(4)] sfx by (auto simp: files)
  then have o: "openSegments os N dir ?files True = Crash" by (simp add: openSegments_def os names)
  have "BytesToString (StringToBytes ''true'') = ''true''" by code_simp
  then have "getRecover os ?m = Ok True"
    using assms(6) by (simp add: getRecover_def Get_def View_def os NeedRecoverKey_def)
  moreover have "ExistLog os dir ?files" using sfx by (simp add: ExistLog_def os files)
  ultimately show ?thesis
    using assms(3,5) o by (simp add: NewDiskStorage_def DirExist_def NewMetaStore_def initSegments_def os)
qed

end
