(* ===== verification/Disk_Properties.thy ===== *)
theory Disk_Properties
  imports Disk_Recovery
begin

text \<open>
  The contract of the read side of the storage as a locale, its interpretation on the disk storage,
  and the properties of the disk storage, each applied to a small storage.
\<close>

section \<open>The log that raft reads\<close>

text \<open>
  The contract of the read side of \<^verbatim>\<open>storage.Storage\<close> (the comments of \<^verbatim>\<open>src/storage/storage.go\<close>): the
  first and the last index, and \<^verbatim>\<open>Entries\<close>, which returns a part of the range that starts where the
  range starts and is not empty. \<open>holds s n es\<close> says that \<open>s\<close> has the entries \<open>es\<close> from index \<open>n\<close> on.
\<close>

locale raft_log =
  fixes holds :: "'s \<Rightarrow> nat \<Rightarrow> Entry list \<Rightarrow> bool"
    and first_index :: "'s \<Rightarrow> u64"
    and last_index :: "'s \<Rightarrow> u64"
    and entries :: "'s \<Rightarrow> u64 \<Rightarrow> u64 \<Rightarrow> u64 \<Rightarrow> ('e, Entry list) outcome"
  assumes first_law: "holds s n es \<Longrightarrow> unat (first_index s) = n"
    and last_law: "holds s n es \<Longrightarrow> unat (last_index s) = n + length es - 1"
    and entries_law: "holds s n es \<Longrightarrow> k \<le> m \<Longrightarrow> m < length es \<Longrightarrow>
      \<exists>rd. entries s (of_nat (n + k)) (of_nat (n + m) + 1) mx = Ok rd \<and> rd \<noteq> [] \<and>
        prefix rd (drop k (take (Suc m) es))"
begin

lemma read_one:
  assumes "holds s n es" "k < length es"
  shows "entries s (of_nat (n + k)) (of_nat (n + k) + 1) mx = Ok [es ! k]"
proof -
  have "drop k (take (Suc k) es) = [es ! k]" using assms(2) by (simp add: take_Suc_conv_app_nth)
  then show ?thesis using entries_law [OF assms(1) order.refl assms(2), of mx]
    by (auto simp: prefix_Cons)
qed

end

definition disk_log :: "nat \<Rightarrow> DiskStorage \<Rightarrow> nat \<Rightarrow> Entry list \<Rightarrow> bool" where
  "disk_log N s n es \<longleftrightarrow>
     storage_holds False N s n es \<and> settled s \<and> N \<le> 2 ^ 32 \<and> length (frames es) < 2 ^ 64"

lemma disk_log_chain:
  assumes "disk_log N s n es"
  obtains ess where "chain N n (Segments s) ess" "es = concat ess" "Segments s \<noteq> []" "N \<le> 2 ^ 32"
    "length (frames (concat ess)) < 2 ^ 64"
  using assms storage_holds_settled [of False N s n es] unfolding disk_log_def by metis

lemma disk_log_weaken: "storage_holds own N s n es \<Longrightarrow> storage_holds False N s n es"
  by (auto simp: storage_holds_def)

interpretation ds: raft_log "disk_log N" DiskStorage_FirstIndex DiskStorage_LastIndex Entries for N
proof
  fix s n es k m mx
  assume h: "disk_log N s n es"
  obtain ess where c: "chain N n (Segments s) ess" "es = concat ess" "Segments s \<noteq> []" "N \<le> 2 ^ 32"
    "length (frames (concat ess)) < 2 ^ 64" using disk_log_chain [OF h] by metis
  show "unat (DiskStorage_FirstIndex s) = n" "unat (DiskStorage_LastIndex s) = n + length es - 1"
    using chain_indexes [OF c(1,3)] c(2) by simp_all
  assume "k \<le> m" "m < length es"
  then show "\<exists>rd. Entries s (of_nat (n + k)) (of_nat (n + m) + 1) mx = Ok rd \<and> rd \<noteq> [] \<and>
      prefix rd (drop k (take (Suc m) es))"
    using Entries_chain [OF c(1,4,5)] c(2) by metis
qed

section \<open>Properties\<close>

text \<open>C2: \<^verbatim>\<open>SaveRaftEntries\<close> appends: when the storage holds the entries \<open>es\<close> from index \<open>n\<close> on and no system
  call fails, saving entries that follow them (and fit in one segment) returns without an error, and
  then the storage holds \<open>es\<close> and the new entries, whether or not a new segment was started.\<close>

theorem SaveRaftEntries_appends:
  assumes "storage_holds own N s n es" "saveable N (n + length es) new" "all_ok os"
    "SaveRaftEntries os N s new = (r, s')"
  shows "r = Ok () \<and> storage_holds own N s' n (es @ new) \<and> settled s'"
proof -
  obtain u t where "SaveRaftEntries os N s new = (Ok u, t)" "storage_holds own N t n (es @ new)" "settled t"
    by (rule runs_total [OF SaveRaftEntries_holds [OF assms(1,2)] assms(3)]) blast
  then show ?thesis using assms(4) by simp
qed

definition empty_disk :: DiskStorage where
  "empty_disk = \<lparr>ds_Dir = ''data'', Segments = [], ReserveSegmentCount = 2, purgeStarted = False,
     purger = PurgeOff, ds_Meta = empty_store\<rparr>"

definition entry_at :: "u64 \<Rightarrow> Entry" where
  "entry_at i = \<lparr>Term = 1, Index = i, EType = 0, EData = Some [42], E_XXX_unrecognized = []\<rparr>"

lemma entry_at_size: "i < 128 \<Longrightarrow> Entry_Size (entry_at i) = 9"
proof -
  assume "i < 128"
  then have "unat i < 2 ^ (7 * Suc 0)" by (simp add: word_less_nat_alt)
  then have "sovRecord i \<le> Suc 0" by (rule sovRecord_le)
  moreover have "0 < sovRecord i" by (simp add: sovRecord.simps [of i])
  ultimately have "sovRecord i = 1" by simp
  moreover have "sovRecord 0 = 1" "sovRecord 1 = 1" by (simp_all add: sovRecord.simps)
  ultimately show ?thesis by (simp add: Entry_Size_def entry_at_def)
qed

lemma entry_at_sizes:
  assumes "i < 128" 
  shows "length (frame (entry_at i)) \<le> 22" "fits (entry_at i)" "17 \<le> length (frame (entry_at i))"
proof -
  let ?c = "ucast (ChecksumIEEE (Entry_MarshalTo (entry_at i))) :: u64"
  have "unat ?c < 2 ^ 32" using unsigned_less [of "ChecksumIEEE (Entry_MarshalTo (entry_at i))", where 'a = nat]
    by (simp add: unsigned_ucast_eq take_bit_nat_eq_self)
  then have "sovRecord ?c \<le> Suc 4" by (intro sovRecord_le) simp
  moreover have "sovRecord 9 = 1" by (simp add: sovRecord.simps)
  moreover have "0 < sovRecord ?c" by (simp add: sovRecord.simps [of ?c])
  ultimately have "Record_Size (record_of (entry_at i)) \<le> 18" "13 \<le> Record_Size (record_of (entry_at i))"
    using entry_at_size [OF assms] by (simp_all add: Record_Size_def record_of_def length_Entry_MarshalTo)
  then show "length (frame (entry_at i)) \<le> 22" "fits (entry_at i)" "17 \<le> length (frame (entry_at i))"
    by (simp_all add: length_frame fits_def entry_at_def)
qed

text \<open>Two storages to apply the properties to: one segment with two entries, and two segments.\<close>

definition disk2 :: DiskStorage where
  "disk2 = snd (SaveRaftEntries os_ok 128 empty_disk [entry_at 1, entry_at 2])"

lemma saveable_entries:
  "saveable 128 1 [entry_at 1, entry_at 2]" "saveable 44 1 [entry_at 1, entry_at 2]" "saveable 44 3 [entry_at 3]"
  using entry_at_sizes [of 1] entry_at_sizes [of 2] entry_at_sizes [of 3]
  by (simp_all add: saveable_def) (simp_all add: entry_at_def)

lemma empty_disk_holds: "0 < n \<Longrightarrow> storage_holds own N empty_disk n []"
  by (auto simp: storage_holds_def empty_disk_def positioned_def intro!: exI [of _ "[]"])

lemma disk2_holds:
  "SaveRaftEntries os_ok 128 empty_disk [entry_at 1, entry_at 2] = (Ok (), disk2)"
  "storage_holds True 128 disk2 1 [entry_at 1, entry_at 2]" "settled disk2"
  "disk2 = empty_disk\<lparr>Segments := Segments disk2\<rparr>"
proof -
  have "saveable 128 (1 + length ([] :: Entry list)) [entry_at 1, entry_at 2]" using saveable_entries by simp
  note save = SaveRaftEntries_holds [OF empty_disk_holds [of 1 True 128] this, of os_ok, simplified]
  obtain u t where "SaveRaftEntries os_ok 128 empty_disk [entry_at 1, entry_at 2] = (Ok u, t)"
    "storage_holds True 128 t 1 [entry_at 1, entry_at 2]" "settled t" "t = empty_disk\<lparr>Segments := Segments t\<rparr>"
    by (rule runs_total [OF save]) auto
  then show "SaveRaftEntries os_ok 128 empty_disk [entry_at 1, entry_at 2] = (Ok (), disk2)"
    "storage_holds True 128 disk2 1 [entry_at 1, entry_at 2]" "settled disk2"
    "disk2 = empty_disk\<lparr>Segments := Segments disk2\<rparr>" unfolding disk2_def by simp_all
qed

lemma disk2_log: "disk_log 128 disk2 1 [entry_at 1, entry_at 2]"
  using disk2_holds disk_log_weaken entry_at_sizes(1) [of 1] entry_at_sizes(1) [of 2] by (auto simp: disk_log_def)

theorem SaveRaftEntries_appends_witness:
  "storage_holds True 128 (snd (SaveRaftEntries os_ok 128 empty_disk [entry_at 1, entry_at 2])) 1
     [entry_at 1, entry_at 2]"
  using SaveRaftEntries_appends [OF empty_disk_holds [of 1 True 128], of "[entry_at 1, entry_at 2]" os_ok]
    saveable_entries(1)
  by (metis One_nat_def add.right_neutral all_ok_os_ok append_Nil list.size(3) prod.collapse zero_less_one)

text \<open>C3: \<^verbatim>\<open>Entries(lo, hi, maxSize)\<close> reads the log: on a storage that holds the entries \<open>es\<close> from index \<open>n\<close>
  on, for every range within the log it returns a non-empty part of the range from its start; it is
  one entry or has at most \<^verbatim>\<open>maxSize\<close> bytes of data, and it is the whole range when the range has at
  most \<^verbatim>\<open>maxSize\<close> bytes.\<close>

theorem Entries_reads_log:
  assumes "disk_log N s n es" "k \<le> m" "m < length es"
  shows "\<exists>rd. Entries s (of_nat (n + k)) (of_nat (n + m) + 1) mx = Ok rd \<and>
    rd \<noteq> [] \<and> prefix rd (drop k (take (Suc m) es)) \<and> (length rd = 1 \<or> data_sum rd \<le> unat mx) \<and>
    (sizes (drop k (take (Suc m) es)) \<le> unat mx \<longrightarrow> rd = drop k (take (Suc m) es))"
proof -
  obtain ess where c: "chain N n (Segments s) ess" "es = concat ess" "N \<le> 2 ^ 32"
    "length (frames (concat ess)) < 2 ^ 64" using disk_log_chain [OF assms(1)] by metis
  have "m < length (concat ess)" using assms(3) c(2) by simp
  from Entries_chain [OF c(1,3,4) assms(2) this, of mx] show ?thesis unfolding c(2) by metis
qed

theorem Entries_reads_log_witness:
  "Entries disk2 1 3 18 = Ok [entry_at 1, entry_at 2]"
  using Entries_reads_log [OF disk2_log, of 0 1 18] entry_at_size [of 1] entry_at_size [of 2] by auto

text \<open>C16: outside of the log \<^verbatim>\<open>Entries\<close> returns the error for it: \<^verbatim>\<open>ErrArgsIllegal\<close> for an empty range,
  \<^verbatim>\<open>ErrCompacted\<close> when the range starts before the first entry, \<^verbatim>\<open>ErrOutOfBound\<close> when it ends after
  the last one.\<close>

theorem Entries_errors:
  assumes "disk_log N s n es"
  shows "(hi - 1 < lo \<longrightarrow> Entries s lo hi mx = Err ErrArgsIllegal) \<and>
    (lo \<le> hi - 1 \<and> unat lo < n \<longrightarrow> Entries s lo hi mx = Err ErrCompacted) \<and>
    (lo \<le> hi - 1 \<and> n \<le> unat lo \<and> n + length es \<le> unat (hi - 1) \<longrightarrow> Entries s lo hi mx = Err ErrOutOfBound)"
proof -
  obtain ess where c: "chain N n (Segments s) ess" "es = concat ess" "Segments s \<noteq> []"
    using disk_log_chain [OF assms] by metis
  have "unat (DiskStorage_FirstIndex s) = n" "unat (DiskStorage_LastIndex s) + 1 = n + length es"
    using chain_indexes [OF c(1,3)] c(2) by (cases es; simp)+
  then show ?thesis
    by (auto simp: Entries_def Let_def checkRaftIndex_def word_less_nat_alt word_le_nat_alt)
qed

theorem Entries_errors_witness:
  "Entries disk2 2 2 0 = Err ErrArgsIllegal \<and> Entries disk2 0 3 0 = Err ErrCompacted \<and>
   Entries disk2 1 9 0 = Err ErrOutOfBound"
  using Entries_errors [OF disk2_log, of 2 2 0] Entries_errors [OF disk2_log, of 3 0 0]
    Entries_errors [OF disk2_log, of 9 1 0]
  by simp

text \<open>C5: \<^verbatim>\<open>TruncateSuffix\<close> cuts the log: on a storage whose segments this process wrote, truncating at an
  index of the log returns without an error (no system call failing, and the purged GTID set can be
  brought up to date), and then exactly the entries before that index are left.\<close>

theorem TruncateSuffix_cuts:
  assumes "storage_holds True N s n es" "N \<le> 2 ^ 32" "k < length es" "purge_ready os s" "all_ok os"
    "TruncateSuffix os s (of_nat (n + k)) = (r, s')"
  shows "r = Ok () \<and> storage_holds True N s' n (take k es)"
proof -
  obtain u t where "TruncateSuffix os s (of_nat (n + k)) = (Ok u, t)" "storage_holds True N t n (take k es)"
    by (rule runs_total [OF TruncateSuffix_holds [OF assms(1-4)] assms(5)]) blast
  then show ?thesis using assms(6) by simp
qed

lemma empty_store_ready: "ds_Meta s = empty_store \<Longrightarrow> purge_ready os_ok s"
  by (simp add: purge_ready_def UpdatePugedGtidset_def View_def empty_store_def cursor_def)

theorem TruncateSuffix_cuts_witness:
  "storage_holds True 128 (snd (TruncateSuffix os_ok disk2 2)) 1 [entry_at 1]"
proof -
  have "ds_Meta disk2 = empty_store" by (subst disk2_holds(4)) (simp add: empty_disk_def)
  from TruncateSuffix_cuts [OF disk2_holds(2), of 1 os_ok, OF _ _ empty_store_ready [OF this]]
  show ?thesis by (cases "TruncateSuffix os_ok disk2 2") auto
qed

text \<open>C1: whatever the order of saves, truncations and steps of the purging goroutine, and whichever system
  calls fail in between, a storage that starts empty holds the log that these calls describe: saves
  append, truncations cut the end, purging drops a prefix.\<close>

theorem disk_run_refines:
  assumes "(disk_step N)\<^sup>*\<^sup>* (empty_disk, n0, []) (s, n, es)" "0 < n0" "N \<le> 2 ^ 32"
  shows "storage_holds True N s n es"
  using disk_run_holds [OF assms(1) _ assms(3)] empty_disk_holds [OF assms(2)] by simp

theorem disk_run_refines_witness:
  "storage_holds True 128 (StartPurgeLog disk2) 1 [entry_at 1, entry_at 2]"
proof -
  have "disk_step 128 (empty_disk, 1, []) (disk2, 1, [] @ [entry_at 1, entry_at 2])"
    using saveable_entries(1) disk2_holds(1) by (intro disk_step.save) simp_all
  moreover have "disk_step 128 (disk2, 1, [entry_at 1, entry_at 2]) (StartPurgeLog disk2, 1, [entry_at 1, entry_at 2])"
    by (rule disk_step.start)
  ultimately have "(disk_step 128)\<^sup>*\<^sup>* (empty_disk, 1, []) (StartPurgeLog disk2, 1, [entry_at 1, entry_at 2])"
    by simp
  then show ?thesis by (rule disk_run_refines) simp_all
qed

text \<open>C17: \<^verbatim>\<open>Term\<close> gives the term of every entry of the log.\<close>

theorem Term_of_entry:
  assumes "disk_log N s n es" "k < length es"
  shows "DiskStorage_Term s (of_nat (n + k)) = Ok (Entry.Term (es ! k))"
proof -
  obtain ess where c: "chain N n (Segments s) ess" "es = concat ess" "Segments s \<noteq> []"
    using disk_log_chain [OF assms(1)] by metis
  have "n + length (concat ess) \<le> 2 ^ 64"
    using numbered_bound [OF chain_numbered [OF c(1)]] chain_indexes(3) [OF c(1,3)] by simp
  then have "unat (of_nat (n + k) :: u64) = n + k" using assms(2) c(2) by (intro unat_of_nat_u64) simp
  moreover have "0 < n" using assms(1) by (simp add: disk_log_def storage_holds_def)
  ultimately have "(of_nat (n + k) :: u64) \<noteq> 0" by (metis add_gr_0 less_numeral_extra(3) unat_0)
  then show ?thesis
    using checkRaftIndex_chain [OF c(1), of k] assms(2) c(2) ds.read_one [OF assms]
    by (simp add: DiskStorage_Term_def del: of_nat_add)
qed

theorem Term_of_entry_witness: "DiskStorage_Term disk2 2 = Ok 1"
  using Term_of_entry [OF disk2_log, of 1] by (simp add: entry_at_def)

text \<open>C18: the term of the entry before the first one is not kept, although the comment of \<^verbatim>\<open>Storage.Term\<close>
  says that it is (and etcd raft asks for it): \<^verbatim>\<open>Term(FirstIndex()-1)\<close> is \<^verbatim>\<open>ErrCompacted\<close> as soon as
  the log starts after index 1.\<close>

theorem Term_before_first:
  assumes "disk_log N s n es" "1 < n"
  shows "DiskStorage_Term s (DiskStorage_FirstIndex s - 1) = Err ErrCompacted"
proof -
  have f: "unat (DiskStorage_FirstIndex s) = n" using assms(1) by (rule ds.first_law)
  then have "unat (DiskStorage_FirstIndex s - 1) = n - 1" using assms(2)
    by (simp add: unat_sub word_le_nat_alt)
  then show ?thesis using f assms(2)
    by (auto simp: DiskStorage_Term_def checkRaftIndex_def word_less_nat_alt word_unat_eq_iff)
qed

definition disk_from3 :: DiskStorage where
  "disk_from3 = snd (SaveRaftEntries os_ok 44 empty_disk [entry_at 3])"

lemma disk_from3_log: "disk_log 44 disk_from3 3 [entry_at 3]"
proof -
  have "saveable 44 (3 + length ([] :: Entry list)) [entry_at 3]" using saveable_entries by simp
  note save = SaveRaftEntries_holds [OF empty_disk_holds [of 3 False 44] this, of os_ok, simplified]
  obtain u t where "SaveRaftEntries os_ok 44 empty_disk [entry_at 3] = (Ok u, t)"
    "storage_holds False 44 t 3 [entry_at 3]" "settled t"
    by (rule runs_total [OF save]) auto
  then show ?thesis using entry_at_sizes(1) [of 3] unfolding disk_from3_def disk_log_def by auto
qed

theorem Term_before_first_witness:
  "DiskStorage_Term disk_from3 (DiskStorage_FirstIndex disk_from3 - 1) = Err ErrCompacted"
  using Term_before_first [OF disk_from3_log] by simp

fun get_many :: "nat \<Rightarrow> DiskStorage \<Rightarrow> DiskEntryReader \<Rightarrow> (DiskEntryReader, Entry list) res" where
  "get_many 0 s r = (Ok [], r)"
| "get_many (Suc j) s r =
     sbind (GetNext s r) (\<lambda>r. r) (\<lambda>e r. sbind (get_many j s r) (\<lambda>r. r) (\<lambda>es r. (Ok (e # es), r)))"

lemma get_many_log:
  assumes "disk_log N s n es" "k + j \<le> length es"
  shows "get_many j s \<lparr>indexReadAt = of_nat (n + k)\<rparr> = (Ok (take j (drop k es)), \<lparr>indexReadAt = of_nat (n + k + j)\<rparr>)"
  using assms(2)
proof (induction j arbitrary: k)
  case (Suc j)
  have "GetNext s \<lparr>indexReadAt = of_nat (n + k)\<rparr> = (Ok (es ! k), \<lparr>indexReadAt = of_nat (n + Suc k)\<rparr>)"
    using ds.read_one [OF assms(1), of k noLimit] Suc.prems by (simp add: GetNext_def add.commute)
  moreover have "take (Suc j) (drop k es) = es ! k # take j (drop (Suc k) es)"
    using Suc.prems by (simp add: Cons_nth_drop_Suc [symmetric])
  ultimately show ?case using Suc.IH [of "Suc k"] Suc.prems by (simp del: of_nat_add of_nat_Suc)
qed simp

text \<open>C15: an entry reader opened at an index of the log gives the entries from there on, one by one and in
  order, and its next index moves on by one with each.\<close>

theorem reader_reads_log:
  assumes "disk_log N s n es" "k < length es" "k + j \<le> length es"
  shows "\<exists>r. NewEntryReaderAt s (of_nat (n + k)) = Ok r \<and>
    (case get_many j s r of (x, r') \<Rightarrow> x = Ok (take j (drop k es)) \<and> NextRaftIndex r' = of_nat (n + k + j))"
proof -
  obtain ess where c: "chain N n (Segments s) ess" "es = concat ess" using disk_log_chain [OF assms(1)] by metis
  then have "NewEntryReaderAt s (of_nat (n + k)) = Ok \<lparr>indexReadAt = of_nat (n + k)\<rparr>"
    using checkRaftIndex_chain [OF c(1), of k] assms(2) by (simp add: NewEntryReaderAt_def del: of_nat_add)
  then show ?thesis using get_many_log [OF assms(1,3)] by (simp add: NextRaftIndex_def del: of_nat_add)
qed

theorem reader_reads_log_witness:
  "\<exists>r. NewEntryReaderAt disk2 1 = Ok r \<and> fst (get_many 2 disk2 r) = Ok [entry_at 1, entry_at 2]"
  using reader_reads_log [OF disk2_log, of 0 2] by auto

text \<open>Two segments: the third entry does not fit in the first one.\<close>

lemma two_segments:
  obtains s where "storage_holds True 44 s 1 [entry_at 1, entry_at 2, entry_at 3]" "3 \<in> FirstIndex ` set (Segments s)"
    "ds_Meta s = empty_store" "length (Segments s) = 2" "settled s"
proof -
  have "runs os_ok (SaveRaftEntries os_ok 44 empty_disk [entry_at 1, entry_at 2])
      (\<lambda>_ s'. \<exists>x. s' = empty_disk\<lparr>Segments := [x]\<rparr> \<and> Segment_at 44 x 1 [entry_at 1, entry_at 2] \<and> Status x = SegmentRDWR)"
    by (rule SaveRaftEntries_first [OF _ saveable_entries(2)]) (simp_all add: empty_disk_def)
  from this all_ok_os_ok obtain x where x: "Segment_at 44 x 1 [entry_at 1, entry_at 2]" "Status x = SegmentRDWR"
    by (rule runs_total) blast
  let ?s = "empty_disk\<lparr>Segments := [] @ [x]\<rparr>"
  have h: "storage_holds True 44 ?s 1 [entry_at 1, entry_at 2]"
    using x by (subst storage_holds_snoc [of ?s "[]" x]) (auto simp: positioned_def)
  have sv: "saveable 44 (1 + length [entry_at 1, entry_at 2]) [entry_at 3]" using saveable_entries(3) by (simp add: numeral_3_eq_3)
  obtain u t where t: "SaveRaftEntries os_ok 44 ?s [entry_at 3] = (Ok u, t)"
    "storage_holds True 44 t 1 [entry_at 1, entry_at 2, entry_at 3]" "settled t"
    by (rule runs_total [OF SaveRaftEntries_holds [OF h sv]]) auto
  have no: "\<not> Segment_at 44 y 1 [entry_at 1, entry_at 2, entry_at 3]" for y
    using entry_at_sizes(3) [of 1] entry_at_sizes(3) [of 2] entry_at_sizes(3) [of 3]
    by (auto simp: Segment_at_def Segment_holds_def segment_data_defs)
  have sg: "Segments ?s = [] @ [x]" by simp
  from runs_okD [OF SaveRaftEntries_last [OF sg x sv] t(1)]
  obtain x' y where ty: "t = ?s\<lparr>Segments := [] @ [x', y]\<rparr>" "Segment_at 44 y (1 + length [entry_at 1, entry_at 2]) [entry_at 3]"
    using no by (elim disjE exE conjE) simp_all
  have "FirstIndex y = 3" using Segment_at_first(1) [OF ty(2)] by simp
  then show thesis using ty(1) t(3) by (intro that [OF t(2)]) (simp_all add: empty_disk_def)
qed

text \<open>The same storage when its timer fires, with one segment in reserve, and after that.\<close>

lemma purging_segments:
  obtains s s1 where "storage_holds True 44 s 1 [entry_at 1, entry_at 2, entry_at 3]" "purgeStarted s" "purger s = PurgeArmed"
    "1 \<le> ReserveSegmentCount s" "purge_fire s = (Ok (), s1)" "waiting s1 \<noteq> []" "settled s1"
proof -
  obtain t where t: "storage_holds True 44 t 1 [entry_at 1, entry_at 2, entry_at 3]" "length (Segments t) = 2" "settled t"
    by (rule two_segments)
  let ?s = "t\<lparr>ReserveSegmentCount := 1, purgeStarted := True, purger := PurgeArmed\<rparr>"
  let ?s1 = "?s\<lparr>Segments := drop 1 (Segments t), purger := PurgeDelay (take 1 (Segments t))\<rparr>"
  obtain x y where xy: "Segments t = [x, y]" using t(2) by (auto simp: length_Suc_conv numeral_2_eq_2)
  show thesis
    by (rule that [of ?s ?s1])
      (use t xy in \<open>simp_all add: storage_holds_cong [of ?s t] purge_fire_def waiting_def settled_def\<close>)
qed

lemma purge_spent_step:
  assumes "disk_step N (s, n, es) (s', n', es')" "storage_holds True N s n es" "N \<le> 2 ^ 32"
    "purger s \<noteq> PurgeArmed" "purgeStarted s"
  shows "purger s' \<noteq> PurgeArmed \<and> purgeStarted s' \<and> n' = n"
  using assms(1)
proof (cases rule: disk_step.cases)
  case (save new os)
  have e: "s' = s\<lparr>Segments := Segments s'\<rparr>"
    using runs_okD [OF SaveRaftEntries_holds [OF assms(2) save(3)] save(4)] by simp
  have "purger s' = purger s" "purgeStarted s' = purgeStarted s" by (subst e, simp)+
  then show ?thesis using assms save(1) by simp
next
  case (truncate k os)
  then show ?thesis using TruncateSuffix_ok(2,3) [OF assms(2,3) truncate(3,4)] assms by simp
next
  case (delayed segs os)
  obtain r t where t: "purgeSegments os s segs = (r, t)" by fastforce
  then obtain m where "t = s\<lparr>ds_Meta := m\<rparr>" using purgeSegments_frame by blast
  then have "purgeStarted s' = purgeStarted s" "purger s' = PurgeIdle"
    using delayed(4) t by (auto simp: purge_delayed_def split: outcome.splits)
  then show ?thesis using delayed(1) assms(5) by simp
qed (use assms in \<open>auto simp: StartPurgeLog_def\<close>)

text \<open>C19: the log is purged at most once in the life of the process: the timer of \<^verbatim>\<open>StartPurgeLog\<close> is never
  armed again. When it has fired, no run of the storage comes to a state in which it is armed, and the first
  index of the log stays where that firing put it, whatever is saved.\<close>

theorem purged_at_most_once:
  assumes "storage_holds True N s n es" "N \<le> 2 ^ 32" "purgeStarted s" "purger s = PurgeArmed" "purge_fire s = (Ok (), s1)"
    and "(disk_step N)\<^sup>*\<^sup>* (s1, n + purged_entries s, drop (purged_entries s) es) (s', n', es')"
  shows "purger s' \<noteq> PurgeArmed \<and> n' = n + purged_entries s"
proof -
  have f: "purger s1 \<noteq> PurgeArmed" "purgeStarted s1"
    using assms(3,5) by (auto simp: purge_fire_def Let_def split: if_splits)
  have "storage_holds True N s' n' es' \<and> purger s' \<noteq> PurgeArmed \<and> purgeStarted s' \<and> n' = n + purged_entries s"
    using assms(6)
  proof (induction "(s', n', es')" arbitrary: s' n' es' rule: rtranclp_induct)
    case base
    then show ?case using f purge_fire_holds [OF assms(1,5)] by simp
  next
    case (step y)
    then show ?case using disk_step_holds purge_spent_step assms(2) by (metis prod.collapse)
  qed
  then show ?thesis by simp
qed

theorem purged_at_most_once_witness:
  "\<exists>s s1. purger s = PurgeArmed \<and> purge_fire s = (Ok (), s1) \<and> waiting s1 \<noteq> [] \<and> purger (StartPurgeLog s1) \<noteq> PurgeArmed"
proof -
  obtain s s1 where s: "storage_holds True 44 s 1 [entry_at 1, entry_at 2, entry_at 3]" "purgeStarted s" "purger s = PurgeArmed"
    "purge_fire s = (Ok (), s1)" "waiting s1 \<noteq> []" by (rule purging_segments)
  let ?d = "purged_entries s"
  have "(disk_step 44)\<^sup>*\<^sup>* (s1, 1 + ?d, drop ?d [entry_at 1, entry_at 2, entry_at 3])
      (StartPurgeLog s1, 1 + ?d, drop ?d [entry_at 1, entry_at 2, entry_at 3])"
    by (intro r_into_rtranclp disk_step.start)
  from purged_at_most_once [OF s(1) _ s(2,3,4) this] show ?thesis using s by auto
qed

text \<open>C4: recovery. When the process stops without \<^verbatim>\<open>Close\<close>, between two operations, opening the files it left behind
  gives a storage that holds the same log, although index entries that were still in the buffer are lost: the index
  of the last segment is rebuilt from its records. The last segment must hold an entry (\<open>settled\<close>, as after every save); opening
  an empty one panics. When the purger was waiting to remove segments, those that it has not removed (from the \<open>j\<close>-th
  on) are opened as well, and the log starts with their entries \<open>old\<close> again. (\<open>waiting_hold\<close> holds in every run of a
  storage that keeps one segment in reserve, by \<open>disk_run_waiting\<close>, and always when no removal is waiting.)\<close>

theorem reopen_after_crash:
  assumes "storage_holds own N s n es" "waiting_hold N s n" "settled s" "N \<le> 2 ^ 32" "all_ok os" "dir \<noteq> []"
    "map_of bkt NeedRecoverKey = Some (StringToBytes ''true'')"
  shows "\<exists>s' old. NewDiskStorage os N dir g True (left_behind (drop j (waiting s) @ Segments s) meta) bkt = Ok s' \<and>
    chain N (n - length (concat old)) (drop j (waiting s)) old \<and>
    storage_holds False N s' (n - length (concat old)) (concat old @ es) \<and> settled s'"
proof -
  obtain ess where c: "chain N n (Segments s) ess" "es = concat ess" "Segments s \<noteq> []"
    "list_all (\<lambda>s. Status s = SegmentReadOnly) (butlast (Segments s))" "Status (last (Segments s)) = SegmentRDWR" "0 < N"
    using storage_holds_settled [OF assms(1,3)] by metis
  obtain old where o: "chain N (n - length (concat old)) (drop j (waiting s)) old"
    "chain N (n - length (concat old)) (drop j (waiting s) @ Segments s) (old @ ess)" "0 < n - length (concat old)"
    "list_all (\<lambda>s. Status s = SegmentReadOnly) (drop j (waiting s))"
    by (rule waiting_chain [OF assms(2) c(1)])
  have f: "drop j (waiting s) @ Segments s \<noteq> []"
    "list_all (\<lambda>s. Status s = SegmentReadOnly) (butlast (drop j (waiting s) @ Segments s))"
    "Status (last (drop j (waiting s) @ Segments s)) = SegmentRDWR"
    using c(3-5) o(4) by (simp_all add: butlast_append)
  obtain s' where "NewDiskStorage os N dir g True (left_behind (drop j (waiting s) @ Segments s) meta) bkt = Ok s'"
    "storage_holds False N s' (n - length (concat old)) (concat (old @ ess))" "settled s'"
    by (rule NewDiskStorage_runs [OF o(2) f c(6) assms(4,5,6) o(3), of bkt g meta]) (use assms(7) in auto)
  then show ?thesis using o(1) c(2) by auto
qed

theorem reopen_after_crash_witness:
  "\<exists>s s' n old es. waiting s \<noteq> [] \<and> NewDiskStorage os_ok 44 ''data'' 1 True (left_behind (waiting s @ Segments s) [])
      [(NeedRecoverKey, StringToBytes ''true'')] = Ok s' \<and> settled s' \<and> chain 44 n (waiting s) old \<and>
      storage_holds False 44 s' n (concat old @ es)"
proof -
  obtain s s1 where s: "storage_holds True 44 s 1 [entry_at 1, entry_at 2, entry_at 3]" "1 \<le> ReserveSegmentCount s"
    "purge_fire s = (Ok (), s1)" "waiting s1 \<noteq> []" "settled s1" by (rule purging_segments)
  have w: "waiting_hold 44 s1 (1 + purged_entries s)" by (rule purge_fire_waiting [OF s(1,3,2)])
  show ?thesis
    using reopen_after_crash [OF purge_fire_holds [OF s(1,3)] w s(5), of os_ok "''data''" "[(NeedRecoverKey, StringToBytes ''true'')]" 1 0 "[]"] s(4)
    by (simp del: concat_append) blast
qed

text \<open>C6: round trip through \<^verbatim>\<open>Close\<close>. On a storage whose last segment holds an entry, and while no purged segments wait for
  their removal, \<^verbatim>\<open>Close\<close> returns without an error, and opening the files and the
  metadata it leaves behind gives a storage that holds the same log. The flag that asks for recovery is off then: the index files
  are complete.\<close>

theorem reopen_after_close:
  assumes "storage_holds own N s n es" "settled s" "N \<le> 2 ^ 32" "all_ok os" "dir \<noteq> []"
    "\<forall>segs. purger s \<noteq> PurgeDelay segs" "ms_open (ds_Meta s)" "ascending (ms_bucket (ds_Meta s))"
    "DiskStorage_Close os s = (r, t)"
  shows "r = Ok () \<and> map_of (ms_bucket (ds_Meta t)) NeedRecoverKey = Some (StringToBytes ''false'') \<and>
    (\<exists>s'. NewDiskStorage os N dir g True (left_behind (Segments t) meta) (ms_bucket (ds_Meta t)) = Ok s' \<and>
      storage_holds False N s' n es \<and> settled s')"
proof -
  obtain ess where c: "chain N n (Segments s) ess" "es = concat ess" "Segments s \<noteq> []" "0 < n"
    "list_all (\<lambda>s. Status s = SegmentReadOnly) (butlast (Segments s))" "Status (last (Segments s)) = SegmentRDWR" "0 < N"
    using storage_holds_settled [OF assms(1,2)] by metis
  let ?segs = "map flush (Segments s)"
  have lst: "last ?segs = flush (last (Segments s))" "butlast ?segs = map flush (butlast (Segments s))"
    using c(3) by (simp_all add: last_map map_butlast)
  obtain n' e where "Segment_at N (last (Segments s)) n' e"
    using chain_member [OF c(1) last_in_set [OF c(3)]] by metis
  then have full: "index_complete (last ?segs)" using flush_at(2) lst(1) by simp
  have f: "chain N n ?segs ess" "?segs \<noteq> []" "list_all (\<lambda>s. Status s = SegmentReadOnly) (butlast ?segs)"
    "Status (last ?segs) = SegmentRDWR"
    using chain_flush [OF c(1)] c(3,5,6) lst by (simp_all add: list_all_iff)
  obtain u t' where t': "DiskStorage_Close os s = (Ok u, t')"
    "map segment_files (Segments t') = map segment_files ?segs"
    "ms_bucket (ds_Meta t') = bucket_put NeedRecoverKey (StringToBytes ''false'') (ms_bucket (ds_Meta s))"
    by (rule runs_total [OF DiskStorage_Close_runs [OF assms(1,6,7)] assms(4)]) blast
  then have t: "r = Ok ()" "left_behind (Segments t) meta = left_behind ?segs meta"
    "map_of (ms_bucket (ds_Meta t)) NeedRecoverKey = Some (StringToBytes ''false'')"
    using assms(9) bk.lookup_put [OF assms(8)] by (simp_all add: left_behind_def)
  show ?thesis unfolding t c(2)
    by (rule NewDiskStorage_runs [OF f c(7) assms(3,4,5) c(4), of "ms_bucket (ds_Meta t)" g meta]) (use full in auto)
qed

theorem reopen_after_close_witness:
  "\<exists>s'. NewDiskStorage os_ok 128 ''data'' 1 True (left_behind (Segments (snd (DiskStorage_Close os_ok disk2))) [])
      (ms_bucket (ds_Meta (snd (DiskStorage_Close os_ok disk2)))) = Ok s' \<and> storage_holds False 128 s' 1 [entry_at 1, entry_at 2]"
proof -
  have "purger disk2 = PurgeOff" "ds_Meta disk2 = empty_store"
    by (subst disk2_holds(4), simp add: empty_disk_def)+
  then show ?thesis
    using reopen_after_close [OF disk2_holds(2,3), of os_ok "''data''" _ _ 1 "[]"]
    by (cases "DiskStorage_Close os_ok disk2") (auto simp: empty_store_def ascending_def)
qed

text \<open>C20: a truncation at the first index of a segment other than the first one leaves that segment empty, and
  then \<^verbatim>\<open>LastIndex\<close> is 0 although the log still has entries: the storage reads as if it had none until
  the next save.\<close>

theorem LastIndex_after_truncation:
  assumes "storage_holds True N s n es" "N \<le> 2 ^ 32" "0 < k" "k < length es"
    "of_nat (n + k) \<in> FirstIndex ` set (Segments s)" "TruncateSuffix os s (of_nat (n + k)) = (Ok u, s')"
  shows "storage_holds True N s' n (take k es) \<and> take k es \<noteq> [] \<and> DiskStorage_LastIndex s' = 0"
proof -
  obtain ess where ess: "log_holds N (Segments s) n ess" "positioned (Segments s) ess" "0 < n" "es = concat ess"
    using assms(1) by (auto simp: storage_holds_def)
  have kl: "k < length (concat ess)" using assms(4) ess(4) by simp
  have b: "n + k < 2 ^ 64"
    using numbered_bound [OF log_holds_numbered [OF ess(1)]] kl by (cases "concat ess = []") auto
  obtain j where j: "j < length (Segments s)" "FirstIndex (Segments s ! j) = of_nat (n + k)"
    using assms(5) by (auto simp: in_set_conv_nth)
  note at = log_holds_nth(1) [OF ess(1) j(1)]
  have u: "unat (of_nat (n + k) :: u64) = n + k" using b by (rule unat_of_nat_u64)
  have ne: "ess ! j \<noteq> []"
  proof
    assume "ess ! j = []"
    then have "of_nat (n + k) = (0 :: u64)" using at j(2) by (simp add: Segment_at_def Segment_holds_def)
    then show False using u ess(3) by simp
  qed
  have off: "length (concat (take j ess)) = k"
    using Segment_at_first(2) [OF at ne] j(2) u by simp
  moreover have "0 < length (ess ! j)" using ne by simp
  ultimately have "j = place k ess"
    using place_eq_iff [OF kl, of j] j(1) log_holds_nth(2) [OF ess(1) j(1)] by simp
  moreover have "take k es \<noteq> []" using assms(3,4) by (cases es) auto
  ultimately show ?thesis
    using TruncateSuffix_log(1,4) [OF ess(1-3) assms(2) kl assms(6)] off ess(4) by simp
qed

theorem LastIndex_after_truncation_witness:
  "\<exists>s s'. storage_holds True 44 s 1 [entry_at 1, entry_at 2, entry_at 3] \<and>
     TruncateSuffix os_ok s 3 = (Ok (), s') \<and> DiskStorage_LastIndex s' = 0"
proof -
  obtain s where s: "storage_holds True 44 s 1 [entry_at 1, entry_at 2, entry_at 3]" "3 \<in> FirstIndex ` set (Segments s)"
    "ds_Meta s = empty_store" by (rule two_segments)
  obtain u t where "TruncateSuffix os_ok s (of_nat (1 + 2)) = (Ok u, t)"
    by (rule runs_total [OF TruncateSuffix_holds [OF s(1) _ _ empty_store_ready [OF s(3)], of 2]]) auto
  then show ?thesis using LastIndex_after_truncation [OF s(1), of 2 os_ok u t] s by auto
qed

text \<open>C21: a read-only segment that was opened, not written, by this process cannot be truncated: its write
  position is 0, so that \<^verbatim>\<open>truncateSuffix\<close> at any entry but the first is \<^verbatim>\<open>ErrOutOfBound\<close>.\<close>

theorem truncate_opened_segment_fails:
  assumes "openSegment os N dir files name SegmentReadOnly b = Ok x" "Segment_holds N x es" "N \<le> 2 ^ 32"
    "0 < k" "k < length es"
  shows "fst (Segment_truncateSuffix os' x (FirstIndex x + of_nat k)) = Err ErrOutOfBound"
proof -
  have "writePosition (LogFile x) = 0"
    using assms(1) by (auto simp: openSegment_def Let_def obind_eq_Ok openMmapFile_def split: option.splits if_splits)
  moreover have "0 < length (frames (take k es))" using assms(4,5) by auto
  ultimately have "MmapFile_truncateSuffix os' (LogFile x) (length (frames (take k es))) = (Err ErrOutOfBound, LogFile x)"
    by (simp add: MmapFile_truncateSuffix_def)
  then show ?thesis using Segment_position(1) [OF assms(2,3,5)] by (simp add: Segment_truncateSuffix_def)
qed

theorem truncate_opened_segment_fails_witness:
  "\<exists>x. openSegment os_ok 128 ''data''
      [(ReadonlySegmentPattern 1 2, frames [entry_at 1, entry_at 2] @ replicate (128 - length (frames [entry_at 1, entry_at 2])) 0),
       (ReadonlyIndexPattern 1 2, index_bytes (index_of 0 [entry_at 1, entry_at 2]))]
      (ReadonlySegmentPattern 1 2) SegmentReadOnly False = Ok x \<and>
    fst (Segment_truncateSuffix os_ok x (FirstIndex x + 1)) = Err ErrOutOfBound"
proof -
  let ?es = "[entry_at 1, entry_at 2]"
  let ?files = "[(ReadonlySegmentPattern 1 2, frames ?es @ replicate (128 - length (frames ?es)) 0),
       (ReadonlyIndexPattern 1 2, index_bytes (index_of 0 ?es))]"
  have ix: "Entry.Index (entry_at i) = i" for i by (simp add: entry_at_def)
  have ne: "ReadonlyIndexPattern 1 2 \<noteq> ReadonlySegmentPattern 1 2" using pattern_suffix(1,2) by metis
  have "segment_files_hold 128 ?files (ReadonlySegmentPattern 1 2) (index_bytes (index_of 0 ?es)) ?es"
    using entry_at_sizes(1,2) [of 1] entry_at_sizes(1,2) [of 2] ne
    by (simp add: segment_files_hold_def ix)
  then have "runs os_ok (openSegment os_ok 128 ''data'' ?files (ReadonlySegmentPattern 1 2) SegmentReadOnly False, ())
      (\<lambda>s x'. Segment_holds 128 s ?es)"
    by (rule runs_mono [OF openSegment_readonly]) (simp_all only: ix list.sel last.simps list.distinct if_False if_True simp_thms)
  from this all_ok_os_ok obtain x y where
    "(openSegment os_ok 128 ''data'' ?files (ReadonlySegmentPattern 1 2) SegmentReadOnly False, ()) = (Ok x, y)"
    and h: "Segment_holds 128 x ?es" by (rule runs_total)
  then have x: "openSegment os_ok 128 ''data'' ?files (ReadonlySegmentPattern 1 2) SegmentReadOnly False = Ok x" by (simp only: prod.inject)
  have "fst (Segment_truncateSuffix os_ok x (FirstIndex x + of_nat 1)) = Err ErrOutOfBound"
    by (rule truncate_opened_segment_fails [OF x h]) simp_all
  then show ?thesis using x by (intro exI [of _ x] conjI) (simp_all only: of_nat_1)
qed

end
