(* ===== verification/Apply_Properties.thy ===== *)
theory Apply_Properties
  imports Server_Apply
begin

text \<open>
  What applying the log achieves: the properties of \<^verbatim>\<open>src/server/apply.go\<close> and \<^verbatim>\<open>src/server/binlog_progress.go\<close> together.
\<close>

section \<open>GTID sets that can be stored\<close>

definition gtids_int64 :: "MysqlGTIDSet \<Rightarrow> bool" where
  "gtids_int64 s \<longleftrightarrow> (\<forall>(k, u)\<in>set s. list_all (\<lambda>i. int64 (Start i) \<and> int64 (Stop i)) (Intervals u))"

abbreviation interval_int64 :: "Interval \<Rightarrow> bool" where
  "interval_int64 i \<equiv> int64 (Start i) \<and> int64 (Stop i)"

lemma wrap64_int64: "int64 (wrap64 i)"
  unfolding int64_def wrap64_def using signed_take_bit_int_greater_eq_minus_exp [of 63 i] signed_take_bit_int_less_exp [of 63 i]
  by simp

lemma ParseInt_int64: "int64 (fst (ParseInt s))"
  by (auto simp: ParseInt_def int64_def Let_def split: list.splits if_splits prod.splits)

lemma parseInterval_int64: "parseInterval s = Some i \<Longrightarrow> interval_int64 i"
  using wrap64_int64 ParseInt_int64
  by (auto simp: parseInterval_def Let_def split: list.splits if_splits prod.splits) (metis fst_conv)+

lemma parseIntervals_int64: "parseIntervals ps = Some is \<Longrightarrow> list_all interval_int64 is"
  by (induction ps arbitrary: "is") (auto dest: parseInterval_int64 split: option.splits)

lemma normalize_loop_int64:
  "interval_int64 l \<Longrightarrow> list_all interval_int64 s \<Longrightarrow> list_all interval_int64 (normalize_loop l s)"
  by (induction l s rule: normalize_loop.induct) auto

lemma Normalize_int64: "list_all interval_int64 s \<Longrightarrow> list_all interval_int64 (Normalize s)"
proof -
  assume "list_all interval_int64 s"
  then have "list_all interval_int64 (sort s)" by (simp add: list_all_iff)
  then show ?thesis using normalize_loop_int64 by (cases "sort s") (simp_all add: Normalize_def)
qed

lemma GTIDSet_Update_int64:
  assumes "gtids_int64 s" "GTIDSet_Update s str = Some s'"
  shows "gtids_int64 s'"
proof -
  obtain u where u: "ParseUUIDSet str = Some u" "s' = AddSet s u" using assms(2) by (auto simp: GTIDSet_Update_def)
  then have "list_all interval_int64 (Intervals u)"
    using parseIntervals_int64 Normalize_int64
    by (auto simp: ParseUUIDSet_def simp del: parseIntervals.simps split: list.splits option.splits)
  then show ?thesis
    using assms(1) u(2) Normalize_int64 unfolding gtids_int64_def
    by (fastforce simp: AddSet_def AddInterval_def Let_def split: option.splits if_splits dest: map_of_SomeD)
qed

text \<open>A set that fits into a value of the store is read back as it is.\<close>

lemma UUIDSet_encode_length: "length (UUIDSet_encode u) = length (SID u) + 8 + 16 * length (Intervals u)"
  by (simp add: UUIDSet_encode_def length_concat comp_def sum_list_triv)

lemma Encode_length_member:
  "(k, u) \<in> set s \<Longrightarrow> length (UUIDSet_encode u) \<le> length (concat (map (\<lambda>(_, u). UUIDSet_encode u) s))"
  by (induction s) auto

lemma Encode_length_count:
  "8 * length s \<le> length (concat (map (\<lambda>(_, u). UUIDSet_encode u) s))"
  by (induction s) (auto simp: UUIDSet_encode_length)

lemma small_storable:
  assumes "length (GTIDSet_Encode s) \<le> 2 ^ 31" "wf_gtids s" "gtids_int64 s"
  shows "DecodeMysqlGTIDSet (GTIDSet_Encode s) = Ok s"
proof -
  let ?c = "concat (map (\<lambda>(_, u). UUIDSet_encode u) s)"
  have len: "length ?c \<le> 2 ^ 31" using assms(1) by (simp add: GTIDSet_Encode_def)
  have "UUIDSet_storable u" if u: "(k, u) \<in> set s" for k u
  proof -
    have "16 * length (Intervals u) \<le> 2 ^ 31"
      using Encode_length_member [OF u] len by (simp add: UUIDSet_encode_length)
    then show ?thesis using u assms(2,3) wf_gtidsD(2) [OF assms(2) u]
      by (auto simp: UUIDSet_storable_def gtids_int64_def)
  qed
  moreover have "length s < 2 ^ 63" using Encode_length_count [of s] len by simp
  ultimately have "gtids_storable s" using assms(2) by (auto simp: gtids_storable_def wf_gtids_def)
  then show ?thesis by (rule DecodeMysqlGTIDSet_Encode)
qed

section \<open>The stored progress\<close>

text \<open>The applied index and the executed GTIDs that a store holds.\<close>

definition holds_progress :: "MetaStore \<Rightarrow> u64 \<Rightarrow> MysqlGTIDSet \<Rightarrow> bool" where
  "holds_progress st i gs \<longleftrightarrow>
     (case map_of (ms_bucket st) AppliedIndexKey of None \<Rightarrow> i = 0 | Some v \<Rightarrow> v = be64 i) \<and>
     (case map_of (ms_bucket st) ExecutedKey of None \<Rightarrow> gs = [] | Some v \<Rightarrow> DecodeMysqlGTIDSet v = Ok gs) \<and> wf_gtids gs"

lemma holds_progress_keeps: "keeps progress_keys st st' \<Longrightarrow> holds_progress st i gs \<Longrightarrow> holds_progress st' i gs"
  by (simp add: keeps_def holds_progress_def)

lemma Put_length: "Put k v b = Ok b' \<Longrightarrow> length v \<le> 2 ^ 31"
  by (auto simp: Put_def split: if_splits)

lemma SetBinlogProgress_holds:
  assumes "SetBinlogProgress os st i g = (Ok (), st')" "ascending (ms_bucket st)" "wf_gtids g" "gtids_int64 g"
  shows "holds_progress st' i g"
proof -
  have "length (GTIDSet_Encode g) \<le> 2 ^ 31"
    using Update_cases [of os st _ "Ok ()" st'] assms(1) Put_length
    by (fastforce simp: SetBinlogProgress_def Let_def obind_eq_Ok)
  then show ?thesis
    using SetBinlogProgress_stores(4) [OF assms(2,1)] small_storable [OF _ assms(3,4)] assms(3) executed_key
    by (simp add: holds_progress_def)
qed

lemma SetGtidSet_holds:
  assumes "SetGtidSet os st MySQLFlavor ExecutedGtidSetKey g = (Ok (), st')" "ascending (ms_bucket st)" "wf_gtids g" "gtids_int64 g"
    and "holds_progress st i gs"
  shows "holds_progress st' i g"
proof -
  have s: "Set os st ExecutedKey (GTIDSet_Encode g) = (Ok (), st')" using assms(1) by (simp add: SetGtidSet_def)
  then have "length (GTIDSet_Encode g) \<le> 2 ^ 31"
    using Update_cases [of os st _ "Ok ()" st'] Put_length by (fastforce simp: Set_def)
  then show ?thesis
    using Set_stores(4) [OF assms(2) s] small_storable [OF _ assms(3,4)] assms(3,5) executed_key
    by (simp add: holds_progress_def)
qed

lemma restart_reads:
  assumes "holds_progress st i gs" "newBinlogProgress os st = Ok q"
  shows "executedGtidSet q = gs" "progress_ok q" "trxBoundaryParser q = EventParserNone" "open_gtid q = {}"
    "MustGetAppliedIndex os st = Ok i"
proof -
  have o: "ms_open st" "os SysRead MetadataFile"
    using assms(2) by (auto simp: newBinlogProgress_def GetGtidSet_def Get_def View_def obind_eq_Ok split: if_splits)
  then show gs: "executedGtidSet q = gs"
    using assms executed_key
    by (auto simp: newBinlogProgress_def GetGtidSet_def Get_def View_def obind_eq_Ok holds_progress_def split: option.splits)
  then have "wf_gtids (executedGtidSet q)" using assms(1) by (simp add: holds_progress_def)
  from newBinlogProgress_reads [OF assms(2) this]
  show "progress_ok q" "trxBoundaryParser q = EventParserNone" "open_gtid q = {}" by simp_all
  have "be64 i \<noteq> []" using length_le(4) [of i] by (metis list.size(3) zero_neq_numeral)
  then show "MustGetAppliedIndex os st = Ok i"
    using assms(1) o executed_key get_be64_be64 [of i "[]"]
    by (auto simp: MustGetAppliedIndex_def Get_def View_def holds_progress_def split: option.splits)
qed

text \<open>The invariant of the progress, with numbers that Go's integers hold.\<close>

definition progress_inv :: "BinlogProgress \<Rightarrow> bool" where
  "progress_inv p \<longleftrightarrow> progress_ok p \<and> gtids_int64 (executedGtidSet p)"

lemma updateProcess_inv:
  assumes "updateProcess os c i data (p, st) = (Ok (), (p', st'))" "progress_inv p"
  shows "progress_inv p'" "executed p \<subseteq> executed p'"
proof -
  obtain h t where u: "updateBoundary os c i t (p\<lparr>lastFilePosition := LogPos h\<rparr>, st) = (Ok (), (p', st'))"
    and "event_boundary data = Some (h, t)"
    using assms(1) unfolding updateProcess_boundary by blast
  obtain q err where q: "UpdateState (trxBoundaryParser p) t = (q, err)" by fastforce
  have ok: "progress_ok (p\<lparr>lastFilePosition := LogPos h\<rparr>)" using assms(2) by (simp add: progress_inv_def)
  have e: "progress_ok p'" "executed p \<subseteq> executed p'"
    using updateBoundary_effect [OF u ok, of q err] q by auto
  have "executedGtidSet p' = executedGtidSet p \<or>
      GTIDSet_Update (executedGtidSet p) (currentGtid p) = Some (executedGtidSet p')"
    using u q by (cases err) (auto simp: updateBoundary_def addCurrentGtid_def Let_def sbind_eq_Ok split: if_splits option.splits)
  then have "gtids_int64 (executedGtidSet p')" using GTIDSet_Update_int64 assms(2) by (auto simp: progress_inv_def)
  then show "progress_inv p'" "executed p \<subseteq> executed p'" using e by (simp_all add: progress_inv_def)
qed

lemma reset_inv:
  assumes "BinlogProgress_reset os gs (p, st) = (Ok (), (p', st'))" "progress_inv p"
  shows "progress_inv p'" "executed p \<subseteq> executed p'"
proof -
  have ok: "progress_ok p" using assms(2) by (simp add: progress_inv_def)
  have "executedGtidSet p' = executedGtidSet p \<or> GTIDSet_Update (executedGtidSet p) gs = Some (executedGtidSet p')"
  proof (cases "gs = []")
    case True
    then show ?thesis using assms(1) by (auto simp: BinlogProgress_reset_def Let_def)
  next
    case False
    then obtain g where "GTIDSet_Update (executedGtidSet p) gs = Some g"
      using assms by (cases "GTIDSet_Update (executedGtidSet p) gs") (simp_all add: BinlogProgress_reset_def Let_def)
    then show ?thesis using assms False by (auto simp: BinlogProgress_reset_def Let_def sbind_eq_Ok)
  qed
  then have "gtids_int64 (executedGtidSet p')" using GTIDSet_Update_int64 assms(2) by (auto simp: progress_inv_def)
  then show "progress_inv p'" "executed p \<subseteq> executed p'"
    using reset_effect [OF assms(1) ok] by (auto simp: progress_inv_def)
qed

text \<open>
  The envelope of an event says the type that its header says; the syncer makes it from the header.
\<close>

definition consistent :: "Entry \<Rightarrow> bool" where
  "consistent e \<longleftrightarrow>
     (case event_of e of
        None \<Rightarrow> True
      | Some ev \<Rightarrow>
          first_part ev \<longrightarrow> (case event_boundary (ev_bytes ev) of None \<Rightarrow> True | Some (h, _) \<Rightarrow> ev_type ev = h_EventType h))"

lemma event_progress_inv: "progress_inv p \<Longrightarrow> progress_inv (event_progress d t p)" "executed (event_progress d t p) = executed p"
  "trxBoundaryParser (event_progress d t p) = trxBoundaryParser p" "executedGtidSet (event_progress d t p) = executedGtidSet p"
  "t \<noteq> GTID_EVENT \<Longrightarrow> open_gtid (event_progress d t p) = open_gtid p"
  by (simp_all add: event_progress_def progress_inv_def progress_ok_def executed_def open_gtid_def)

lemma event_boundary_gtid:
  "event_boundary d = Some (h, t) \<Longrightarrow> h_EventType h = GTID_EVENT \<Longrightarrow> t = EventBoundaryTypeGtid"
  by (auto simp: event_boundary_def GetEventBoundaryType_def Let_def split: outcome.splits if_splits)

text \<open>The end of a transaction is stored only by events that do not start one.\<close>

lemma stored_not_gtid:
  assumes "updateProcess os c i d (p, st) = (Ok (), (p', st'))" "st' \<noteq> st" "event_boundary d = Some (h, t)"
  shows "h_EventType h \<noteq> GTID_EVENT"
proof
  assume "h_EventType h = GTID_EVENT"
  then have t: "t = EventBoundaryTypeGtid" using event_boundary_gtid [OF assms(3)] by simp
  have "updateBoundary os c i t (p\<lparr>lastFilePosition := LogPos h\<rparr>, st) = (Ok (), (p', st'))"
    using assms(1,3) unfolding updateProcess_boundary by auto
  then have "st' = st" using t by (auto simp: updateBoundary_def addCurrentGtid_def IsNotInsideTransaction_def split: if_splits)
  then show False using assms(2) by simp
qed

lemma binlog_step:
  assumes "applyMySQLBinlogEvent env e s = (Ok (), s')" "ascending (ms_bucket (store s))" "progress_inv (binlogProgress s)"
    and "consistent e" "holds_progress (store s) i gs"
  shows "progress_inv (binlogProgress s') \<and> executed (binlogProgress s) \<subseteq> executed (binlogProgress s') \<and>
    (holds_progress (store s') i gs \<or>
     holds_progress (store s') (Index e) (executedGtidSet (binlogProgress s')) \<and>
       trxBoundaryParser (binlogProgress s') = EventParserNone \<and> open_gtid (binlogProgress s') = {})"
proof -
  obtain ev p st where ev: "event_of e = Some ev" and u: "if first_part ev
     then updateProcess (env_os env) (clock env (Index e)) (Index e) (ev_bytes ev) (binlogProgress s, store s) = (Ok (), (p, st))
     else p = binlogProgress s \<and> st = store s" and s': "binlogProgress s' = event_progress (ev_bytes ev) (ev_type ev) p"
    and k: "keeps state_keys st (store s')"
    by (rule applyMySQLBinlogEvent_effect [OF assms(1,2)])
  have k': "keeps progress_keys st (store s')" by (rule progress_keys_subset [OF k])
  have inv: "progress_inv p \<and> executed (binlogProgress s) \<subseteq> executed p"
    using u updateProcess_inv [of "env_os env" _ _ _ "binlogProgress s" "store s" p st] assms(3) by (cases "first_part ev") auto
  show ?thesis
  proof (cases "st = store s")
    case True
    then show ?thesis using inv s' event_progress_inv holds_progress_keeps [OF k'] assms(5) by simp
  next
    case False
    then have u: "first_part ev" "updateProcess (env_os env) (clock env (Index e)) (Index e) (ev_bytes ev) (binlogProgress s, store s) = (Ok (), (p, st))"
      using u by (auto split: if_splits)
    obtain h t where h: "event_boundary (ev_bytes ev) = Some (h, t)" using u(2) unfolding updateProcess_boundary by blast
    have "ev_type ev \<noteq> GTID_EVENT"
      using stored_not_gtid [OF u(2) False h] assms(4) ev u(1) h by (simp add: consistent_def)
    moreover have "holds_progress st (Index e) (executedGtidSet p)" "trxBoundaryParser p = EventParserNone" "open_gtid p = {}"
      using updateProcess_store [OF u(2)] False SetBinlogProgress_holds [OF _ assms(2)] inv
      by (auto simp: progress_inv_def open_gtid_def dest: progress_okD(1))
    ultimately show ?thesis using inv s' event_progress_inv holds_progress_keeps [OF k'] by simp
  qed
qed

lemma purged_step:
  assumes "applyMasterGtidPurged env e s = (Ok (), s')" "ascending (ms_bucket (store s))" "progress_inv (binlogProgress s)"
    and "holds_progress (store s) i gs"
  shows "progress_inv (binlogProgress s') \<and> executed (binlogProgress s) \<subseteq> executed (binlogProgress s') \<and>
    (holds_progress (store s') i gs \<or> holds_progress (store s') i (executedGtidSet (binlogProgress s')))"
proof -
  obtain g st where k: "keeps state_keys (store s) st"
    and r: "BinlogProgress_reset (env_os env) g (binlogProgress s, st) = (Ok (), (binlogProgress s', store s'))"
    by (rule applyMasterGtidPurged_effect [OF assms(1,2)])
  have h: "holds_progress st i gs" by (rule holds_progress_keeps [OF progress_keys_subset [OF k] assms(4)])
  note inv = reset_inv [OF r assms(3)]
  have "wf_gtids (executedGtidSet (binlogProgress s'))" "gtids_int64 (executedGtidSet (binlogProgress s'))"
    using inv(1) by (auto simp: progress_inv_def dest: progress_okD(1))
  then show ?thesis using reset_store [OF r] SetGtidSet_holds [OF _ keepsD(1) [OF k] _ _ h] inv h by metis
qed

lemma entry_step:
  assumes "apply_entry env e s = (Ok b, s')" "ascending (ms_bucket (store s))" "progress_inv (binlogProgress s)"
    and "consistent e" "holds_progress (store s) i gs"
  shows "progress_inv (binlogProgress s') \<and> executed (binlogProgress s) \<subseteq> executed (binlogProgress s') \<and> appliedIndex s' = Index e \<and>
    (holds_progress (store s') i gs \<or> holds_progress (store s') i (executedGtidSet (binlogProgress s')) \<or>
     holds_progress (store s') (Index e) (executedGtidSet (binlogProgress s')) \<and>
       trxBoundaryParser (binlogProgress s') = EventParserNone \<and> open_gtid (binlogProgress s') = {})"
proof -
  have i: "appliedIndex s' = Index e"
    using assms(1) by (auto simp: apply_entry_def sbind_eq_Ok fatal_eq_Ok applied_def Let_def split: if_splits)
  consider "entry_kind e = Some MySQLBinlogEventType" | "entry_kind e = Some MasterGtidPurgedType"
    | "entry_kind e \<noteq> Some MySQLBinlogEventType" "entry_kind e \<noteq> Some MasterGtidPurgedType" by blast
  then show ?thesis
  proof cases
    case 1
    obtain s1 where "applyMySQLBinlogEvent env e s = (Ok (), s1)" "s' = applied e (s1\<lparr>broadcasts := broadcasts s1 + 1\<rparr>)"
      by (rule apply_binlog [OF assms(1) 1])
    then show ?thesis using binlog_step [OF _ assms(2-5)] i by (auto simp: applied_def)
  next
    case 2
    obtain s1 where "applyMasterGtidPurged env e s = (Ok (), s1)" "s' = applied e s1" by (rule apply_purged [OF assms(1) 2])
    then show ?thesis using purged_step [OF _ assms(2,3,5)] i by (auto simp: applied_def)
  next
    case 3
    show ?thesis using apply_other [OF assms(1,2) 3] holds_progress_keeps [OF _ assms(5)] assms(3) i by auto
  qed
qed

section \<open>Restarting\<close>

lemma apply_loop_append:
  "apply_loop env x (a @ b) s = sbind (apply_loop env x a s) (\<lambda>s. s) (\<lambda>y s. apply_loop env y b s)"
proof (induction a arbitrary: x s)
  case (Cons e a)
  obtain r t where "apply_entry env e s = (r, t)" by fastforce
  then show ?case using Cons.IH by (cases r) simp_all
qed simp

lemma apply_loop_snoc:
  "apply_loop env x (es @ [e]) s = (Ok b, s') \<longleftrightarrow>
     (\<exists>y z t. apply_loop env x es s = (Ok y, t) \<and> apply_entry env e t = (Ok z, s') \<and> b = (y \<or> z))"
  by (auto simp: apply_loop_append sbind_eq_Ok)

text \<open>
  \<open>checkpoint env s0 es s\<close>: of the entries \<open>es\<close> that led from \<open>s0\<close> to \<open>s\<close>, the store of \<open>s\<close> holds the progress after a
  prefix, outside of a transaction; it may have executed transactions of the rest already.
\<close>

definition checkpoint :: "server_env \<Rightarrow> KingbusServer \<Rightarrow> Entry list \<Rightarrow> KingbusServer \<Rightarrow> bool" where
  "checkpoint env s0 es s \<longleftrightarrow>
     (\<exists>d1 d2 x y t gs. es = d1 @ d2 \<and> apply_loop env False d1 s0 = (Ok x, t) \<and> apply_loop env x d2 t = (Ok y, s) \<and>
        ascending (ms_bucket (store t)) \<and> progress_inv (binlogProgress t) \<and>
        holds_progress (store s) (appliedIndex t) gs \<and> trxBoundaryParser (binlogProgress t) = EventParserNone \<and>
        open_gtid (binlogProgress t) = {} \<and> executed (binlogProgress t) \<subseteq> gtids gs \<and> gtids gs \<subseteq> executed (binlogProgress s))"

lemma checkpointI:
  assumes "es = d1 @ d2" "apply_loop env False d1 s0 = (Ok x, t)" "apply_loop env x d2 t = (Ok y, s)"
    "ascending (ms_bucket (store t))" "progress_inv (binlogProgress t)" "holds_progress (store s) (appliedIndex t) gs"
    "trxBoundaryParser (binlogProgress t) = EventParserNone" "open_gtid (binlogProgress t) = {}"
    "executed (binlogProgress t) \<subseteq> gtids gs" "gtids gs \<subseteq> executed (binlogProgress s)"
  shows "checkpoint env s0 es s"
  unfolding checkpoint_def using assms by blast

lemma checkpointE:
  assumes "checkpoint env s0 es s"
  obtains d1 d2 x y t gs where "es = d1 @ d2" "apply_loop env False d1 s0 = (Ok x, t)" "apply_loop env x d2 t = (Ok y, s)"
    "ascending (ms_bucket (store t))" "progress_inv (binlogProgress t)" "holds_progress (store s) (appliedIndex t) gs"
    "trxBoundaryParser (binlogProgress t) = EventParserNone" "open_gtid (binlogProgress t) = {}"
    "executed (binlogProgress t) \<subseteq> gtids gs" "gtids gs \<subseteq> executed (binlogProgress s)"
  using assms unfolding checkpoint_def by (elim exE conjE) (rule that)

text \<open>A server that has just started: its progress and applied index are those of its store.\<close>

definition just_started :: "KingbusServer \<Rightarrow> bool" where
  "just_started s \<longleftrightarrow>
     ascending (ms_bucket (store s)) \<and> progress_inv (binlogProgress s) \<and>
     holds_progress (store s) (appliedIndex s) (executedGtidSet (binlogProgress s)) \<and>
     trxBoundaryParser (binlogProgress s) = EventParserNone \<and> open_gtid (binlogProgress s) = {}"

lemma just_started_checkpoint: "just_started s \<Longrightarrow> checkpoint env s [] s"
  by (auto simp: just_started_def checkpoint_def executed_def)

lemma run_checkpoint:
  assumes "apply_loop env False es s0 = (Ok b, s)" "just_started s0" "list_all consistent es"
  shows "checkpoint env s0 es s \<and> ascending (ms_bucket (store s)) \<and> progress_inv (binlogProgress s)"
  using assms
proof (induction es arbitrary: b s rule: rev_induct)
  case Nil
  then show ?case using just_started_checkpoint by (auto simp: just_started_def)
next
  case (snoc e es)
  obtain y z u where u: "apply_loop env False es s0 = (Ok y, u)" "apply_entry env e u = (Ok z, s)" "b = (y \<or> z)"
    using snoc.prems(1) unfolding apply_loop_snoc by blast
  have IH: "checkpoint env s0 es u" "ascending (ms_bucket (store u))" "progress_inv (binlogProgress u)"
    using snoc.IH [OF u(1)] snoc.prems by auto
  obtain d1 d2 x y' t gs where c: "es = d1 @ d2" "apply_loop env False d1 s0 = (Ok x, t)" "apply_loop env x d2 t = (Ok y', u)"
    "ascending (ms_bucket (store t))" "progress_inv (binlogProgress t)" and h: "holds_progress (store u) (appliedIndex t) gs"
    and c': "trxBoundaryParser (binlogProgress t) = EventParserNone" "open_gtid (binlogProgress t) = {}"
    "executed (binlogProgress t) \<subseteq> gtids gs" "gtids gs \<subseteq> executed (binlogProgress u)"
    by (rule checkpointE [OF IH(1)])
  have "consistent e" using snoc.prems(3) by simp
  note step = entry_step [OF u(2) IH(2,3) this h]
  have asc: "ascending (ms_bucket (store s))" by (rule apply_entry_ascending [OF u(2) IH(2)])
  have t: "apply_loop env x (d2 @ [e]) t = (Ok (y' \<or> z), s)" using c(3) u(2) unfolding apply_loop_snoc by blast
  have sub: "executed (binlogProgress t) \<subseteq> executed (binlogProgress s)" "gtids gs \<subseteq> executed (binlogProgress s)"
    "executed (binlogProgress t) \<subseteq> gtids gs"
    using subset_trans [OF c'(4) conjunct1 [OF conjunct2 [OF step]]] c'(3) by (blast, simp_all)
  have es: "es @ [e] = d1 @ d2 @ [e]" using c(1) by simp
  note keep = checkpointI [OF es c(2) t c(4,5) _ c'(1,2)]
  from step consider "holds_progress (store s) (appliedIndex t) gs"
    | "holds_progress (store s) (appliedIndex t) (executedGtidSet (binlogProgress s))"
    | "holds_progress (store s) (appliedIndex s) (executedGtidSet (binlogProgress s))"
      "trxBoundaryParser (binlogProgress s) = EventParserNone" "open_gtid (binlogProgress s) = {}" by metis
  then have "checkpoint env s0 (es @ [e]) s"
  proof cases
    case 1
    then show ?thesis by (rule keep) (fact sub)+
  next
    case 2
    then show ?thesis by (rule keep) (use sub(1) in \<open>simp_all add: executed_def\<close>)
  next
    case 3
    show ?thesis
      by (rule checkpointI [OF _ snoc.prems(1) apply_loop.simps(1) asc _ 3]) (use step in \<open>simp_all add: executed_def\<close>)
  qed
  then show ?case using asc step by blast
qed

text \<open>The entries of the log from an index on.\<close>

definition follows :: "u64 \<Rightarrow> Entry list \<Rightarrow> bool" where
  "follows i es \<longleftrightarrow> unat i + length es < 2 ^ 64 \<and> (\<forall>k<length es. unat (Index (es ! k)) = unat i + k + 1)"

lemma follows_append:
  assumes "follows i (d1 @ d2)"
  shows "follows i d1" "e \<in> set d1 \<Longrightarrow> unat (Index e) \<le> unat i + length d1" "e \<in> set d2 \<Longrightarrow> unat i + length d1 < unat (Index e)"
proof -
  have n: "unat (Index ((d1 @ d2) ! k)) = unat i + k + 1" if "k < length d1 + length d2" for k
    using assms that by (simp add: follows_def)
  have 1: "unat (Index (d1 ! k)) = unat i + k + 1" if "k < length d1" for k using n [of k] that by (simp add: nth_append)
  have 2: "unat (Index (d2 ! k)) = unat i + length d1 + k + 1" if "k < length d2" for k
    using n [of "length d1 + k"] that by (simp add: nth_append)
  show "follows i d1" using assms 1 by (simp add: follows_def)
  show "e \<in> set d1 \<Longrightarrow> unat (Index e) \<le> unat i + length d1" using 1 by (force simp: in_set_conv_nth)
  show "e \<in> set d2 \<Longrightarrow> unat i + length d1 < unat (Index e)" using 2 by (force simp: in_set_conv_nth)
qed

lemma apply_loop_index:
  assumes "apply_loop env x es s = (Ok b, s')" "follows (appliedIndex s) es"
  shows "unat (appliedIndex s') = unat (appliedIndex s) + length es"
proof (cases es rule: rev_cases)
  case Nil
  then show ?thesis using assms(1) by simp
next
  case (snoc fs e)
  then obtain y z t where "apply_entry env e t = (Ok z, s')" using assms(1) unfolding snoc apply_loop_snoc by blast
  then have "appliedIndex s' = Index e"
    by (auto simp: apply_entry_def sbind_eq_Ok fatal_eq_Ok applied_def Let_def split: if_splits)
  moreover have "es ! length fs = e" "length es = Suc (length fs)" using snoc by simp_all
  ultimately show ?thesis using assms(2) by (auto simp: follows_def)
qed

text \<open>C7: a restart loses nothing: a server applies entries and stops at any moment, keeping only its store. When it starts
  again, reads its progress and applied index from the store and applies the entries after that index again, it
  comes back to the executed GTIDs it had, and to the same place in the stream of transactions.\<close>

theorem restart_recovers_progress:
  assumes "just_started s0" "apply_entries env es s0 = (Ok b, s)" "follows (appliedIndex s0) es" "list_all consistent es"
    and "store r = store s" "newBinlogProgress os (store s) = Ok (binlogProgress r)" "MustGetAppliedIndex os (store s) = Ok (appliedIndex r)"
    and "apply_entries env' (filter (\<lambda>e. appliedIndex r < Index e) es) r = (Ok c, r')"
    and "unmarshal_gtid_purged env' = unmarshal_gtid_purged env"
  shows "executed (binlogProgress r') = executed (binlogProgress s) \<and>
    trxBoundaryParser (binlogProgress r') = trxBoundaryParser (binlogProgress s)"
proof -
  have run: "apply_loop env False es s0 = (Ok b, s)" using assms(2) by (simp add: apply_entries_def)
  note cp = run_checkpoint [OF run assms(1,4)]
  obtain d1 d2 x y t gs where es: "es = d1 @ d2" and t: "apply_loop env False d1 s0 = (Ok x, t)" "apply_loop env x d2 t = (Ok y, s)"
    "ascending (ms_bucket (store t))" "progress_inv (binlogProgress t)" and h: "holds_progress (store s) (appliedIndex t) gs"
    and t': "trxBoundaryParser (binlogProgress t) = EventParserNone" "open_gtid (binlogProgress t) = {}"
    "executed (binlogProgress t) \<subseteq> gtids gs" "gtids gs \<subseteq> executed (binlogProgress s)"
    by (rule checkpointE [OF conjunct1 [OF cp]])
  note q = restart_reads [OF h assms(6)]
  have i: "appliedIndex r = appliedIndex t" using q(5) assms(7) by simp
  note f = follows_append [OF assms(3) [unfolded es]]
  have "unat (appliedIndex t) = unat (appliedIndex s0) + length d1" by (rule apply_loop_index [OF t(1) f(1)])
  then have "filter (\<lambda>e. appliedIndex r < Index e) es = d2"
    using f(2,3) unfolding es i by (auto simp: word_less_nat_alt filter_empty_conv filter_id_conv not_less)
  then have r: "apply_loop env' False d2 r = (Ok c, r')" using assms(8) by (simp add: apply_entries_def)
  have ag: "agrees (gtids gs) (binlogProgress t) (binlogProgress r)"
    using t(4) t' q by (auto simp: agrees_def progress_inv_def executed_def)
  have "agrees (gtids gs) (binlogProgress s) (binlogProgress r')"
    by (rule apply_loop_agrees [OF t(2,3) r _ ag assms(9)]) (use cp assms(5) in simp)
  then show ?thesis using t'(4) by (auto simp: agrees_def)
qed

section \<open>Transactions\<close>

text \<open>The entry \<open>e\<close> carries the event with the bytes \<open>d\<close>, the header \<open>h\<close> and the boundary type \<open>t\<close>.\<close>

definition carries :: "Entry \<Rightarrow> bytes \<times> EventHeader \<times> EventBoundaryType \<Rightarrow> bool" where
  "carries e = (\<lambda>(d, h, t).
     entry_kind e = Some MySQLBinlogEventType \<and> event_boundary d = Some (h, t) \<and>
     (case event_of e of None \<Rightarrow> False | Some ev \<Rightarrow> first_part ev \<and> ev_bytes ev = d \<and> ev_type ev = h_EventType h))"

lemma event_entry_effect:
  assumes "apply_entry env e s = (Ok b, s')" "ascending (ms_bucket (store s))" "progress_ok (binlogProgress s)"
    and "carries e (d, h, t)" "UpdateState (trxBoundaryParser (binlogProgress s)) t = (q, err)"
  shows "progress_ok (binlogProgress s')" "trxBoundaryParser (binlogProgress s') = (if err then EventParserNone else q)"
    "executed (binlogProgress s') = executed (binlogProgress s) \<union> (if \<not> err \<and> q = EventParserNone then open_gtid (binlogProgress s) else {})"
    "h_EventType h \<noteq> GTID_EVENT \<Longrightarrow>
       open_gtid (binlogProgress s') = (if err \<or> q = EventParserNone then {} else open_gtid (binlogProgress s))"
    "h_EventType h = GTID_EVENT \<Longrightarrow>
       executed (binlogProgress s') \<union> open_gtid (binlogProgress s') = executed (binlogProgress s') \<union> gtid_of (gtid_text d)"
proof -
  obtain ev where ev: "event_of e = Some ev" "first_part ev" "ev_bytes ev = d" "ev_type ev = h_EventType h"
    and k: "entry_kind e = Some MySQLBinlogEventType" and bd: "event_boundary d = Some (h, t)"
    using assms(4) by (auto simp: carries_def split: option.splits)
  obtain s1 where s1: "applyMySQLBinlogEvent env e s = (Ok (), s1)" "s' = applied e (s1\<lparr>broadcasts := broadcasts s1 + 1\<rparr>)"
    by (rule apply_binlog [OF assms(1) k])
  obtain p st where u: "updateProcess (env_os env) (clock env (Index e)) (Index e) d (binlogProgress s, store s) = (Ok (), (p, st))"
    and p: "binlogProgress s1 = event_progress d (h_EventType h) p"
    by (rule applyMySQLBinlogEvent_effect [OF s1(1) assms(2)]) (use ev in auto)
  have u: "updateBoundary (env_os env) (clock env (Index e)) (Index e) t ((binlogProgress s)\<lparr>lastFilePosition := LogPos h\<rparr>, store s) = (Ok (), (p, st))"
    using u bd unfolding updateProcess_boundary by auto
  note eff = updateBoundary_effect [OF u, of q err]
  have ok: "progress_ok p" using eff(1) assms(3,5) by simp
  have s': "binlogProgress s' = event_progress d (h_EventType h) p" using s1(2) p by (simp add: applied_def)
  show "progress_ok (binlogProgress s')"
    using ok s' by (simp add: event_progress_def progress_ok_def executed_def)
  show "trxBoundaryParser (binlogProgress s') = (if err then EventParserNone else q)"
    "executed (binlogProgress s') = executed (binlogProgress s) \<union> (if \<not> err \<and> q = EventParserNone then open_gtid (binlogProgress s) else {})"
    "h_EventType h \<noteq> GTID_EVENT \<Longrightarrow>
       open_gtid (binlogProgress s') = (if err \<or> q = EventParserNone then {} else open_gtid (binlogProgress s))"
    using eff assms(3,5) s' by (auto simp: event_progress_inv IsNotInsideTransaction_def)
  show "h_EventType h = GTID_EVENT \<Longrightarrow>
       executed (binlogProgress s') \<union> open_gtid (binlogProgress s') = executed (binlogProgress s') \<union> gtid_of (gtid_text d)"
    using executed_open [OF currentGtid_ok [OF ok], of "gtid_text d"] s' gtid_text_not_Nil [of d] by (simp add: event_progress_def)
qed

lemma open_until_end:
  assumes "transaction (EventBoundaryTypeGtid # a @ us)" "us \<noteq> []"
  shows "\<exists>q. parse_run EventParserGtid a = Some q \<and> q \<noteq> EventParserNone"
proof -
  have pre: "\<exists>q. parse_run EventParserGtid a = Some q \<and> q \<noteq> EventParserNone" if "set a \<subseteq> {EventBoundaryTypePreStatement}"
    using that parse_run_pre by (cases a) auto
  have split: "\<exists>us'. pre = a @ us'" if "a @ us = pre @ [e]" for pre e
    using that assms(2) by (metis append_butlast_last_id butlast_append butlast_snoc)
  from assms(1) show ?thesis
  proof (cases rule: transaction.cases)
    case (ddl g pr e)
    then have "a @ us = pr @ [e]" by (cases g; cases pr) (auto simp: gtid_opt_def)
    then show ?thesis using split ddl(3) pre by force
  next
    case (dml g body e)
    then have e: "a @ us = (EventBoundaryTypeBeginTrx # body) @ [e]" by (cases g) (auto simp: gtid_opt_def)
    then obtain us' where us': "EventBoundaryTypeBeginTrx # body = a @ us'" using split by blast
    show ?thesis
    proof (cases a)
      case (Cons t a')
      then have "parse_run EventParserDML a' = Some EventParserDML" using us' dml(3) by (intro parse_run_body) auto
      then show ?thesis using Cons us' by simp
    qed simp
  next
    case xa_rollback
    then have "a = []" using assms(2) by (cases a) auto
    then show ?thesis by simp
  qed
qed

text \<open>A prefix of the events after the GTID of a transaction.\<close>

lemma transaction_prefix:
  assumes "apply_loop env x es s = (Ok b, s')" "list_all2 carries es ((d, h, EventBoundaryTypeGtid) # cs)" "h_EventType h = GTID_EVENT"
    and "ascending (ms_bucket (store s))" "progress_ok (binlogProgress s)" "trxBoundaryParser (binlogProgress s) = EventParserNone"
    and "open_gtid (binlogProgress s) = {}" "\<forall>(d, h, t)\<in>set cs. h_EventType h \<noteq> GTID_EVENT"
    and "\<And>a us. map (snd \<circ> snd) cs = a @ us \<Longrightarrow> us \<noteq> [] \<Longrightarrow> \<exists>q. parse_run EventParserGtid a = Some q \<and> q \<noteq> EventParserNone"
    and "parse_run EventParserGtid (map (snd \<circ> snd) cs) = Some q"
  shows "ascending (ms_bucket (store s')) \<and> progress_ok (binlogProgress s') \<and> trxBoundaryParser (binlogProgress s') = q \<and>
    executed (binlogProgress s') = executed (binlogProgress s) \<union> (if q = EventParserNone then gtid_of (gtid_text d) else {}) \<and>
    executed (binlogProgress s') \<union> open_gtid (binlogProgress s') = executed (binlogProgress s) \<union> gtid_of (gtid_text d)"
  using assms
proof (induction cs arbitrary: es b s' q rule: rev_induct)
  case Nil
  then obtain e where e: "es = [e]" "carries e (d, h, EventBoundaryTypeGtid)" by (auto simp: list_all2_Cons2)
  then obtain b' where a: "apply_entry env e s = (Ok b', s')" using Nil.prems(1) by (auto simp: sbind_eq_Ok)
  note eff = event_entry_effect [OF a Nil.prems(4,5) e(2), of EventParserGtid False]
  show ?case using eff Nil.prems(3,6,7,10) apply_entry_ascending [OF a Nil.prems(4)] by auto
next
  case (snoc c cs)
  obtain d' h' t where c: "c = (d', h', t)" by (cases c)
  obtain fs e where es: "es = fs @ [e]" "list_all2 carries fs ((d, h, EventBoundaryTypeGtid) # cs)" "carries e (d', h', t)"
    using snoc.prems(2) unfolding c append_Cons [symmetric] list_all2_append2 by (auto simp: list_all2_Cons2)
  obtain y z u where u: "apply_loop env x fs s = (Ok y, u)" "apply_entry env e u = (Ok z, s')"
    using snoc.prems(1) unfolding es(1) apply_loop_snoc by blast
  obtain q' where q': "parse_run EventParserGtid (map (snd \<circ> snd) cs) = Some q'" "q' \<noteq> EventParserNone"
    using snoc.prems(9) [of "map (snd \<circ> snd) cs" "[t]"] c by auto
  have hd: "h' \<in> fst ` snd ` set (cs @ [c]) \<and> h_EventType h' \<noteq> GTID_EVENT" using snoc.prems(8) c by force
  have IH: "ascending (ms_bucket (store u)) \<and> progress_ok (binlogProgress u) \<and> trxBoundaryParser (binlogProgress u) = q' \<and>
    executed (binlogProgress u) = executed (binlogProgress s) \<and>
    executed (binlogProgress u) \<union> open_gtid (binlogProgress u) = executed (binlogProgress s) \<union> gtid_of (gtid_text d)"
    using snoc.IH [OF u(1) es(2) snoc.prems(3-7) _ _ q'(1)] snoc.prems(8,9) q'(2) by auto
  have q: "UpdateState q' t = (q, False)" using snoc.prems(10) q'(1) c by (auto simp: parse_run_append comp_def split: prod.splits if_splits)
  have "UpdateState (trxBoundaryParser (binlogProgress u)) t = (q, False)" using IH q by simp
  note eff = event_entry_effect [OF u(2) _ _ es(3) this]
  show ?case using eff IH hd apply_entry_ascending [OF u(2)] by auto
qed

lemma one_gtid: "transaction (EventBoundaryTypeGtid # ts) \<Longrightarrow> EventBoundaryTypeGtid \<notin> set ts"
  by (cases rule: transaction.cases) (auto simp: gtid_opt_def Cons_eq_append_conv)

lemma no_gtid_events:
  assumes "list_all2 carries es (c # cs)" "EventBoundaryTypeGtid \<notin> set (map (snd \<circ> snd) cs)"
  shows "\<forall>(d, h, t)\<in>set cs. h_EventType h \<noteq> GTID_EVENT"
proof (clarify)
  fix d h t assume c: "(d, h, t) \<in> set cs" "h_EventType h = GTID_EVENT"
  obtain e' es' where "list_all2 carries es' cs" using assms(1) by (auto simp: list_all2_Cons2)
  then obtain e where "carries e (d, h, t)" using c(1) by (metis in_set_conv_nth list_all2_conv_all_nth)
  then have "t = EventBoundaryTypeGtid" using event_boundary_gtid c(2) by (auto simp: carries_def)
  then show False using assms(2) c(1) by force
qed

text \<open>C8: the GTID of a transaction is added when the transaction is complete, and not before: while the entries of a
  transaction with a GTID are applied, the executed GTIDs stay as they are, and after its last entry they are
  what they were and its GTID.\<close>

theorem transaction_executed_at_end:
  assumes "apply_entries env es s = (Ok b, s')" "ascending (ms_bucket (store s))" "progress_ok (binlogProgress s)"
    and "trxBoundaryParser (binlogProgress s) = EventParserNone" "open_gtid (binlogProgress s) = {}"
    and "list_all2 carries es ((d, h, EventBoundaryTypeGtid) # cs)" "h_EventType h = GTID_EVENT"
    and "transaction (EventBoundaryTypeGtid # map (snd \<circ> snd) cs @ us)"
  shows "executed (binlogProgress s') =
    (if us = [] then executed (binlogProgress s) \<union> gtid_of (gtid_text d) else executed (binlogProgress s))"
proof -
  let ?ts = "map (snd \<circ> snd) cs"
  have run: "apply_loop env False es s = (Ok b, s')" using assms(1) by (simp add: apply_entries_def)
  have no: "EventBoundaryTypeGtid \<notin> set ?ts" using one_gtid [OF assms(8)] by simp
  note g = no_gtid_events [OF assms(6) no]
  have pre: "\<exists>q. parse_run EventParserGtid a = Some q \<and> q \<noteq> EventParserNone" if "?ts = a @ vs" "vs \<noteq> []" for a vs
    using open_until_end [of a "vs @ us"] assms(8) that by simp
  obtain q where q: "parse_run EventParserGtid ?ts = Some q" "q = EventParserNone \<longleftrightarrow> us = []"
  proof (cases "us = []")
    case True
    then show ?thesis using that transaction_accepted [OF assms(8)] by (auto split: option.splits)
  next
    case False
    then show ?thesis using that open_until_end [OF assms(8)] by blast
  qed
  show ?thesis
    using transaction_prefix [OF run assms(6,7,2,3,4,5) g _ q(1)] pre q(2) by auto
qed

text \<open>C34: a GTID is added too early when the stream breaks off twice: the GTID event that arrives inside of a
  transaction resets the parser, which then counts the next event that it ignores, such as the rotate event of a
  new connection, as the end of the transaction. None of the events of the transaction were applied.\<close>

theorem interrupted_gtid_added_early:
  assumes "apply_entries env [e1, e2] s = (Ok b, s')" "ascending (ms_bucket (store s))" "progress_ok (binlogProgress s)"
    and "IsInsideTransaction (trxBoundaryParser (binlogProgress s))"
    and "carries e1 (d1, h1, EventBoundaryTypeGtid)" "h_EventType h1 = GTID_EVENT" "carries e2 (d2, h2, EventBoundaryTypeIgnore)"
  shows "executed (binlogProgress s') = executed (binlogProgress s) \<union> gtid_of (gtid_text d1)"
proof -
  obtain b1 b2 s1 where s1: "apply_entry env e1 s = (Ok b1, s1)" "apply_entry env e2 s1 = (Ok b2, s')"
    using assms(1) by (auto simp: apply_entries_def sbind_eq_Ok)
  have "UpdateState (trxBoundaryParser (binlogProgress s)) EventBoundaryTypeGtid = (EventParserGtid, True)"
    using assms(4) by (simp add: IsInsideTransaction_def)
  note e1 = event_entry_effect [OF s1(1) assms(2,3,5) this]
  have "UpdateState (trxBoundaryParser (binlogProgress s1)) EventBoundaryTypeIgnore = (EventParserNone, False)" using e1(2) by simp
  note e2 = event_entry_effect [OF s1(2) apply_entry_ascending [OF s1(1) assms(2)] e1(1) assms(7) this]
  show ?thesis using e1 e2(3) assms(6) by auto
qed

text \<open>A transaction that is still open when the next GTID event arrives is not executed.\<close>

lemma unfinished_gtid_lost:
  assumes "apply_entries env (es @ [e]) s = (Ok b, s')" "ascending (ms_bucket (store s))" "progress_ok (binlogProgress s)"
    and "trxBoundaryParser (binlogProgress s) = EventParserNone" "open_gtid (binlogProgress s) = {}"
    and "list_all2 carries es ((d, h, EventBoundaryTypeGtid) # cs)" "h_EventType h = GTID_EVENT"
    and "map (snd \<circ> snd) cs = EventBoundaryTypeBeginTrx # replicate n EventBoundaryTypeStatement"
    and "carries e (d', h', EventBoundaryTypeGtid)" "h_EventType h' = GTID_EVENT"
  shows "executed (binlogProgress s') = executed (binlogProgress s) \<and>
    executed (binlogProgress s') \<union> open_gtid (binlogProgress s') = executed (binlogProgress s) \<union> gtid_of (gtid_text d')"
proof -
  let ?ts = "map (snd \<circ> snd) cs"
  obtain y z u where u: "apply_loop env False es s = (Ok y, u)" "apply_entry env e u = (Ok z, s')"
    using assms(1) unfolding apply_entries_def apply_loop_snoc by blast
  have trx: "transaction (EventBoundaryTypeGtid # ?ts @ [EventBoundaryTypeEndTrx])"
    using transaction.dml [of "[EventBoundaryTypeGtid]" "replicate n EventBoundaryTypeStatement" EventBoundaryTypeEndTrx]
    unfolding assms(8) by (simp add: gtid_opt_def set_replicate_conv_if)
  have g: "\<forall>(d, h, t)\<in>set cs. h_EventType h \<noteq> GTID_EVENT"
    by (rule no_gtid_events [OF assms(6)]) (use assms(8) in simp)
  have pre: "\<exists>q. parse_run EventParserGtid a = Some q \<and> q \<noteq> EventParserNone" if "?ts = a @ vs" "vs \<noteq> []" for a vs
    using open_until_end [of a "vs @ [EventBoundaryTypeEndTrx]"] trx that by simp
  have q: "parse_run EventParserGtid ?ts = Some EventParserDML"
    using parse_run_body [of "replicate n EventBoundaryTypeStatement"] unfolding assms(8) by (simp add: set_replicate_conv_if)
  have pr: "ascending (ms_bucket (store u)) \<and> progress_ok (binlogProgress u) \<and> trxBoundaryParser (binlogProgress u) = EventParserDML \<and>
      executed (binlogProgress u) = executed (binlogProgress s)"
    using transaction_prefix [OF u(1) assms(6,7,2,3,4,5) g _ q] pre by auto
  then have "UpdateState (trxBoundaryParser (binlogProgress u)) EventBoundaryTypeGtid = (EventParserGtid, True)" by simp
  note e = event_entry_effect [OF u(2) _ _ assms(9) this]
  show ?thesis using e pr assms(10) by auto
qed

text \<open>The bytes of a query event whose query is \<^verbatim>\<open>COMMIT\<close>, in upper or lower case.\<close>

definition commits :: "bytes \<Rightarrow> bool" where
  "commits d \<longleftrightarrow>
     (case QueryEvent_Decode (event_body d) of Ok query \<Rightarrow> ToUpper (BytesToString query) = ''COMMIT'' | _ \<Rightarrow> False)"

lemma commit_boundary:
  assumes "event_boundary d = Some (h, t)" "h_EventType h = QUERY_EVENT" "commits d"
  shows "t = EventBoundaryTypeStatement"
  using assms
  by (auto simp: event_boundary_def commits_def event_body_def Let_def GetEventBoundaryType_def query_boundary_def HasPrefix_def event_types
      split: outcome.splits if_splits)

text \<open>C35: the GTID of a transaction that ends with \<^verbatim>\<open>COMMIT\<close> is lost: the events are a GTID event, \<^verbatim>\<open>BEGIN\<close>, statements and a
  query event with \<^verbatim>\<open>COMMIT\<close>, which is one more statement for the parser, so that the transaction is still open when the next
  GTID event arrives; that event resets the parser, and the executed GTIDs never contain the transaction.\<close>

theorem committed_gtid_lost:
  assumes "apply_entries env (es @ [ec, e]) s = (Ok b, s')" "ascending (ms_bucket (store s))" "progress_ok (binlogProgress s)"
    and "trxBoundaryParser (binlogProgress s) = EventParserNone" "open_gtid (binlogProgress s) = {}"
    and "list_all2 carries es ((d, h, EventBoundaryTypeGtid) # cs)" "h_EventType h = GTID_EVENT"
    and "map (snd \<circ> snd) cs = EventBoundaryTypeBeginTrx # replicate n EventBoundaryTypeStatement"
    and "carries ec (dc, hc, t)" "h_EventType hc = QUERY_EVENT" "commits dc"
    and "carries e (d', h', EventBoundaryTypeGtid)" "h_EventType h' = GTID_EVENT"
  shows "executed (binlogProgress s') = executed (binlogProgress s) \<and>
    executed (binlogProgress s') \<union> open_gtid (binlogProgress s') = executed (binlogProgress s) \<union> gtid_of (gtid_text d')"
proof -
  have t: "t = EventBoundaryTypeStatement" using assms(9) commit_boundary [OF _ assms(10,11)] by (auto simp: carries_def)
  have run: "apply_entries env ((es @ [ec]) @ [e]) s = (Ok b, s')" using assms(1) by simp
  have c: "list_all2 carries (es @ [ec]) ((d, h, EventBoundaryTypeGtid) # (cs @ [(dc, hc, EventBoundaryTypeStatement)]))"
    using list_all2_appendI [OF assms(6), of "[ec]" "[(dc, hc, EventBoundaryTypeStatement)]"] assms(9) t by simp
  have m: "map (snd \<circ> snd) (cs @ [(dc, hc, EventBoundaryTypeStatement)]) =
      EventBoundaryTypeBeginTrx # replicate (Suc n) EventBoundaryTypeStatement"
    using assms(8) by (simp add: replicate_append_same [symmetric])
  show ?thesis by (rule unfinished_gtid_lost [OF run assms(2-5) c assms(7) m assms(12,13)])
qed

section \<open>A sample\<close>

text \<open>A transaction of three events, and a server that has just started.\<close>

definition sample_event :: "EventHeader \<Rightarrow> bytes \<Rightarrow> BinlogEvent" where
  "sample_event h body =
     \<lparr>ev_Type = ucast (h_EventType h), ev_Flavor = 0, ev_DividedCount = 0, ev_DividedSeqNum = 0,
      ev_Data = Some (event_bytes h body (replicate 4 0)), ev_XXX_unrecognized = []\<rparr>"

definition binlog_entry :: "u64 \<Rightarrow> EventHeader \<Rightarrow> bytes \<Rightarrow> Entry" where
  "binlog_entry i h body =
     \<lparr>Term = 1, Index = i, EType = EntryNormal,
      EData = Some (MySQLBinlogEventType # BinlogEvent_MarshalTo (sample_event h body)), E_XXX_unrecognized = []\<rparr>"

lemma event_of_binlog_entry:
  assumes "event_ok h body (replicate 4 0)"
  shows "event_of (binlog_entry i h body) = Some (sample_event h body)"
proof -
  have "length (event_bytes h body (replicate 4 0)) < 2 ^ 32"
    unfolding EventHeader_Decode_bytes(3) [OF assms] using unsigned_less [of "EventSize h", where 'a = nat] by simp
  then have s: "BinlogEvent_storable (sample_event h body)"
    using sovRecord_le_10 [of "ucast (ev_Type (sample_event h body))"] sovRecord_le_10 [of 0]
      sovRecord_le_10 [of "of_nat (length (event_bytes h body (replicate 4 0)))"]
    by (simp add: BinlogEvent_storable_def BinlogEvent_Size_def sample_event_def)
  obtain b where b: "BinlogEvent_Marshal (sample_event h body) = Ok b" using evc.marshal_total by blast
  then have "b = BinlogEvent_MarshalTo (sample_event h body)" by (simp add: BinlogEvent_Marshal_eq)
  then show ?thesis using evc.unmarshal_fresh [OF s b] by (simp add: event_of_def binlog_entry_def)
qed

lemma event_body_bytes:
  assumes "event_ok h body crc"
  shows "event_body (event_bytes h body crc) = body"
  using EventHeader_Decode_bytes [OF assms] assms by (simp add: event_body_def event_ok_def)

lemma event_boundary_bytes:
  assumes "event_ok h body crc"
  shows "event_boundary (event_bytes h body crc) = (case GetEventBoundaryType h body of Ok t \<Rightarrow> Some (h, t) | _ \<Rightarrow> None)"
  using EventHeader_Decode_bytes [OF assms] assms
  by (simp add: event_boundary_def event_ok_def Let_def EventHeaderSize_def BinlogChecksumLength_def split: outcome.splits)

lemma ucast_type: "ucast (ucast t :: u32) = (t :: byte)"
  by (rule bit_word_eqI) (simp add: bit_simps)

lemma carries_binlog_entry:
  assumes "event_ok h body (replicate 4 0)" "GetEventBoundaryType h body = Ok t"
  shows "carries (binlog_entry i h body) (event_bytes h body (replicate 4 0), h, t)"
  using event_of_binlog_entry [OF assms(1), of i] event_boundary_bytes [OF assms(1)] assms(2)
  by (simp add: carries_def entry_kind_def binlog_entry_def first_part_def sample_event_def ev_bytes_def ev_type_def ucast_type)

text \<open>Applying such an entry, when the event is one that only moves the progress on, and when it is a GTID event.\<close>

lemma apply_carried:
  assumes "carries e (d, h, t)" "updateProcess (env_os env) (clock env (Index e)) (Index e) d (binlogProgress s, store s) = (Ok (), (p, st))"
  shows "\<not> needApply (h_EventType h) \<Longrightarrow>
      apply_entry env e s = (Ok False, applied e (s\<lparr>binlogProgress := p, store := st, broadcasts := broadcasts s + 1\<rparr>))"
    "h_EventType h = GTID_EVENT \<Longrightarrow> EventHeaderSize + BinlogChecksumLength \<le> length d \<Longrightarrow>
       GTIDEvent_Decode (event_body d) = Ok ge \<Longrightarrow> length (ge_SID ge) = 16 \<Longrightarrow>
      apply_entry env e s =
        (Ok False, applied e (s\<lparr>store := st, binlogProgress := p\<lparr>currentGtid := gtid_text d\<rparr>, broadcasts := broadcasts s + 1\<rparr>))"
proof -
  obtain ev where ev: "BinlogEvent_Unmarshal new_BinlogEvent (drop 1 (nil_bytes (EData e))) = Ok ev" "first_part ev"
    "nil_bytes (ev_Data ev) = d" "ucast (ev_Type ev) = h_EventType h"
    using assms(1) by (auto simp: carries_def event_of_def ev_bytes_def ev_type_def split: option.splits outcome.splits)
  have k: "EType e = EntryNormal" "\<exists>r. nil_bytes (EData e) = MySQLBinlogEventType # r"
    using assms(1) by (auto simp: carries_def entry_kind_def split: if_splits list.splits)
  have fp: "ev_DividedCount ev = 0 \<or> ev_DividedSeqNum ev = 0" using ev(2) by (simp add: first_part_def)
  note d = apply_entry_def applyEntryNormal_def applyMySQLBinlogEvent_def fatal_def Let_def
  show "apply_entry env e s = (Ok False, applied e (s\<lparr>binlogProgress := p, store := st, broadcasts := broadcasts s + 1\<rparr>))"
    if "\<not> needApply (h_EventType h)"
    using that k ev fp assms(2) by (auto simp: d)
  show "apply_entry env e s =
        (Ok False, applied e (s\<lparr>store := st, binlogProgress := p\<lparr>currentGtid := gtid_text d\<rparr>, broadcasts := broadcasts s + 1\<rparr>))"
    if g: "h_EventType h = GTID_EVENT" "EventHeaderSize + BinlogChecksumLength \<le> length d"
      "GTIDEvent_Decode (event_body d) = Ok ge" "length (ge_SID ge) = 16"
  proof -
    have "applyBinlogEvent env d GTID_EVENT (Index e) u =
        (Ok (), u\<lparr>binlogProgress := (binlogProgress u)\<lparr>currentGtid := gtid_text d\<rparr>\<rparr>)" for u
      using g(2-4) unfolding applyBinlogEvent_def event_body_def [symmetric]
      by (simp add: event_types gtid_text_def Let_def)
    then show ?thesis using g(1) k ev fp assms(2) by (auto simp: d needApply_def)
  qed
qed

definition gtid_header :: EventHeader where
  "gtid_header = \<lparr>Timestamp = 0, h_EventType = GTID_EVENT, ServerID = 1, EventSize = 48, LogPos = 100, Flags = 0\<rparr>"

definition begin_header :: EventHeader where
  "begin_header = \<lparr>Timestamp = 0, h_EventType = QUERY_EVENT, ServerID = 1, EventSize = 42, LogPos = 142, Flags = 0\<rparr>"

definition xid_header :: EventHeader where
  "xid_header = \<lparr>Timestamp = 0, h_EventType = XID_EVENT, ServerID = 1, EventSize = 31, LogPos = 173, Flags = 0\<rparr>"

definition commit_header :: EventHeader where
  "commit_header = \<lparr>Timestamp = 0, h_EventType = QUERY_EVENT, ServerID = 1, EventSize = 43, LogPos = 185, Flags = 0\<rparr>"

definition stop_header :: EventHeader where
  "stop_header = \<lparr>Timestamp = 0, h_EventType = STOP_EVENT, ServerID = 1, EventSize = 23, LogPos = 123, Flags = 0\<rparr>"

definition sample_gtid_body :: bytes where
  "sample_gtid_body = gtid_body 0 (replicate 16 1) 5"

definition begin_body :: bytes where
  "begin_body = query_body (replicate 10 0) [] [] (StringToBytes ''BEGIN'')"

definition commit_body :: bytes where
  "commit_body = query_body (replicate 10 0) [] [] (StringToBytes ''COMMIT'')"

lemma sample_events_ok:
  "event_ok gtid_header sample_gtid_body (replicate 4 0)" "event_ok begin_header begin_body (replicate 4 0)"
  "event_ok xid_header (replicate 8 0) (replicate 4 0)" "event_ok commit_header commit_body (replicate 4 0)"
  "event_ok stop_header [] (replicate 4 0)"
  by (simp_all add: event_ok_def gtid_header_def begin_header_def xid_header_def commit_header_def stop_header_def commit_body_def sample_gtid_body_def gtid_body_def begin_body_def
      query_body_def BinlogChecksumLength_def EventHeaderSize_def StringToBytes_def)

lemma sample_boundaries:
  "GetEventBoundaryType gtid_header b = Ok EventBoundaryTypeGtid" "GetEventBoundaryType xid_header b = Ok EventBoundaryTypeEndTrx"
  "GetEventBoundaryType stop_header b = Ok EventBoundaryTypeIgnore"
  "GetEventBoundaryType begin_header begin_body = Ok EventBoundaryTypeBeginTrx"
  "GetEventBoundaryType commit_header commit_body = Ok EventBoundaryTypeStatement"
proof -
  have b: "query_boundary ''BEGIN'' = EventBoundaryTypeBeginTrx"
    "query_boundary ''COMMIT'' = EventBoundaryTypeStatement" by code_simp+
  show "GetEventBoundaryType begin_header begin_body = Ok EventBoundaryTypeBeginTrx"
    "GetEventBoundaryType commit_header commit_body = Ok EventBoundaryTypeStatement"
    by (simp_all add: GetEventBoundaryType_def begin_header_def begin_body_def commit_header_def commit_body_def
        QueryEvent_Decode_body event_types b)
qed (simp_all add: GetEventBoundaryType_def gtid_header_def xid_header_def stop_header_def ignored_events_def statement_events_def event_types)

lemmas sample_carries =
  carries_binlog_entry [OF sample_events_ok(1) sample_boundaries(1)]
  carries_binlog_entry [OF sample_events_ok(2) sample_boundaries(4)]
  carries_binlog_entry [OF sample_events_ok(3) sample_boundaries(2)]
  carries_binlog_entry [OF sample_events_ok(4) sample_boundaries(5)]
  carries_binlog_entry [OF sample_events_ok(5) sample_boundaries(3)]

definition gtid_entry :: Entry where "gtid_entry = binlog_entry 1 gtid_header sample_gtid_body"
definition begin_entry :: Entry where "begin_entry = binlog_entry 2 begin_header begin_body"
definition xid_entry :: Entry where "xid_entry = binlog_entry 3 xid_header (replicate 8 0)"

definition sample_env :: server_env where
  "sample_env =
     \<lparr>env_os = os_ok, clock = (\<lambda>_. (5, 6)), marshal_cluster = sample_marshal, unmarshal_cluster = sample_unmarshal,
      unmarshal_member = (\<lambda>b. map_option fst (dec_member b)), unmarshal_attributes = (\<lambda>_. None),
      unmarshal_gtid_purged = (\<lambda>_. None), is_syncer_args = (\<lambda>_. True), is_master_info = (\<lambda>_. True),
      marshal_conf_state = (\<lambda>_. Some []), raft_conf = (\<lambda>_. None)\<rparr>"

definition fresh_progress :: BinlogProgress where
  "fresh_progress =
     \<lparr>currentGtid = [], lastSaveGtid = [], lastBinlogFile = [], lastFilePosition = 0, executedGtidSetStr = [],
      trxBoundaryParser = EventParserNone, persistentTime = 0, persistentAppliedIndex = 0, executedGtidSet = []\<rparr>"

definition sample_server :: "BinlogProgress \<Rightarrow> KingbusServer" where
  "sample_server p =
     \<lparr>svr_id = 1, appliedIndex = 0, svr_term = 1, cluster = cluster1, store = empty_store, binlogProgress = p,
      transport = [], raft_changes = [], triggered = [], broadcasts = 0\<rparr>"

lemma gtid_event_data:
  "EventHeaderSize + BinlogChecksumLength \<le> length (event_bytes gtid_header sample_gtid_body (replicate 4 0))"
  "GTIDEvent_Decode (event_body (event_bytes gtid_header sample_gtid_body (replicate 4 0))) =
     Ok \<lparr>CommitFlag = 0, ge_SID = replicate 16 1, GNO = 5, LastCommitted = 0, SequenceNumber = 0\<rparr>"
  "gtid_text (event_bytes gtid_header sample_gtid_body (replicate 4 0)) = sample_gtid"
proof -
  let ?d = "event_bytes gtid_header sample_gtid_body (replicate 4 0)"
  note h = EventHeader_Decode_bytes [OF sample_events_ok(1)]
  show "EventHeaderSize + BinlogChecksumLength \<le> length ?d"
    unfolding h(3) by (simp add: gtid_header_def EventHeaderSize_def BinlogChecksumLength_def)
  have "event_body ?d = sample_gtid_body" by (rule event_body_bytes [OF sample_events_ok(1)])
  then show g: "GTIDEvent_Decode (event_body ?d) =
     Ok \<lparr>CommitFlag = 0, ge_SID = replicate 16 1, GNO = 5, LastCommitted = 0, SequenceNumber = 0\<rparr>"
    by (simp add: sample_gtid_body_def GTIDEvent_Decode_body)
  have "UUID_String (replicate 16 1) @ '':'' @ Sprintd 5 = sample_gtid" by code_simp
  then show "gtid_text ?d = sample_gtid" unfolding gtid_text_def g by simp
qed

text \<open>Applying such entries.\<close>

lemma plain_step:
  assumes "carries e (d, h, t)" "\<not> needApply (h_EventType h)" "binlogProgress s = p" "store s = st"
    and "updateBoundary os_ok (5, 6) (Index e) t (p\<lparr>lastFilePosition := LogPos h\<rparr>, st) = (Ok (), (p', st'))"
  shows "\<exists>s'. apply_entry sample_env e s = (Ok False, s') \<and> binlogProgress s' = p' \<and> store s' = st'"
proof -
  have "event_boundary d = Some (h, t)" using assms(1) by (simp add: carries_def)
  then have "updateProcess (env_os sample_env) (clock sample_env (Index e)) (Index e) d (binlogProgress s, store s) = (Ok (), (p', st'))"
    unfolding updateProcess_boundary using assms(3-5) by (auto simp: sample_env_def)
  from apply_carried(1) [OF assms(1) this assms(2)] show ?thesis by (simp add: applied_def)
qed

lemma gtid_step:
  assumes "binlogProgress s = p" "store s = st"
    and "updateBoundary os_ok (5, 6) i EventBoundaryTypeGtid (p\<lparr>lastFilePosition := 100\<rparr>, st) = (Ok (), (p', st'))"
  shows "\<exists>s'. apply_entry sample_env (binlog_entry i gtid_header sample_gtid_body) s = (Ok False, s') \<and>
    binlogProgress s' = p'\<lparr>currentGtid := sample_gtid\<rparr> \<and> store s' = st'"
proof -
  let ?d = "event_bytes gtid_header sample_gtid_body (replicate 4 0)" and ?e = "binlog_entry i gtid_header sample_gtid_body"
  note c = sample_carries(1) [of i]
  have h: "h_EventType gtid_header = GTID_EVENT" "LogPos gtid_header = 100" by (simp_all add: gtid_header_def)
  have "event_boundary ?d = Some (gtid_header, EventBoundaryTypeGtid)" "Index ?e = i"
    using c by (simp_all add: carries_def binlog_entry_def)
  then have "updateProcess (env_os sample_env) (clock sample_env (Index ?e)) (Index ?e) ?d (binlogProgress s, store s) = (Ok (), (p', st'))"
    unfolding updateProcess_boundary using assms h(2) by (auto simp: sample_env_def)
  from apply_carried(2) [OF c this h(1) gtid_event_data(1,2)] show ?thesis by (simp add: gtid_event_data(3) applied_def)
qed

lemmas sample_headers = begin_header_def commit_header_def xid_header_def stop_header_def

lemma sample_not_applied:
  "\<not> needApply (h_EventType begin_header)" "\<not> needApply (h_EventType commit_header)"
  "\<not> needApply (h_EventType xid_header)" "\<not> needApply (h_EventType stop_header)"
  by (simp_all add: sample_headers needApply_def event_types)

lemma fresh_ok: "progress_ok fresh_progress" "open_gtid fresh_progress = {}" "executed fresh_progress = {}" "gtids_int64 []"
  "wf_gtids []" "ascending []"
  by (simp_all add: ascending_def fresh_progress_def progress_ok_def open_gtid_def executed_def wf_gtids_def gtids_def gtids_int64_def)

lemmas sample_updates = updateBoundary_def Reset_def IsNotInsideTransaction_def addCurrentGtid_def Let_def persistentCount_def persistentTimeInterval_def fresh_progress_def

text \<open>A transaction on a fresh server: the GTID is added by the third entry.\<close>

lemma sample_begin:
  assumes "binlogProgress s = fresh_progress" "store s = empty_store"
  shows "\<exists>s1 s2. apply_entry sample_env gtid_entry s = (Ok False, s1) \<and> apply_entry sample_env begin_entry s1 = (Ok False, s2) \<and> store s2 = empty_store \<and>
    binlogProgress s2 = fresh_progress\<lparr>lastFilePosition := 142, trxBoundaryParser := EventParserDML, currentGtid := sample_gtid\<rparr>"
proof -
  let ?p = "\<lambda>n t. fresh_progress\<lparr>lastFilePosition := n, trxBoundaryParser := t, currentGtid := sample_gtid\<rparr>"
  have "updateBoundary os_ok (5, 6) 1 EventBoundaryTypeGtid (fresh_progress\<lparr>lastFilePosition := 100\<rparr>, empty_store) =
      (Ok (), (fresh_progress\<lparr>lastFilePosition := 100, trxBoundaryParser := EventParserGtid\<rparr>, empty_store))"
    by (simp add: sample_updates)
  from gtid_step [OF assms this, folded gtid_entry_def]
  obtain s1 where s1: "apply_entry sample_env gtid_entry s = (Ok False, s1)" "binlogProgress s1 = ?p 100 EventParserGtid" "store s1 = empty_store"
    by auto
  have "updateBoundary os_ok (5, 6) (Index (binlog_entry 2 begin_header begin_body)) EventBoundaryTypeBeginTrx
      ((?p 100 EventParserGtid)\<lparr>lastFilePosition := LogPos begin_header\<rparr>, empty_store) = (Ok (), (?p 142 EventParserDML, empty_store))"
    by (simp add: sample_updates begin_header_def)
  from plain_step [OF sample_carries(2) sample_not_applied(1) s1(2,3) this, folded begin_entry_def]
  obtain s2 where s2: "apply_entry sample_env begin_entry s1 = (Ok False, s2)" "binlogProgress s2 = ?p 142 EventParserDML" "store s2 = empty_store"
    by auto
  show ?thesis using s1(1) s2 by auto
qed

lemma sample_run:
  assumes "binlogProgress s = fresh_progress" "store s = empty_store"
  shows "\<exists>s'. apply_entries sample_env [gtid_entry, begin_entry, xid_entry] s = (Ok False, s') \<and>
    store s' = empty_store \<and> executed (binlogProgress s') = gtids sample_set"
proof -
  let ?p = "\<lambda>n t. fresh_progress\<lparr>lastFilePosition := n, trxBoundaryParser := t, currentGtid := sample_gtid\<rparr>"
  have g: "sample_gtid \<noteq> []" by (simp add: sample_gtid_def)
  obtain s1 s2 where s1: "apply_entry sample_env gtid_entry s = (Ok False, s1)" and s2: "apply_entry sample_env begin_entry s1 = (Ok False, s2)"
    "binlogProgress s2 = ?p 142 EventParserDML" "store s2 = empty_store"
    using sample_begin [OF assms] by auto
  have "\<exists>p. updateBoundary os_ok (5, 6) (Index (binlog_entry 3 xid_header (replicate 8 0))) EventBoundaryTypeEndTrx
      ((?p 142 EventParserDML)\<lparr>lastFilePosition := LogPos xid_header\<rparr>, empty_store) = (Ok (), (p, empty_store)) \<and>
      executedGtidSet p = sample_set"
    using g by (simp add: sample_updates sample_update binlog_entry_def)
  then obtain p where "updateBoundary os_ok (5, 6) (Index (binlog_entry 3 xid_header (replicate 8 0))) EventBoundaryTypeEndTrx
      ((?p 142 EventParserDML)\<lparr>lastFilePosition := LogPos xid_header\<rparr>, empty_store) = (Ok (), (p, empty_store))"
    and p: "executedGtidSet p = sample_set" by blast
  from plain_step [OF sample_carries(3) sample_not_applied(3) s2(2,3) this(1), folded xid_entry_def]
  obtain s3 where "apply_entry sample_env xid_entry s2 = (Ok False, s3)" "binlogProgress s3 = p" "store s3 = empty_store" by auto
  then show ?thesis using s1 s2(1) p by (auto simp: apply_entries_def executed_def)
qed


theorem restart_recovers_progress_witness:
  "\<exists>s r r'. apply_entries sample_env [gtid_entry, begin_entry, xid_entry] (sample_server fresh_progress) = (Ok False, s) \<and>
     store r = store s \<and> newBinlogProgress os_ok (store s) = Ok (binlogProgress r) \<and>
     MustGetAppliedIndex os_ok (store s) = Ok (appliedIndex r) \<and>
     apply_entries sample_env (filter (\<lambda>e. appliedIndex r < Index e) [gtid_entry, begin_entry, xid_entry]) r = (Ok False, r') \<and>
     executed (binlogProgress r') = executed (binlogProgress s)"
proof -
  let ?es = "[gtid_entry, begin_entry, xid_entry]" and ?s0 = "sample_server fresh_progress"
  obtain s where s: "apply_entries sample_env ?es ?s0 = (Ok False, s)" "store s = empty_store"
    using sample_run [of ?s0] by (auto simp: sample_server_def)
  obtain r' where r': "apply_entries sample_env ?es ?s0 = (Ok False, r')" using s by simp
  have i: "Index gtid_entry = 1" "Index begin_entry = 2" "Index xid_entry = 3"
    by (simp_all add: gtid_entry_def begin_entry_def xid_entry_def binlog_entry_def)
  have f: "filter (\<lambda>e. appliedIndex ?s0 < Index e) ?es = ?es" by (simp add: i sample_server_def)
  have j: "just_started ?s0"
    using fresh_ok by (auto simp: just_started_def progress_inv_def sample_server_def holds_progress_def fresh_progress_def empty_store_def)
  have fo: "follows (appliedIndex ?s0) ?es" by (auto simp: follows_def sample_server_def i less_Suc_eq)
  have c: "list_all consistent ?es"
    using sample_carries(1) [of 1] sample_carries(2) [of 2] sample_carries(3) [of 3]
    by (auto simp: consistent_def carries_def gtid_entry_def begin_entry_def xid_entry_def split: option.splits)
  have n: "newBinlogProgress os_ok (store s) = Ok (binlogProgress ?s0)" "MustGetAppliedIndex os_ok (store s) = Ok (appliedIndex ?s0)"
    using executed_key by (simp_all add: s(2) newBinlogProgress_def GetGtidSet_def Get_def View_def MustGetAppliedIndex_def empty_store_def sample_server_def fresh_progress_def)
  have e: "store ?s0 = store s" by (simp add: s(2) sample_server_def)
  have "executed (binlogProgress r') = executed (binlogProgress s)"
    using restart_recovers_progress [OF j s(1) fo c e n, of sample_env False r'] r' unfolding f by blast
  then show ?thesis
    by (intro exI [of _ s] exI [of _ ?s0] exI [of _ r']) (use s(1) r' e n f in simp)
qed


lemma sample_server_ok:
  "ascending (ms_bucket (store (sample_server p)))" "binlogProgress (sample_server p) = p" "store (sample_server p) = empty_store"
  using fresh_ok(6) by (simp_all add: sample_server_def empty_store_def)

theorem transaction_executed_at_end_witness:
  "\<exists>s. apply_entries sample_env [gtid_entry, begin_entry, xid_entry] (sample_server fresh_progress) = (Ok False, s) \<and>
     executed (binlogProgress s) = gtid_of sample_gtid"
proof -
  let ?d = "event_bytes gtid_header sample_gtid_body (replicate 4 0)"
  let ?cs = "[(event_bytes begin_header begin_body (replicate 4 0), begin_header, EventBoundaryTypeBeginTrx),
    (event_bytes xid_header (replicate 8 0) (replicate 4 0), xid_header, EventBoundaryTypeEndTrx)]"
  obtain s where s: "apply_entries sample_env [gtid_entry, begin_entry, xid_entry] (sample_server fresh_progress) = (Ok False, s)"
    using sample_run [of "sample_server fresh_progress"] sample_server_ok by auto
  have c: "list_all2 carries [gtid_entry, begin_entry, xid_entry] ((?d, gtid_header, EventBoundaryTypeGtid) # ?cs)"
    using sample_carries(1) [of 1] sample_carries(2) [of 2] sample_carries(3) [of 3]
    by (simp add: gtid_entry_def begin_entry_def xid_entry_def)
  have "transaction ([EventBoundaryTypeGtid] @ EventBoundaryTypeBeginTrx # [] @ [EventBoundaryTypeEndTrx])"
    by (rule transaction.dml) (simp_all add: gtid_opt_def)
  then have t: "transaction (EventBoundaryTypeGtid # map (snd \<circ> snd) ?cs @ [])" by simp
  have p: "progress_ok (binlogProgress (sample_server fresh_progress))" "open_gtid (binlogProgress (sample_server fresh_progress)) = {}"
    "trxBoundaryParser (binlogProgress (sample_server fresh_progress)) = EventParserNone" "h_EventType gtid_header = GTID_EVENT"
    using fresh_ok by (simp_all add: sample_server_ok fresh_progress_def gtid_header_def)
  have "executed (binlogProgress s) = gtid_of sample_gtid"
    using transaction_executed_at_end [OF s sample_server_ok(1) p(1,3,2) c p(4) t] gtid_event_data(3) fresh_ok(3)
    by (simp add: sample_server_ok)
  then show ?thesis using s by blast
qed

definition stop_entry :: Entry where "stop_entry = binlog_entry 2 stop_header []"

theorem interrupted_gtid_added_early_witness:
  "\<exists>s. apply_entries sample_env [gtid_entry, stop_entry] (sample_server (fresh_progress\<lparr>trxBoundaryParser := EventParserDML\<rparr>)) = (Ok False, s) \<and>
     executed (binlogProgress s) = gtid_of sample_gtid"
proof -
  let ?p = "fresh_progress\<lparr>trxBoundaryParser := EventParserDML\<rparr>"
  let ?q = "fresh_progress\<lparr>lastFilePosition := 100, trxBoundaryParser := EventParserNone\<rparr>"
  have g: "sample_gtid \<noteq> []" by (simp add: sample_gtid_def)
  have "updateBoundary os_ok (5, 6) 1 EventBoundaryTypeGtid (?p\<lparr>lastFilePosition := 100\<rparr>, empty_store) = (Ok (), (?q, empty_store))"
    by (simp add: sample_updates)
  from gtid_step [OF sample_server_ok(2,3) this, folded gtid_entry_def]
  obtain s1 where s1: "apply_entry sample_env gtid_entry (sample_server ?p) = (Ok False, s1)"
    "binlogProgress s1 = ?q\<lparr>currentGtid := sample_gtid\<rparr>" "store s1 = empty_store" by blast
  have "\<exists>p. updateBoundary os_ok (5, 6) (Index (binlog_entry 2 stop_header [])) EventBoundaryTypeIgnore
      (?q\<lparr>currentGtid := sample_gtid, lastFilePosition := LogPos stop_header\<rparr>, empty_store) = (Ok (), (p, empty_store))"
    using g by (simp add: sample_updates sample_update binlog_entry_def)
  then obtain p where "updateBoundary os_ok (5, 6) (Index (binlog_entry 2 stop_header [])) EventBoundaryTypeIgnore
      (?q\<lparr>currentGtid := sample_gtid, lastFilePosition := LogPos stop_header\<rparr>, empty_store) = (Ok (), (p, empty_store))" by blast
  from plain_step [OF sample_carries(5) sample_not_applied(4) s1(2,3) this, folded stop_entry_def]
  obtain s where s: "apply_entry sample_env stop_entry s1 = (Ok False, s)" by blast
  then have r: "apply_entries sample_env [gtid_entry, stop_entry] (sample_server ?p) = (Ok False, s)"
    using s1(1) by (simp add: apply_entries_def)
  have p: "progress_ok (binlogProgress (sample_server ?p))" "IsInsideTransaction (trxBoundaryParser (binlogProgress (sample_server ?p)))"
    "h_EventType gtid_header = GTID_EVENT" "executed (binlogProgress (sample_server ?p)) = {}"
    using fresh_ok by (simp_all add: sample_server_ok IsInsideTransaction_def gtid_header_def progress_ok_def executed_def)
  show ?thesis
    using interrupted_gtid_added_early [OF r sample_server_ok(1) p(1,2) sample_carries(1) [of 1, folded gtid_entry_def] p(3)
        sample_carries(5) [of 2, folded stop_entry_def]] r p(4) gtid_event_data(3) by auto
qed


definition commit_entry :: Entry where "commit_entry = binlog_entry 3 commit_header commit_body"
definition next_entry :: Entry where "next_entry = binlog_entry 4 gtid_header sample_gtid_body"

theorem committed_gtid_lost_witness:
  "\<exists>s. apply_entries sample_env ([gtid_entry, begin_entry] @ [commit_entry, next_entry]) (sample_server fresh_progress) = (Ok False, s) \<and>
     executed (binlogProgress s) = {}"
proof -
  let ?p = "\<lambda>n t. fresh_progress\<lparr>lastFilePosition := n, trxBoundaryParser := t, currentGtid := sample_gtid\<rparr>"
  let ?d = "event_bytes gtid_header sample_gtid_body (replicate 4 0)" and ?s = "sample_server fresh_progress"
  let ?cs = "[(event_bytes begin_header begin_body (replicate 4 0), begin_header, EventBoundaryTypeBeginTrx)]"
  let ?c = "event_bytes commit_header commit_body (replicate 4 0)"
  have g: "sample_gtid \<noteq> []" by (simp add: sample_gtid_def)
  obtain s1 s2 where s1: "apply_entry sample_env gtid_entry ?s = (Ok False, s1)" and s2: "apply_entry sample_env begin_entry s1 = (Ok False, s2)"
    "binlogProgress s2 = ?p 142 EventParserDML" "store s2 = empty_store"
    using sample_begin [of ?s] sample_server_ok by auto
  have "updateBoundary os_ok (5, 6) (Index (binlog_entry 3 commit_header commit_body)) EventBoundaryTypeStatement
      ((?p 142 EventParserDML)\<lparr>lastFilePosition := LogPos commit_header\<rparr>, empty_store) = (Ok (), (?p 185 EventParserDML, empty_store))"
    by (simp add: sample_updates commit_header_def)
  from plain_step [OF sample_carries(4) sample_not_applied(2) s2(2,3) this, folded commit_entry_def]
  obtain s3 where s3: "apply_entry sample_env commit_entry s2 = (Ok False, s3)" "binlogProgress s3 = ?p 185 EventParserDML" "store s3 = empty_store"
    by blast
  have "updateBoundary os_ok (5, 6) 4 EventBoundaryTypeGtid ((?p 185 EventParserDML)\<lparr>lastFilePosition := 100\<rparr>, empty_store) =
      (Ok (), (fresh_progress\<lparr>lastFilePosition := 100\<rparr>, empty_store))" by (simp add: sample_updates)
  from gtid_step [OF s3(2,3) this, folded next_entry_def]
  obtain s where "apply_entry sample_env next_entry s3 = (Ok False, s)" by blast
  then have r: "apply_entries sample_env ([gtid_entry, begin_entry] @ [commit_entry, next_entry]) ?s = (Ok False, s)"
    using s1 s2(1) s3(1) by (simp add: apply_entries_def)
  have c: "list_all2 carries [gtid_entry, begin_entry] ((?d, gtid_header, EventBoundaryTypeGtid) # ?cs)"
    using sample_carries(1) [of 1] sample_carries(2) [of 2]
    by (simp add: gtid_entry_def begin_entry_def)
  have "BytesToString (StringToBytes ''COMMIT'') = ''COMMIT''" "ToUpper ''COMMIT'' = ''COMMIT''" by code_simp+
  moreover have "QueryEvent_Decode (event_body ?c) = Ok (StringToBytes ''COMMIT'')"
    unfolding event_body_bytes [OF sample_events_ok(4)] by (simp add: commit_body_def QueryEvent_Decode_body)
  ultimately have q: "h_EventType commit_header = QUERY_EVENT" "commits ?c"
    by (simp_all add: commits_def commit_header_def)
  have p: "progress_ok (binlogProgress ?s)" "open_gtid (binlogProgress ?s) = {}" "trxBoundaryParser (binlogProgress ?s) = EventParserNone"
    "h_EventType gtid_header = GTID_EVENT" "map (snd \<circ> snd) ?cs = EventBoundaryTypeBeginTrx # replicate 0 EventBoundaryTypeStatement"
    "executed (binlogProgress ?s) = {}"
    using fresh_ok by (simp_all add: sample_server_ok fresh_progress_def gtid_header_def)
  show ?thesis
    using committed_gtid_lost [OF r sample_server_ok(1) p(1,3,2) c p(4,5) sample_carries(4) [of 3, folded commit_entry_def] q
        sample_carries(1) [of 4, folded next_entry_def] p(4)] r p(6)
    by auto
qed

end
