(* ===== verification/Binlog_Server.thy ===== *)
theory Binlog_Server
  imports Binlog_Syncer Disk_Properties Apply_Properties
begin

text \<open>
  The binlog server, from which slaves read the events: \<^verbatim>\<open>src/server/binlog_server.go\<close> with the slaves of
  \<^verbatim>\<open>src/mysql/status.go\<close>. A connection is known by its \<^verbatim>\<open>connectionID\<close>; the server records which connections it has
  closed. The goroutine of \<^verbatim>\<open>DumpBinlogAt\<close> is a step function that is run while the log and the applied index
  grow.
\<close>

section \<open>Slaves\<close>

datatype ReplicationState = UNREGISTERED | REGISTERED

record Slave =
  sl_State :: ReplicationState
  sl_ServerID :: u32
  sl_UUID :: string
  sl_HostName :: string
  sl_Port :: u16
  sl_Rank :: u32
  sl_MasterID :: u32
  sl_User :: string
  sl_Password :: string
  sl_ConnectTime :: int
  sl_HeartBeat :: int
  sl_Conn :: u32

text \<open>\<^verbatim>\<open>Slave.Close\<close> closes a connection once.\<close>

definition close_conn :: "u32 \<Rightarrow> u32 list \<Rightarrow> u32 list" where
  "close_conn c closed = (if c \<in> set closed then closed else c # closed)"

record BinlogServer =
  bsv_started :: bool
  slaves :: "(string \<times> Slave) list"
  closed_conns :: "u32 list"

definition NewBinlogServer :: "bool \<Rightarrow> (mysql_error, BinlogServer) outcome" where
  "NewBinlogServer listens = (if listens then Ok \<lparr>bsv_started = False, slaves = [], closed_conns = []\<rparr> else Err ErrConn)"

definition BinlogServer_Stop :: "BinlogServer \<Rightarrow> BinlogServer" where
  "BinlogServer_Stop s =
     (if \<not> bsv_started s then s
      else s\<lparr>bsv_started := False, closed_conns := fold (\<lambda>(_, sl). close_conn (sl_Conn sl)) (slaves s) (closed_conns s)\<rparr>)"

definition RegisterSlave :: "Slave \<Rightarrow> BinlogServer \<Rightarrow> (mysql_error, unit) outcome \<times> BinlogServer" where
  "RegisterSlave slave s =
     (if sl_UUID slave = [] then (Err ErrUUIDIsNull, s)
      else (Ok (), s\<lparr>slaves := AList.update (sl_UUID slave) slave (slaves s)\<rparr>))"

definition GetSlaves :: "BinlogServer \<Rightarrow> (string \<times> Slave) list" where
  "GetSlaves s = slaves s"

text \<open>The slave is closed and dropped. The code also sets its state to \<^verbatim>\<open>UNREGISTERED\<close>, which nobody can read after it is gone
  from the table.\<close>

definition UnregisterSlave :: "string \<Rightarrow> BinlogServer \<Rightarrow> BinlogServer" where
  "UnregisterSlave uuid s =
     (case map_of (slaves s) uuid of
        None \<Rightarrow> s
      | Some sl \<Rightarrow> s\<lparr>slaves := AList.delete uuid (slaves s), closed_conns := close_conn (sl_Conn sl) (closed_conns s)\<rparr>)"

section \<open>Which events a slave gets\<close>

text \<open>\<^verbatim>\<open>skipEvent\<close>; a GTID event that is too short for its header and checksum ends the process, like every panic of
  this goroutine.\<close>

definition skipEvent :: "BinlogEvent \<Rightarrow> MysqlGTIDSet \<Rightarrow> bool \<Rightarrow> (storage_error, bool) outcome" where
  "skipEvent event slaveGtids inExcludeGroup =
     (let t = ucast (ev_Type event) :: EventType; data = nil_bytes (ev_Data event)
      in if t = GTID_EVENT then
           if length data < EventHeaderSize + BinlogChecksumLength then Crash
           else
             (case GTIDEvent_Decode (event_body data) of
                Crash \<Rightarrow> Crash
              | Err _ \<Rightarrow> Ok True
              | Ok e \<Rightarrow>
                  if length (ge_SID e) \<noteq> 16 then Ok True
                  else (case ParseMysqlGTIDSet (UUID_String (ge_SID e) @ '':'' @ Sprintd (GNO e)) of
                          None \<Rightarrow> Ok True
                        | Some currentGtidset \<Rightarrow> Ok (GTIDSet_Contain slaveGtids currentGtidset)))
         else if t = ROTATE_EVENT then Ok False
         else Ok inExcludeGroup)"

text \<open>The state of the goroutine: its reader and what it has sent to the channel of events.\<close>

record dump =
  reader :: DiskEntryReader
  inExcludeGroup :: bool
  eventC :: "BinlogEvent list"

definition DumpBinlogAt :: "DiskStorage \<Rightarrow> u64 \<Rightarrow> (storage_error, dump) outcome" where
  "DumpBinlogAt s startRaftIndex =
     obind (NewEntryReaderAt s startRaftIndex) (\<lambda>r. Ok \<lparr>reader = r, inExcludeGroup = False, eventC = []\<rparr>)"

text \<open>
  One round of its loop, with the storage and the applied index of that moment. \<open>cancelled\<close>: a \<^verbatim>\<open>select\<close> in the
  round takes the branch of the cancelled context. An error is what the goroutine ends with.
\<close>

definition dump_step :: "DiskStorage \<Rightarrow> u64 \<Rightarrow> bool \<Rightarrow> MysqlGTIDSet \<Rightarrow> dump \<Rightarrow> (dump, unit) res" where
  "dump_step s appliedNow cancelled slaveGtids d =
     (if NextRaftIndex (reader d) \<le> appliedNow then
        sbind (GetNext s (reader d)) (\<lambda>r. d\<lparr>reader := r\<rparr>) (\<lambda>raftEntry d.
          if \<not> IsBinlogEvent raftEntry then (Ok (), d)
          else
            (case DecodeBinlogEvent raftEntry of
               Ok event \<Rightarrow>
                 sbind (skipEvent event slaveGtids (inExcludeGroup d), d) (\<lambda>d. d) (\<lambda>skip d.
                   let d = d\<lparr>inExcludeGroup := skip\<rparr>
                   in if skip then (Ok (), d)
                      else if cancelled then (Err ErrClosed, d)
                      else (Ok (), d\<lparr>eventC := eventC d @ [event]\<rparr>))
             | _ \<Rightarrow> (Crash, d)))
      else if cancelled then (Err ErrClosed, d) else (Ok (), d))"

section \<open>What the server answers\<close>

definition GetMySQLDumpAt :: "os \<Rightarrow> MetaStore \<Rightarrow> MysqlGTIDSet \<Rightarrow> (storage_error, u64) outcome" where
  "GetMySQLDumpAt os st slaveExecutedGtids = GetPreviousGtidSet os st slaveExecutedGtids"

text \<open>\<^verbatim>\<open>CheckGtidSet\<close>: the error of reading the purged set is not looked at; the set is then nil, which no set contains.\<close>

definition CheckGtidSet ::
    "os \<Rightarrow> MetaStore \<Rightarrow> string \<Rightarrow> MysqlGTIDSet \<Rightarrow> (storage_error, unit) outcome" where
  "CheckGtidSet os st executedStr slaveExecutedGtids =
     (case ParseMysqlGTIDSet executedStr of
        None \<Rightarrow> Err ErrGtid
      | Some masterExecutedGtids \<Rightarrow>
          if list_ex (\<lambda>(uid, slaveSet).
               case map_of masterExecutedGtids uid of
                 None \<Rightarrow> False
               | Some masterSet \<Rightarrow> \<not> IntervalSlice_Contain (Intervals masterSet) (Intervals slaveSet)) slaveExecutedGtids
          then Err ErrNotContain
          else
            (case GetGtidSet os st MySQLFlavor GtidPurgedKey of
               Ok purgedGtidSet \<Rightarrow> if GTIDSet_Contain slaveExecutedGtids purgedGtidSet then Ok () else Err ErrNotContain
             | Err _ \<Rightarrow> Err ErrNotContain
             | Crash \<Rightarrow> Crash))"

text \<open>\<^verbatim>\<open>GetFde\<close>: an error of the store is logged and not returned.\<close>

definition BinlogServer_GetFde :: "os \<Rightarrow> MetaStore \<Rightarrow> u64 \<Rightarrow> (storage_error, bytes) outcome" where
  "BinlogServer_GetFde os st preGtidEventIndex =
     (if preGtidEventIndex = 0 then Err ErrArgsIllegal
      else (case GetFde os st preGtidEventIndex of Ok fde \<Rightarrow> Ok fde | Err _ \<Rightarrow> Ok [] | Crash \<Rightarrow> Crash))"

definition BinlogServer_GetNextBinlogFile :: "os \<Rightarrow> MetaStore \<Rightarrow> u64 \<Rightarrow> (storage_error, string) outcome" where
  "BinlogServer_GetNextBinlogFile os st startRaftIndex = GetNextBinlogFile os st startRaftIndex"

definition BinlogServer_GetMasterInfo ::
    "(bytes \<Rightarrow> MasterInfo option) \<Rightarrow> os \<Rightarrow> MetaStore \<Rightarrow> (storage_error, MasterInfo) outcome" where
  "BinlogServer_GetMasterInfo unmarshal os st =
     obind (Get os st MasterInfoKey) (\<lambda>buf.
       case buf of
         None \<Rightarrow> Ok \<lparr>mi_ServerID = 0, mi_ServerUUID = [], mi_Version = []\<rparr>
       | Some b \<Rightarrow> (case unmarshal b of None \<Rightarrow> Err ErrJson | Some m \<Rightarrow> Ok m))"

section \<open>The events that are delivered\<close>

text \<open>The GTID events that \<^const>\<open>skipEvent\<close> can read.\<close>

definition ev_gtid :: "BinlogEvent \<Rightarrow> (string \<times> int) set" where
  "ev_gtid e = gtid_of (gtid_text (ev_bytes e))"

definition readable :: "BinlogEvent \<Rightarrow> bool" where
  "readable e \<longleftrightarrow> (ev_type e = GTID_EVENT \<longrightarrow>
     EventHeaderSize + BinlogChecksumLength \<le> length (ev_bytes e) \<and>
     (\<exists>g. GTIDEvent_Decode (event_body (ev_bytes e)) = Ok g \<and> length (ge_SID g) = 16 \<and>
        ParseUUIDSet (gtid_text (ev_bytes e)) \<noteq> None))"

text \<open>The group of an event starts with the last GTID or rotate event up to it. The event is excluded when that is a GTID
  event with a transaction that the slave has.\<close>

definition starts_group :: "BinlogEvent \<Rightarrow> bool" where
  "starts_group e \<longleftrightarrow> ev_type e = GTID_EVENT \<or> ev_type e = ROTATE_EVENT"

definition excluded :: "MysqlGTIDSet \<Rightarrow> BinlogEvent list \<Rightarrow> nat \<Rightarrow> bool" where
  "excluded slaveGtids evs i \<longleftrightarrow>
     (\<exists>g\<le>i. ev_type (evs ! g) = GTID_EVENT \<and> ev_gtid (evs ! g) \<subseteq> gtids slaveGtids \<and> (\<forall>m. g < m \<and> m \<le> i \<longrightarrow> \<not> starts_group (evs ! m)))"

lemma no_comma:
  assumes "ParseUUIDSet t \<noteq> None" "CHR '','' \<notin> set t"
  shows "\<exists>g. ParseMysqlGTIDSet t = Some g \<and> wf_gtids g \<and> gtids g = gtid_of t"
proof -
  obtain u where u: "ParseUUIDSet t = Some u" using assms(1) by blast
  then have "t \<noteq> []" by (auto simp: ParseUUIDSet_def TrimSpace_def split: list.splits)
  then have "ParseMysqlGTIDSet t = Some (AddSet [] u)" using u Split_single [OF assms(2)] by (simp add: ParseMysqlGTIDSet_def)
  moreover have "wf_gtids []" "gtids [] = {}" by (simp_all add: wf_gtids_def gtids_def)
  ultimately show ?thesis using AddSet_wf [OF _ ParseUUIDSet_wf [OF u]] u by (auto simp: gtid_of_def)
qed

lemma gtid_text_no_comma:
  assumes "length u = 16"
  shows "CHR '','' \<notin> set (UUID_String u @ '':'' @ Sprintd i)"
proof -
  have "CHR '','' \<notin> set (UUID_String u)" using UUID_String_chars(2) [OF assms] by (auto simp: plain_def)
  moreover have "CHR '','' \<notin> set (dec n)" for n using dec_plain(1) [of n] by (auto simp: list_all_iff plain_def)
  ultimately show ?thesis by (simp add: Sprintd_def)
qed

lemma skipEvent_readable:
  assumes "readable e" "wf_gtids slaveGtids"
  shows "skipEvent e slaveGtids ex =
    Ok (if ev_type e = GTID_EVENT then ev_gtid e \<subseteq> gtids slaveGtids else if ev_type e = ROTATE_EVENT then False else ex)"
proof (cases "ev_type e = GTID_EVENT")
  case True
  let ?d = "ev_bytes e"
  obtain g where g: "EventHeaderSize + BinlogChecksumLength \<le> length ?d" "GTIDEvent_Decode (event_body ?d) = Ok g"
    "length (ge_SID g) = 16" "ParseUUIDSet (gtid_text ?d) \<noteq> None"
    using assms(1) True by (auto simp: readable_def)
  have t: "gtid_text ?d = UUID_String (ge_SID g) @ '':'' @ Sprintd (GNO g)" using g(2) by (simp add: gtid_text_def)
  obtain c where c: "ParseMysqlGTIDSet (gtid_text ?d) = Some c" "wf_gtids c" "gtids c = gtid_of (gtid_text ?d)"
    using no_comma [OF g(4)] gtid_text_no_comma [OF g(3)] unfolding t by blast
  show ?thesis
    using True g c(1) [unfolded t] c(3) GTIDSet_Contain_iff [OF assms(2) c(2)]
    by (simp add: skipEvent_def ev_type_def ev_bytes_def ev_gtid_def Let_def)
next
  case False
  then show ?thesis by (simp add: skipEvent_def ev_type_def Let_def)
qed

lemma excluded_snoc:
  assumes "i < length evs"
  shows "excluded sg (evs @ [e]) i \<longleftrightarrow> excluded sg evs i"
  using assms unfolding excluded_def by (intro ex_cong1) (auto simp: nth_append)

lemma excluded_last:
  "excluded sg (evs @ [e]) (length evs) \<longleftrightarrow>
     (if ev_type e = GTID_EVENT then ev_gtid e \<subseteq> gtids sg else if ev_type e = ROTATE_EVENT then False
      else evs \<noteq> [] \<and> excluded sg evs (length evs - 1))"
proof (cases "starts_group e")
  case True
  then have "excluded sg (evs @ [e]) (length evs) \<longleftrightarrow> ev_type e = GTID_EVENT \<and> ev_gtid e \<subseteq> gtids sg"
    unfolding excluded_def by (auto simp: nth_append less_le intro!: exI [of _ "length evs"])
  then show ?thesis using True by (auto simp: starts_group_def event_types)
next
  case False
  have "P \<longleftrightarrow> evs \<noteq> [] \<and> Q"
    if "P \<longleftrightarrow> (\<exists>g<length evs. R g)" "Q \<longleftrightarrow> (\<exists>g\<le>length evs - 1. R g)" for P Q R
    using that by (cases evs) (auto simp: less_Suc_eq_le)
  moreover have "excluded sg (evs @ [e]) (length evs) \<longleftrightarrow>
      (\<exists>g<length evs. ev_type (evs ! g) = GTID_EVENT \<and> ev_gtid (evs ! g) \<subseteq> gtids sg \<and>
        (\<forall>m. g < m \<and> m \<le> length evs - 1 \<longrightarrow> \<not> starts_group (evs ! m)))" (is "?l \<longleftrightarrow> ?r")
  proof
    assume ?l
    then obtain g where g: "g \<le> length evs" "ev_type ((evs @ [e]) ! g) = GTID_EVENT" "ev_gtid ((evs @ [e]) ! g) \<subseteq> gtids sg"
      "\<And>m. g < m \<Longrightarrow> m \<le> length evs \<Longrightarrow> \<not> starts_group ((evs @ [e]) ! m)" unfolding excluded_def by blast
    then have "g \<noteq> length evs" using False by (auto simp: starts_group_def)
    moreover have "\<not> starts_group (evs ! m)" if "g < m" "m \<le> length evs - 1" for m
    proof -
      have "m < length evs" using that by linarith
      then show ?thesis using g(4) [of m] that(1) by (simp add: nth_append)
    qed
    ultimately show ?r using g(1-3) by (intro exI [of _ g]) (auto simp: nth_append)
  next
    assume ?r
    then obtain g where "g < length evs" "ev_type (evs ! g) = GTID_EVENT" "ev_gtid (evs ! g) \<subseteq> gtids sg"
      "\<forall>m. g < m \<and> m \<le> length evs - 1 \<longrightarrow> \<not> starts_group (evs ! m)" by blast
    then show ?l using False unfolding excluded_def by (intro exI [of _ g]) (auto simp: nth_append)
  qed
  ultimately show ?thesis using False by (simp add: excluded_def starts_group_def)
qed
text \<open>
  The applied entries never change: \<open>C\<close> gives the entry of each index. A moment is a state of the storage with an
  applied index that it has; at each moment the storage holds those entries that it has not purged.
\<close>

definition moment :: "(nat \<Rightarrow> Entry) \<Rightarrow> nat \<times> DiskStorage \<times> nat \<Rightarrow> bool" where
  "moment C m = (case m of (n, s, appl) \<Rightarrow>
     appl < 2 ^ 64 - 1 \<and> (\<exists>N es. disk_log N s n es \<and> appl < n + length es \<and> (\<forall>k. n + k \<le> appl \<longrightarrow> es ! k = C (n + k))))"

fun dump_run :: "(nat \<times> DiskStorage \<times> nat) list \<Rightarrow> MysqlGTIDSet \<Rightarrow> dump \<Rightarrow> (dump, unit) res" where
  "dump_run [] sg d = (Ok (), d)"
| "dump_run ((n, s, appl) # ms) sg d = sbind (dump_step s (of_nat appl) False sg d) (\<lambda>d. d) (\<lambda>_. dump_run ms sg)"

definition entry_event :: "Entry \<Rightarrow> BinlogEvent" where
  "entry_event e = (case DecodeBinlogEvent e of Ok ev \<Rightarrow> ev)"

definition log_events :: "(nat \<Rightarrow> Entry) \<Rightarrow> nat \<Rightarrow> nat \<Rightarrow> BinlogEvent list" where
  "log_events C a b = map entry_event (filter IsBinlogEvent (map C [a..<b]))"

definition log_readable :: "(nat \<Rightarrow> Entry) \<Rightarrow> bool" where
  "log_readable C \<longleftrightarrow> (\<forall>i. IsBinlogEvent (C i) \<longrightarrow> DecodeBinlogEvent (C i) = Ok (entry_event (C i)) \<and> readable (entry_event (C i)))"

definition wanted :: "MysqlGTIDSet \<Rightarrow> BinlogEvent list \<Rightarrow> BinlogEvent list" where
  "wanted sg evs = nths evs {i. \<not> excluded sg evs i}"

definition dumped :: "(nat \<Rightarrow> Entry) \<Rightarrow> MysqlGTIDSet \<Rightarrow> nat \<Rightarrow> nat \<Rightarrow> dump \<Rightarrow> bool" where
  "dumped C sg a b d \<longleftrightarrow> a \<le> b \<and> indexReadAt (reader d) = of_nat b \<and> eventC d = wanted sg (log_events C a b) \<and>
     inExcludeGroup d = (log_events C a b \<noteq> [] \<and> excluded sg (log_events C a b) (length (log_events C a b) - 1))"

lemma wanted_snoc:
  "wanted sg (evs @ [e]) = wanted sg evs @ (if excluded sg (evs @ [e]) (length evs) then [] else [e])"
proof -
  have "nths evs {i. \<not> excluded sg (evs @ [e]) i} = nths evs {i. \<not> excluded sg evs i}"
    unfolding nths_def by (intro arg_cong [of _ _ "map fst"] filter_cong refl) (auto simp: excluded_snoc dest: set_zip_rightD)
  then show ?thesis by (simp add: wanted_def nths_append)
qed

lemma log_events_Suc:
  assumes "a \<le> b"
  shows "log_events C a (Suc b) = log_events C a b @ (if IsBinlogEvent (C b) then [entry_event (C b)] else [])"
  using assms by (simp add: log_events_def)

lemma dump_step_reads:
  assumes m: "moment C (n, s, appl)" and r: "log_readable C" and w: "wf_gtids sg"
    and d: "dumped C sg a b d" and b: "n \<le> b" "b \<le> appl"
  shows "\<exists>d'. dump_step s (of_nat appl) False sg d = (Ok (), d') \<and> dumped C sg a (Suc b) d'"
proof -
  obtain N es where l: "disk_log N s n es" "appl < n + length es" "\<And>k. n + k \<le> appl \<Longrightarrow> es ! k = C (n + k)"
    and "appl < 2 ^ 64 - 1" using m by (auto simp: moment_def)
  then have i: "indexReadAt (reader d) \<le> of_nat appl"
    using d b by (simp add: dumped_def of_nat_word_less_eq_iff take_bit_nat_eq_self)
  have "reader d = \<lparr>indexReadAt = of_nat (n + (b - n))\<rparr>" using d b by (simp add: dumped_def)
  then have g: "GetNext s (reader d) = (Ok (C b), \<lparr>indexReadAt = of_nat (Suc b)\<rparr>)"
    using ds.read_one [OF l(1), of "b - n" noLimit] l(2) l(3) [of "b - n"] b by (simp add: GetNext_def)
  show ?thesis
  proof (cases "IsBinlogEvent (C b)")
    case True
    then have e: "DecodeBinlogEvent (C b) = Ok (entry_event (C b))" "readable (entry_event (C b))" using r by (auto simp: log_readable_def)
    then show ?thesis
      using d i g True skipEvent_readable [OF e(2) w, of "inExcludeGroup d"]
      by (auto simp: dump_step_def NextRaftIndex_def dumped_def log_events_Suc wanted_snoc excluded_last Let_def)
  qed (use d i g in \<open>auto simp: dump_step_def NextRaftIndex_def dumped_def log_events_Suc Let_def\<close>)
qed
text \<open>The index that the goroutine reads next after the given moments.\<close>

fun dump_index :: "(nat \<times> DiskStorage \<times> nat) list \<Rightarrow> nat \<Rightarrow> nat" where
  "dump_index [] b = b"
| "dump_index ((n, s, appl) # ms) b = dump_index ms (if b \<le> appl then Suc b else b)"

lemma dump_index_bounds:
  "b \<le> dump_index ms b"
  "\<lbrakk>\<forall>(n, s, appl) \<in> set ms. appl \<le> t; b \<le> Suc t\<rbrakk> \<Longrightarrow> dump_index ms b \<le> Suc t"
  "\<lbrakk>\<forall>(n, s, appl) \<in> set ms. t \<le> appl; Suc t \<le> b + length ms\<rbrakk> \<Longrightarrow> Suc t \<le> dump_index ms b"
proof (induction ms b rule: dump_index.induct)
  case (2 n s appl ms b)
  { case 1 then show ?case using 2(1) by (auto split: if_splits)
  next case 2 then show ?case using "2.IH"(2) by (auto split: if_splits)
  next case 3 then show ?case using "2.IH"(1,3) by (auto split: if_splits) }
qed auto

lemma dump_run_dumped:
  assumes "log_readable C" "wf_gtids sg" "list_all (moment C) ms" "\<forall>(n, s, appl) \<in> set ms. n \<le> a" "dumped C sg a b d" "b < 2 ^ 64"
  shows "\<exists>d'. dump_run ms sg d = (Ok (), d') \<and> dumped C sg a (dump_index ms b) d'"
  using assms(3-6)
proof (induction ms b arbitrary: d rule: dump_index.induct)
  case (2 n s appl ms b)
  have m: "moment C (n, s, appl)" "appl < 2 ^ 64 - 1" "n \<le> b" using 2(2,3,4) by (auto simp: moment_def dumped_def)
  obtain d1 where d1: "dump_step s (of_nat appl) False sg d = (Ok (), d1)" "dumped C sg a (if b \<le> appl then Suc b else b) d1"
  proof (cases "b \<le> appl")
    case True
    then show ?thesis using dump_step_reads [OF m(1) assms(1,2) 2(4) m(3)] that by auto
  next
    case False
    then have "\<not> indexReadAt (reader d) \<le> of_nat appl"
      using 2(4,5) m(2) by (simp add: dumped_def of_nat_word_less_eq_iff take_bit_nat_eq_self)
    then show ?thesis using 2(4) False that by (simp add: dump_step_def NextRaftIndex_def)
  qed
  have "(if b \<le> appl then Suc b else b) < 2 ^ 64" using m(2) 2(5) by auto
  then show ?case using 2(1) [OF _ _ d1(2)] 2(2,3) d1(1) by simp
qed simp

lemma DumpBinlogAt_dumped:
  assumes "DumpBinlogAt s (of_nat a) = Ok d"
  shows "dumped C sg a a d"
  using assms by (auto simp: DumpBinlogAt_def NewEntryReaderAt_def dumped_def log_events_def wanted_def obind_def
      split: outcome.splits if_splits option.splits)

lemma wanted_prefix: "\<exists>ys. wanted sg (xs @ zs) = wanted sg xs @ ys"
proof (induction zs rule: rev_induct)
  case (snoc z zs)
  then show ?case using wanted_snoc [of sg "xs @ zs" z] by auto
qed simp

lemma log_events_split: "\<lbrakk>a \<le> b; b \<le> c\<rbrakk> \<Longrightarrow> log_events C a c = log_events C a b @ log_events C b c"
  using upt_add_eq_append [of a b "c - b"] by (simp add: log_events_def)

text \<open>C9: the goroutine of \<^verbatim>\<open>DumpBinlogAt\<close>, run at any moments while entries are appended, applied and purged below its
  start, sends exactly the binlog events of the entries that it has passed, in their order and without those of the
  transactions that the slave has executed, and it never passes the highest applied index of those moments.\<close>

theorem dump_delivers:
  assumes "list_all (moment C) ms" "\<forall>(n, s, appl) \<in> set ms. n \<le> a" "log_readable C" "wf_gtids sg"
    and "DumpBinlogAt s0 (of_nat a) = Ok d0" "a < 2 ^ 64"
  shows "\<exists>b d. dump_run ms sg d0 = (Ok (), d) \<and> a \<le> b \<and> NextRaftIndex (reader d) = of_nat b \<and>
    eventC d = wanted sg (log_events C a b) \<and>
    (\<forall>t. (\<forall>(n, s, appl) \<in> set ms. appl \<le> t) \<and> a \<le> Suc t \<longrightarrow> b \<le> Suc t)"
proof -
  obtain d where "dump_run ms sg d0 = (Ok (), d)" "dumped C sg a (dump_index ms a) d"
    using dump_run_dumped [OF assms(3,4,1,2) DumpBinlogAt_dumped [OF assms(5)] assms(6)] by blast
  then show ?thesis using dump_index_bounds(1) [of a ms] dump_index_bounds(2)
    by (intro exI [of _ "dump_index ms a"] exI [of _ d]) (auto simp: dumped_def NextRaftIndex_def)
qed

text \<open>C10: an event that is applied reaches the slave: once the goroutine has had as many rounds as there are entries
  from its start to the index \<open>t\<close>, all of them at moments where \<open>t\<close> is applied, it has sent every wanted event up to
  \<open>t\<close>.\<close>

theorem dump_catches_up:
  assumes "list_all (moment C) ms" "\<forall>(n, s, appl) \<in> set ms. n \<le> a \<and> t \<le> appl" "log_readable C" "wf_gtids sg"
    and "DumpBinlogAt s0 (of_nat a) = Ok d0" "a < 2 ^ 64" "a \<le> t" "Suc t \<le> a + length ms"
  shows "\<exists>d more. dump_run ms sg d0 = (Ok (), d) \<and> eventC d = wanted sg (log_events C a (Suc t)) @ more"
proof -
  have m: "\<forall>(n, s, appl) \<in> set ms. n \<le> a" "\<forall>(n, s, appl) \<in> set ms. t \<le> appl" using assms(2) by auto
  obtain d where d: "dump_run ms sg d0 = (Ok (), d)" "dumped C sg a (dump_index ms a) d"
    using dump_run_dumped [OF assms(3,4,1) m(1) DumpBinlogAt_dumped [OF assms(5)] assms(6)] by blast
  have "Suc t \<le> dump_index ms a" using dump_index_bounds(3) [OF m(2) assms(8)] .
  then show ?thesis using d log_events_split [of a "Suc t" "dump_index ms a" C] assms(7) wanted_prefix [of sg "log_events C a (Suc t)"]
    by (auto simp: dumped_def)
qed
section \<open>Which slaves are accepted\<close>

lemma parse_sets_wf: "\<lbrakk>wf_gtids s; parse_sets s ps = Some g\<rbrakk> \<Longrightarrow> wf_gtids g"
proof (induction s ps rule: parse_sets.induct)
  case (2 s p ps)
  then show ?case using AddSet_wf [OF 2(2)] ParseUUIDSet_wf by (auto split: option.splits)
qed simp

lemma ParseMysqlGTIDSet_wf: "ParseMysqlGTIDSet str = Some g \<Longrightarrow> wf_gtids g"
  using parse_sets_wf [of "[]"] by (auto simp: ParseMysqlGTIDSet_def wf_gtids_def split: if_splits)

lemma known_contained:
  assumes "wf_gtids slave" "wf_gtids master"
  shows "list_ex (\<lambda>(uid, slaveSet). case map_of master uid of None \<Rightarrow> False
      | Some masterSet \<Rightarrow> \<not> IntervalSlice_Contain (Intervals masterSet) (Intervals slaveSet)) slave \<longleftrightarrow>
    \<not> {(u, i) \<in> gtids slave. u \<in> fst ` set master} \<subseteq> gtids master" (is "?l \<longleftrightarrow> ?r")
proof -
  have "(case map_of master u of None \<Rightarrow> False | Some m \<Rightarrow> \<not> IntervalSlice_Contain (Intervals m) (Intervals w)) \<longleftrightarrow>
      \<not> (\<forall>i \<in> covers (Intervals w). u \<in> fst ` set master \<longrightarrow> (u, i) \<in> gtids master)" if w: "(u, w) \<in> set slave" for u w
  proof (cases "map_of master u")
    case None
    then have "u \<notin> fst ` set master" by (simp add: map_of_eq_None_iff)
    then show ?thesis using None by simp
  next
    case (Some m)
    then have m: "(u, m) \<in> set master" by (rule map_of_SomeD)
    then have "u \<in> fst ` set master" by (auto intro!: image_eqI [of _ fst "(u, m)"])
    moreover have "(u, i) \<in> gtids master \<longleftrightarrow> i \<in> covers (Intervals m)" for i
    proof -
      have "(u, m') \<in> set master \<longleftrightarrow> m' = m" for m'
        using Some wf_gtids_map_of [OF assms(2), of u m'] by auto
      then show ?thesis by (simp add: gtids_def)
    qed
    ultimately show ?thesis
      using Some Contain_iff [OF wf_gtidsD(3) [OF assms(2) m] wf_gtidsD(3) [OF assms(1) w]] by auto
  qed
  then have "?l \<longleftrightarrow> (\<exists>(u, w) \<in> set slave. \<not> (\<forall>i \<in> covers (Intervals w). u \<in> fst ` set master \<longrightarrow> (u, i) \<in> gtids master))"
    unfolding list_ex_iff by (intro bex_cong) auto
  also have "\<dots> \<longleftrightarrow> ?r" unfolding gtids_def [of slave] by blast
  finally show ?thesis .
qed

text \<open>C14: \<^verbatim>\<open>CheckGtidSet\<close> accepts a slave exactly when it has no transaction beyond the master's of a server that the
  master knows, and all those that the master has purged.\<close>

theorem CheckGtidSet_accepts:
  assumes "ParseMysqlGTIDSet str = Some master" "wf_gtids slave"
    and "GetGtidSet os st MySQLFlavor GtidPurgedKey = Ok purged" "wf_gtids purged"
  shows "CheckGtidSet os st str slave =
    (if {(u, i) \<in> gtids slave. u \<in> fst ` set master} \<subseteq> gtids master \<and> gtids purged \<subseteq> gtids slave
     then Ok () else Err ErrNotContain)"
  unfolding CheckGtidSet_def assms(1,3) option.case outcome.case known_contained [OF assms(2) ParseMysqlGTIDSet_wf [OF assms(1)]]
    GTIDSet_Contain_iff [OF assms(2,4)]
  by simp

theorem CheckGtidSet_accepts_witness:
  "CheckGtidSet os_ok empty_store sample_gtid [] = Ok () \<and> CheckGtidSet os_ok empty_store [] sample_set = Ok ()"
proof -
  have p: "ParseMysqlGTIDSet sample_gtid = Some sample_set" "ParseMysqlGTIDSet [] = Some []" by code_simp+
  have g: "GetGtidSet os_ok empty_store MySQLFlavor GtidPurgedKey = Ok []"
  proof -
    have "path_Join MySQLFlavor GtidPurgedKey \<noteq> []" by code_simp
    then show ?thesis by (simp add: GetGtidSet_def Get_def View_def empty_store_def)
  qed
  have w: "wf_gtids []" "wf_gtids sample_set" "gtids [] = {}" using ParseMysqlGTIDSet_wf [OF p(1)] ParseMysqlGTIDSet_wf [OF p(2)] by (simp_all add: gtids_def)
  show ?thesis
    using CheckGtidSet_accepts [OF p(1) w(1) g w(1)] CheckGtidSet_accepts [OF p(2) w(2) g w(1)] by (simp add: w(3))
qed

section \<open>The table of slaves\<close>

text \<open>The slaves are kept by their uuid, and a connection that is closed stays closed.\<close>

definition slaves_ok :: "BinlogServer \<Rightarrow> bool" where
  "slaves_ok s \<longleftrightarrow> (\<forall>u sl. map_of (slaves s) u = Some sl \<longrightarrow> u = sl_UUID sl \<and> u \<noteq> [])"

lemma slaves_ok_ops:
  assumes "slaves_ok s"
  shows "slaves_ok (snd (RegisterSlave sl s))" "slaves_ok (UnregisterSlave u s)" "slaves_ok (BinlogServer_Stop s)"
  using assms
  by (auto simp: slaves_ok_def RegisterSlave_def UnregisterSlave_def BinlogServer_Stop_def update_conv' delete_conv' split: option.splits if_splits)

lemma closed_conns_mono:
  "set (closed_conns s) \<subseteq> set (closed_conns (UnregisterSlave u s))"
  "closed_conns (snd (RegisterSlave sl s)) = closed_conns s"
  by (auto simp: RegisterSlave_def UnregisterSlave_def close_conn_def split: option.splits)

lemma RegisterSlave_lookup:
  "sl_UUID sl \<noteq> [] \<Longrightarrow> map_of (GetSlaves (snd (RegisterSlave sl s))) = (map_of (GetSlaves s))(sl_UUID sl \<mapsto> sl)"
  by (simp add: RegisterSlave_def GetSlaves_def update_conv')

lemma UnregisterSlave_closes:
  assumes "map_of (GetSlaves s) u = Some sl"
  shows "map_of (GetSlaves (UnregisterSlave u s)) = (map_of (GetSlaves s))(u := None)"
    "sl_Conn sl \<in> set (closed_conns (UnregisterSlave u s))"
  using assms by (auto simp: UnregisterSlave_def GetSlaves_def delete_conv' close_conn_def)

lemma fold_close: "set (fold (\<lambda>(_, sl). close_conn (sl_Conn sl)) ls cs) = set cs \<union> (sl_Conn \<circ> snd) ` set ls"
  by (induction ls arbitrary: cs) (auto simp: close_conn_def split: if_splits)

lemma Stop_closes: "bsv_started s \<Longrightarrow> set (closed_conns (BinlogServer_Stop s)) = set (closed_conns s) \<union> (sl_Conn \<circ> snd) ` set (GetSlaves s)"
  by (simp add: BinlogServer_Stop_def GetSlaves_def fold_close)

section \<open>A sample\<close>

text \<open>The three events of a transaction, on disk.\<close>

lemma binlog_entry_frame:
  assumes "event_ok h body (replicate 4 0)"
  shows "length (frame (binlog_entry i h body)) \<le> 200 + unat (EventSize h)"
proof -
  let ?ev = "sample_event h body" and ?e = "binlog_entry i h body"
  have "length (event_bytes h body (replicate 4 0)) = unat (EventSize h)" by (rule EventHeader_Decode_bytes(3) [OF assms])
  then have "BinlogEvent_Size ?ev \<le> 55 + unat (EventSize h)"
    using sovRecord_le_10 [of "ucast (ev_Type ?ev)"] sovRecord_le_10 [of 0]  sovRecord_le_10 [of "of_nat (unat (EventSize h))"]
    by (simp add: BinlogEvent_Size_def sample_event_def)
  moreover have "Entry_Size ?e \<le> 45 + BinlogEvent_Size ?ev"
    using sovRecord_le_10 [of "scast (EType ?e)"] sovRecord_le_10 [of 1] sovRecord_le_10 [of i]
      sovRecord_le_10 [of "of_nat (Suc (BinlogEvent_Size ?ev))"]
    by (simp add: Entry_Size_def binlog_entry_def length_MarshalTo)
  moreover have "Record_Size (record_of ?e) \<le> 22 + Entry_Size ?e"
    using sovRecord_le_10 [of "ucast (Crc (record_of ?e))"] sovRecord_le_10 [of "of_nat (Entry_Size ?e)"]
    by (simp add: Record_Size_def record_of_def length_Entry_MarshalTo)
  ultimately show ?thesis by (simp add: length_frame)
qed

definition trx_disk :: DiskStorage where
  "trx_disk = snd (SaveRaftEntries os_ok 4096 empty_disk [gtid_entry, begin_entry, xid_entry])"

definition trx_log :: "nat \<Rightarrow> Entry" where
  "trx_log i = (if i = 1 then gtid_entry else if i = 2 then begin_entry else if i = 3 then xid_entry else entry_at 1)"

lemma trx_disk_log: "disk_log 4096 trx_disk 1 [gtid_entry, begin_entry, xid_entry]"
proof -
  let ?es = "[gtid_entry, begin_entry, xid_entry]"
  have l: "length (frame gtid_entry) \<le> 300" "length (frame begin_entry) \<le> 300" "length (frame xid_entry) \<le> 300"
    using binlog_entry_frame [OF sample_events_ok(1), of 1] binlog_entry_frame [OF sample_events_ok(2), of 2]
      binlog_entry_frame [OF sample_events_ok(3), of 3]
    by (simp_all add: gtid_entry_def begin_entry_def xid_entry_def gtid_header_def begin_header_def xid_header_def)
  have f: "list_all fits ?es"
    using l by (simp add: fits_def length_frame) (simp add: gtid_entry_def begin_entry_def xid_entry_def binlog_entry_def)
  have "saveable 4096 (1 + length ([] :: Entry list)) ?es"
    using l f by (simp add: saveable_def) (simp add: gtid_entry_def begin_entry_def xid_entry_def binlog_entry_def)
  note save = SaveRaftEntries_holds [OF empty_disk_holds [of 1 False 4096] this, of os_ok, simplified]
  obtain u t where "SaveRaftEntries os_ok 4096 empty_disk ?es = (Ok u, t)"
    "storage_holds False 4096 t 1 ?es" "settled t" by (rule runs_total [OF save]) auto
  then show ?thesis using l unfolding trx_disk_def disk_log_def by auto
qed
lemma trx_log_moment:
  assumes "t \<le> 3"
  shows "moment trx_log (1, trx_disk, t)"
proof -
  have "[gtid_entry, begin_entry, xid_entry] ! k = trx_log (1 + k)" if k: "1 + k \<le> t" for k
  proof -
    consider "k = 0" | "k = 1" | "k = 2" using assms k by linarith
    then show ?thesis by cases (simp_all add: trx_log_def)
  qed
  then show ?thesis using trx_disk_log assms unfolding moment_def
    by (intro case_prodI conjI exI [of _ 4096] exI [of _ "[gtid_entry, begin_entry, xid_entry]"]) simp_all
qed

lemma trx_log_events:
  "trx_log 1 = gtid_entry" "IsBinlogEvent gtid_entry" "DecodeBinlogEvent gtid_entry = Ok (sample_event gtid_header sample_gtid_body)"
  "trx_log 2 = begin_entry" "IsBinlogEvent begin_entry" "DecodeBinlogEvent begin_entry = Ok (sample_event begin_header begin_body)"
  "trx_log 3 = xid_entry" "IsBinlogEvent xid_entry" "DecodeBinlogEvent xid_entry = Ok (sample_event xid_header (replicate 8 0))"
  "\<not> IsBinlogEvent (entry_at 1)"
  using event_of_binlog_entry [OF sample_events_ok(1), of 1] event_of_binlog_entry [OF sample_events_ok(2), of 2]
    event_of_binlog_entry [OF sample_events_ok(3), of 3]
  by (auto simp: trx_log_def gtid_entry_def begin_entry_def xid_entry_def binlog_entry_def entry_at_def IsBinlogEvent_def
      DecodeBinlogEvent_def event_of_def MySQLBinlogEventType_def split: outcome.splits)

lemma trx_log_readable: "log_readable trx_log"
proof -
  have "readable (sample_event gtid_header sample_gtid_body)"
    using gtid_event_data sample_update
    by (auto simp: readable_def ev_bytes_def sample_event_def GTIDSet_Update_def)
  moreover have "readable (sample_event begin_header begin_body)" "readable (sample_event xid_header (replicate 8 0))"
    by (simp_all add: readable_def ev_type_def sample_event_def begin_header_def xid_header_def ucast_type event_types)
  ultimately show ?thesis
    using trx_log_events by (auto simp: log_readable_def entry_event_def trx_log_def)
qed

lemma trx_dump_at:
  assumes "k < 3"
  shows "\<exists>d. DumpBinlogAt trx_disk (of_nat (1 + k)) = Ok d"
proof -
  obtain ess where "chain 4096 1 (Segments trx_disk) ess" "[gtid_entry, begin_entry, xid_entry] = concat ess"
    using disk_log_chain [OF trx_disk_log] by metis
  moreover from this(2) have "k < length (concat ess)" using assms by (metis length_Cons list.size(3) numeral_3_eq_3)
  ultimately have "checkRaftIndex trx_disk (of_nat (1 + k)) = Ok ()" by (intro checkRaftIndex_chain)
  then show ?thesis by (simp add: DumpBinlogAt_def NewEntryReaderAt_def)
qed

lemma trx_dump: "\<exists>d. DumpBinlogAt trx_disk (of_nat 1) = Ok d"
  using trx_dump_at [of 0] by simp

lemma trx_gtid: "ev_gtid (sample_event gtid_header sample_gtid_body) = gtids sample_set" "gtids sample_set \<noteq> {}"
proof -
  obtain u where u: "ParseUUIDSet sample_gtid = Some u" "AddSet [] u = sample_set" using sample_update by (auto simp: GTIDSet_Update_def)
  then show "ev_gtid (sample_event gtid_header sample_gtid_body) = gtids sample_set"
    using u AddSet_wf [OF _ ParseUUIDSet_wf [OF u(1)], of "[]"] gtid_event_data(3) fresh_ok
    by (simp add: gtids_def [of "[]"] ev_gtid_def ev_bytes_def sample_event_def gtid_of_def)
  have "(''01010101-0101-0101-0101-010101010101'', 5) \<in> gtids sample_set" by (simp add: gtids_def sample_set_def covers_def)
  then show "gtids sample_set \<noteq> {}" by blast
qed

lemma trx_wanted:
  "wanted sg (log_events trx_log 1 4) =
     (if gtids sample_set \<subseteq> gtids sg then []
      else [sample_event gtid_header sample_gtid_body, sample_event begin_header begin_body, sample_event xid_header (replicate 8 0)])"
proof -
  let ?g = "sample_event gtid_header sample_gtid_body" and ?b = "sample_event begin_header begin_body"
    and ?x = "sample_event xid_header (replicate 8 0)"
  have t: "ev_type ?g = GTID_EVENT" "ev_type ?b = QUERY_EVENT" "ev_type ?x = XID_EVENT"
    by (simp_all add: ev_type_def sample_event_def gtid_header_def begin_header_def xid_header_def ucast_type)
  have "[1..<4] = [1, 2, 3 :: nat]" by code_simp
  then have "log_events trx_log 1 4 = [?g, ?b, ?x]"
    using trx_log_events by (simp add: log_events_def entry_event_def)
  then show ?thesis
    using wanted_snoc [of sg "[]" ?g] wanted_snoc [of sg "[?g]" ?b] wanted_snoc [of sg "[?g, ?b]" ?x]
      excluded_last [of sg "[]" ?g] excluded_last [of sg "[?g]" ?b] excluded_last [of sg "[?g, ?b]" ?x] trx_gtid(1)
    by (simp add: t event_types) (simp add: wanted_def)
qed
theorem dump_delivers_witness:
  "\<exists>d0 d b. DumpBinlogAt trx_disk 1 = Ok d0 \<and>
     dump_run [(1, trx_disk, 1), (1, trx_disk, 1), (1, trx_disk, 2)] [] d0 = (Ok (), d) \<and> b \<le> 3 \<and>
     eventC d = wanted [] (log_events trx_log 1 b)"
proof -
  let ?ms = "[(1, trx_disk, 1), (1, trx_disk, 1), (1, trx_disk, 2)] :: (nat \<times> DiskStorage \<times> nat) list"
  obtain d0 where d0: "DumpBinlogAt trx_disk (of_nat 1) = Ok d0" using trx_dump by blast
  have m: "list_all (moment trx_log) ?ms" using trx_log_moment by simp
  have "wf_gtids []" by (rule fresh_ok)
  moreover have "\<forall>(n, s, appl) \<in> set ?ms. n \<le> 1" "(1 :: nat) < 2 ^ 64" by simp_all
  ultimately obtain b d where r: "dump_run ?ms [] d0 = (Ok (), d)" "eventC d = wanted [] (log_events trx_log 1 b)"
    and t: "(\<forall>(n, s, appl) \<in> set ?ms. appl \<le> 2) \<and> 1 \<le> Suc 2 \<longrightarrow> b \<le> Suc 2"
    using dump_delivers [where ms = ?ms and a = 1, OF m _ trx_log_readable _ d0] by blast
  have "b \<le> 3" using t by simp
  then show ?thesis using r d0 unfolding of_nat_1 by blast
qed

theorem dump_catches_up_witness:
  "\<exists>d0 d more. DumpBinlogAt trx_disk 1 = Ok d0 \<and> dump_run (replicate 3 (1, trx_disk, 3)) [] d0 = (Ok (), d) \<and>
     eventC d = [sample_event gtid_header sample_gtid_body, sample_event begin_header begin_body,
       sample_event xid_header (replicate 8 0)] @ more"
proof -
  let ?ms = "replicate 3 (1, trx_disk, 3) :: (nat \<times> DiskStorage \<times> nat) list"
  obtain d0 where d0: "DumpBinlogAt trx_disk (of_nat 1) = Ok d0" using trx_dump by blast
  have m: "list_all (moment trx_log) ?ms" using trx_log_moment by (simp add: list_all_iff)
  have "wf_gtids []" by (rule fresh_ok)
  moreover have "\<forall>(n, s, appl) \<in> set ?ms. n \<le> 1 \<and> 3 \<le> appl" "(1 :: nat) < 2 ^ 64" "(1 :: nat) \<le> 3" "Suc 3 \<le> 1 + length ?ms"
    by simp_all
  ultimately obtain d more where "dump_run ?ms [] d0 = (Ok (), d)" "eventC d = wanted [] (log_events trx_log 1 (Suc 3)) @ more"
    using dump_catches_up [where ms = ?ms and a = 1 and t = 3, OF m _ trx_log_readable _ d0] by blast
  moreover have "\<not> gtids sample_set \<subseteq> gtids []" using trx_gtid(2) by (simp add: gtids_def [of "[]"])
  ultimately show ?thesis using d0 trx_wanted [of "[]"] unfolding of_nat_1 by (simp del: replicate.simps)
qed

end
