(* ===== verification/Mysql_Conn.thy ===== *)
theory Mysql_Conn
  imports Binlog_Server
begin

text \<open>
  A client connection of the binlog server: \<^verbatim>\<open>src/mysql/conn.go\<close>, the handshake of \<^verbatim>\<open>src/mysql/auth.go\<close> and the answers
  of \<^verbatim>\<open>src/mysql/resp.go\<close>, with the vendored helpers they call. The text of an error is a parameter.
\<close>

section \<open>Data\<close>

datatype variable = VInt int | VString string

record Conn =
  base :: BaseConn
  capability :: u32
  connectionID :: u32
  conn_status :: u16
  conn_user :: string
  salt :: bytes
  conn_closed :: bool
  userVariables :: "(string \<times> variable) list"

type_synonym 'a conn_result = "(mysql_error, 'a) outcome \<times> Conn"

abbreviation cbind :: "'a conn_result \<Rightarrow> ('a \<Rightarrow> Conn \<Rightarrow> 'b conn_result) \<Rightarrow> 'b conn_result" where
  "cbind r k \<equiv> sbind r (\<lambda>c. c) k"

definition on_base :: "(BaseConn \<Rightarrow> (mysql_error, 'a) outcome \<times> BaseConn) \<Rightarrow> Conn \<Rightarrow> 'a conn_result" where
  "on_base f c = (case f (base c) of (r, b) \<Rightarrow> (r, c\<lparr>base := b\<rparr>))"

definition CLIENT_CONNECT_WITH_DB :: u32 where "CLIENT_CONNECT_WITH_DB = 2 ^ 3"
definition CLIENT_PROTOCOL_41 :: u32 where "CLIENT_PROTOCOL_41 = 2 ^ 9"

text \<open>\<^verbatim>\<open>CLIENT_LONG_PASSWORD\<close>, \<^verbatim>\<open>CLIENT_LONG_FLAG\<close>, \<^verbatim>\<open>CLIENT_CONNECT_WITH_DB\<close>, \<^verbatim>\<open>CLIENT_PROTOCOL_41\<close>,
  \<^verbatim>\<open>CLIENT_TRANSACTIONS\<close> and \<^verbatim>\<open>CLIENT_SECURE_CONNECTION\<close>.\<close>

definition server_capability :: u32 where
  "server_capability =
     1 OR 2 ^ 2 OR CLIENT_CONNECT_WITH_DB OR CLIENT_PROTOCOL_41 OR 2 ^ 13 OR 2 ^ 15"

definition PutLengthEncodedInt :: "u64 \<Rightarrow> bytes" where
  "PutLengthEncodedInt n =
     (if n \<le> 250 then [ucast n]
      else if n \<le> 0xffff then 0xfc # take 2 (le64 n)
      else if n \<le> 0xffffff then 0xfd # take 3 (le64 n)
      else 0xfe # le64 n)"

definition PutLengthEncodedString :: "bytes \<Rightarrow> bytes" where
  "PutLengthEncodedString b = PutLengthEncodedInt (of_nat (length b)) @ b"

section \<open>Answers\<close>

record Field =
  f_Data :: "bytes option"
  Schema :: bytes
  Table :: bytes
  OrgTable :: bytes
  f_Name :: bytes
  OrgName :: bytes
  Charset :: u16
  ColumnLength :: u32
  f_Type :: byte
  f_Flag :: u16
  Decimal :: byte
  DefaultValueLength :: u64
  DefaultValue :: "bytes option"

definition Field_Dump :: "Field \<Rightarrow> bytes" where
  "Field_Dump f =
     (case f_Data f of
        Some d \<Rightarrow> d
      | None \<Rightarrow>
          PutLengthEncodedString (StringToBytes ''def'') @ PutLengthEncodedString (Schema f) @ PutLengthEncodedString (Table f)
          @ PutLengthEncodedString (OrgTable f) @ PutLengthEncodedString (f_Name f) @ PutLengthEncodedString (OrgName f)
          @ [0x0c] @ le16 (Charset f) @ le32 (ColumnLength f) @ [f_Type f] @ le16 (f_Flag f) @ [Decimal f, 0, 0]
          @ (case DefaultValue f of None \<Rightarrow> [] | Some d \<Rightarrow> le64 (DefaultValueLength f) @ d))"

record Resultset =
  Fields :: "Field list"
  RowDatas :: "bytes list"

text \<open>\<^verbatim>\<open>BuildSimpleResultset\<close> for one column with one value. An empty string is an empty slice without a base, which is
  nil, so that the value is sent as NULL.\<close>

definition BuildSimpleResultset :: "string \<Rightarrow> variable \<Rightarrow> Resultset" where
  "BuildSimpleResultset columnName v =
     (let f = \<lparr>f_Data = None, Schema = [], Table = [], OrgTable = [], f_Name = StringToBytes columnName, OrgName = [],
               Charset = (case v of VInt _ \<Rightarrow> 63 | VString _ \<Rightarrow> 33), ColumnLength = 0,
               f_Type = (case v of VInt _ \<Rightarrow> 8 | VString _ \<Rightarrow> 0xfd),
               f_Flag = (case v of VInt _ \<Rightarrow> 128 OR 1 | VString _ \<Rightarrow> 0), Decimal = 0,
               DefaultValueLength = 0, DefaultValue = None\<rparr>;
          b = StringToBytes (case v of VInt i \<Rightarrow> Sprintd i | VString s \<Rightarrow> s)
      in \<lparr>Fields = [f], RowDatas = [if b = [] then [0xfb] else PutLengthEncodedString b]\<rparr>)"

record Result =
  r_Status :: u16
  InsertId :: u64
  AffectedRows :: u64
  r_Resultset :: "Resultset option"

definition protocol_41 :: "Conn \<Rightarrow> bool" where
  "protocol_41 c \<longleftrightarrow> capability c AND CLIENT_PROTOCOL_41 \<noteq> 0"

definition writeOK :: "net \<Rightarrow> Result option \<Rightarrow> Conn \<Rightarrow> unit conn_result" where
  "writeOK net r c =
     (let r = (case r of None \<Rightarrow> \<lparr>r_Status = 0, InsertId = 0, AffectedRows = 0, r_Resultset = None\<rparr> | Some r \<Rightarrow> r);
          status = r_Status r OR conn_status c
      in on_base (WritePacket net
           (replicate 4 0 @ [0] @ PutLengthEncodedInt (AffectedRows r) @ PutLengthEncodedInt (InsertId r)
            @ (if protocol_41 c then le16 status @ [0, 0] else []))) c)"

text \<open>The code and the state of an error: those of a \<^verbatim>\<open>MyError\<close>, and \<^verbatim>\<open>ER_UNKNOWN_ERROR\<close> otherwise.\<close>

definition error_code :: "mysql_error \<Rightarrow> u16" where
  "error_code e = (case e of ErrNoSuchUser \<Rightarrow> 1449 | ErrAccessDenied \<Rightarrow> 1045 | _ \<Rightarrow> 1105)"

definition error_state :: "mysql_error \<Rightarrow> string" where
  "error_state e = (case e of ErrAccessDenied \<Rightarrow> ''28000'' | _ \<Rightarrow> ''HY000'')"

definition writeError :: "(mysql_error \<Rightarrow> string) \<Rightarrow> net \<Rightarrow> mysql_error \<Rightarrow> Conn \<Rightarrow> unit conn_result" where
  "writeError texts net e c =
     on_base (WritePacket net
       (replicate 4 0 @ [0xff] @ le16 (error_code e)
        @ (if protocol_41 c then StringToBytes (''#'' @ error_state e) else []) @ StringToBytes (texts e))) c"

definition writeEOF :: "net \<Rightarrow> Conn \<Rightarrow> unit conn_result" where
  "writeEOF net c =
     on_base (WritePacket net (replicate 4 0 @ [0xfe] @ (if protocol_41 c then [0, 0] @ le16 (conn_status c) else []))) c"

fun write_packets :: "net \<Rightarrow> bytes list \<Rightarrow> Conn \<Rightarrow> unit conn_result" where
  "write_packets net [] c = (Ok (), c)"
| "write_packets net (p # ps) c =
     cbind (on_base (WritePacket net (replicate 4 0 @ p)) c) (\<lambda>_. write_packets net ps)"

definition writeResultset :: "net \<Rightarrow> Resultset \<Rightarrow> Conn \<Rightarrow> unit conn_result" where
  "writeResultset net r c =
     cbind (on_base (WritePacket net (replicate 4 0 @ PutLengthEncodedInt (of_nat (length (Fields r))))) c) (\<lambda>_ c.
     cbind (write_packets net (map Field_Dump (Fields r)) c) (\<lambda>_ c.
     cbind (writeEOF net c) (\<lambda>_ c.
     cbind (write_packets net (RowDatas r) c) (\<lambda>_ c. writeEOF net c))))"

definition writeFieldList :: "net \<Rightarrow> Field list \<Rightarrow> Conn \<Rightarrow> unit conn_result" where
  "writeFieldList net fs c = cbind (write_packets net (map Field_Dump fs) c) (\<lambda>_ c. writeEOF net c)"
text \<open>What \<^verbatim>\<open>writeValue\<close> is called with; \<open>OtherValue\<close> is a value of any other type.\<close>

datatype response =
  NoResponse | ErrorValue mysql_error | NilValue | ResultValue "Result option" | FieldsValue "Field list" | OtherValue

definition writeValue :: "(mysql_error \<Rightarrow> string) \<Rightarrow> net \<Rightarrow> response \<Rightarrow> Conn \<Rightarrow> unit conn_result" where
  "writeValue texts net value c =
     (case value of
        NoResponse \<Rightarrow> (Ok (), c)
      | ErrorValue e \<Rightarrow> writeError texts net e c
      | NilValue \<Rightarrow> writeOK net None c
      | ResultValue r \<Rightarrow>
          (case Option.bind r r_Resultset of Some rs \<Rightarrow> writeResultset net rs c | None \<Rightarrow> writeOK net r c)
      | FieldsValue fs \<Rightarrow> writeFieldList net fs c
      | OtherValue \<Rightarrow> (Err ErrSQLNotSupport, c))"

section \<open>The handshake\<close>

definition CalcPassword :: "bytes \<Rightarrow> bytes \<Rightarrow> bytes" where
  "CalcPassword scramble password =
     (if password = [] then []
      else
        let stage1 = sha1_Sum password; hash = sha1_Sum stage1
        in map2 (\<lambda>x y. x XOR y) (sha1_Sum (scramble @ hash)) stage1)"

text \<open>\<^verbatim>\<open>RandomBuf\<close>, with the random bytes; None: the system has none.\<close>

definition RandomBuf :: "bytes option \<Rightarrow> bytes option" where
  "RandomBuf rnd = map_option (map (\<lambda>b. if b = 0 then 0x30 else b)) rnd"

definition writeInitialHandshake :: "net \<Rightarrow> string \<Rightarrow> Conn \<Rightarrow> unit conn_result" where
  "writeInitialHandshake net serverVersion c =
     (if length (salt c) < 8 then (Crash, c)
      else on_base (WritePacket net
        (replicate 4 0 @ [10] @ StringToBytes serverVersion @ [0] @ le32 (connectionID c) @ take 8 (salt c) @ [0]
         @ le16 (ucast server_capability) @ [33] @ le16 (conn_status c) @ le16 (ucast (drop_bit 16 server_capability))
         @ [0x15] @ replicate 10 0 @ drop 8 (salt c) @ [0])) c)"

fun IndexByte :: "bytes \<Rightarrow> byte \<Rightarrow> nat option" where
  "IndexByte [] b = None"
| "IndexByte (x # xs) b = (if x = b then Some 0 else map_option Suc (IndexByte xs b))"

text \<open>
  \<^verbatim>\<open>data[a:b]\<close> for a packet. Go slices reach to the capacity of their array, and \<^verbatim>\<open>bytes.Buffer\<close> leaves at least
  \<^verbatim>\<open>bytes.MinRead\<close> zero bytes behind the ones that it has read.
\<close>

definition MinRead :: nat where "MinRead = 512"

definition packet_slice :: "bytes \<Rightarrow> nat \<Rightarrow> nat \<Rightarrow> bytes option" where
  "packet_slice data a b =
     (if a \<le> b \<and> b \<le> length data + MinRead then Some (take (b - a) (drop a (data @ replicate MinRead 0))) else None)"

text \<open>The response starts with the capability, the packet size, the charset and reserved bytes, 32 in all; the name and
  the token follow. The database name after them is read and not used.\<close>

definition check_token :: "bytes \<Rightarrow> bytes \<Rightarrow> nat \<Rightarrow> (mysql_error, unit) outcome" where
  "check_token checkAuth data pos =
     (if length data \<le> pos then Crash
      else
        let authLen = unat (data ! pos); pos = Suc pos
        in case packet_slice data pos (pos + authLen) of
             None \<Rightarrow> Crash
           | Some auth \<Rightarrow>
               if auth \<noteq> checkAuth then Err ErrAccessDenied
               else if length data < pos + authLen then Crash
               else if drop (pos + authLen) data = [] then Ok ()
               else (case IndexByte (drop (pos + authLen) data) 0 of None \<Rightarrow> Crash | Some _ \<Rightarrow> Ok ()))"

definition readHandshakeResponse :: "string \<Rightarrow> Conn \<Rightarrow> unit conn_result" where
  "readHandshakeResponse password c =
     cbind (on_base ReadPacket c) (\<lambda>data c.
       case packet_slice data 0 4 of
         None \<Rightarrow> (Crash, c)
       | Some b \<Rightarrow>
           let c = c\<lparr>capability := the (get_le32 b)\<rparr>
           in if length data < 32 then (Crash, c)
              else
                (case IndexByte (drop 32 data) 0 of
                   None \<Rightarrow> (Crash, c)
                 | Some n \<Rightarrow>
                     if StringToBytes (conn_user c) \<noteq> take n (drop 32 data) then (Err ErrNoSuchUser, c)
                     else (check_token (CalcPassword (salt c) (StringToBytes password)) data (33 + n), c)))"

definition handshake :: "(mysql_error \<Rightarrow> string) \<Rightarrow> net \<Rightarrow> string \<Rightarrow> string \<Rightarrow> Conn \<Rightarrow> unit conn_result" where
  "handshake texts net serverVersion password c =
     cbind (writeInitialHandshake net serverVersion c) (\<lambda>_ c.
       case readHandshakeResponse password c of
         (Err e, c) \<Rightarrow> (case writeError texts net e c of (Crash, c) \<Rightarrow> (Crash, c) | (_, c) \<Rightarrow> (Err e, c))
       | (Crash, c) \<Rightarrow> (Crash, c)
       | (Ok _, c) \<Rightarrow> cbind (writeOK net None c) (\<lambda>_ c. (Ok (), c\<lparr>base := ResetSequence (base c)\<rparr>)))"

text \<open>\<^verbatim>\<open>NewConn\<close>, with the connection id that the counter gives, the random bytes, what \<^verbatim>\<open>GetMasterInfo\<close> returns, and what the
  client sends. A connection that fails is closed.\<close>

definition NewConn ::
    "(mysql_error \<Rightarrow> string) \<Rightarrow> net \<Rightarrow> u32 \<Rightarrow> bytes option \<Rightarrow> (storage_error, MasterInfo) outcome \<Rightarrow> bytes \<Rightarrow> string \<Rightarrow> string
     \<Rightarrow> unit conn_result" where
  "NewConn texts net cid rnd getMasterInfo bs usr password =
     (let c = \<lparr>base = NewBaseConn bs, capability = 0, connectionID = cid, conn_status = 0, conn_user = usr,
               salt = (case RandomBuf rnd of None \<Rightarrow> [] | Some b \<Rightarrow> b), conn_closed = False, userVariables = []\<rparr>
      in case getMasterInfo of
           Crash \<Rightarrow> (Crash, c)
         | Err e \<Rightarrow> (Err (ErrStore e), c\<lparr>conn_closed := True\<rparr>)
         | Ok masterInfo \<Rightarrow>
             (case handshake texts net (mi_Version masterInfo) password c of
                (Err e, c) \<Rightarrow> (Err e, c\<lparr>conn_closed := True\<rparr>)
              | r \<Rightarrow> r))"

definition Conn_Close :: "Conn \<Rightarrow> Conn" where
  "Conn_Close c = (if conn_closed c then c else c\<lparr>conn_closed := True\<rparr>)"
section \<open>Who gets in\<close>

lemma on_base_Ok: "on_base f c = (r, c') \<longleftrightarrow> (\<exists>b. f (base c) = (r, b) \<and> c' = c\<lparr>base := b\<rparr>)"
  by (auto simp: on_base_def split: prod.splits)

lemma IndexByte_Some: "IndexByte xs b = Some n \<Longrightarrow> n < length xs \<and> xs ! n = b \<and> b \<notin> set (take n xs)"
  by (induction xs b arbitrary: n rule: IndexByte.induct) (auto split: if_splits)

lemma IndexByte_found: "b \<notin> set xs \<Longrightarrow> IndexByte (xs @ b # ys) b = Some (length xs)"
  by (induction xs) auto

lemma packet_slice_inside: "\<lbrakk>a \<le> b; b \<le> length data\<rbrakk> \<Longrightarrow> packet_slice data a b = Some (take (b - a) (drop a data))"
  by (simp add: packet_slice_def)

lemma unat_byte_round: "n < 256 \<Longrightarrow> unat (of_nat n :: byte) = n"
  by (simp add: unat_of_nat)

text \<open>The packet in which a client sends its name and its token.\<close>

definition login :: "string \<Rightarrow> bytes \<Rightarrow> bytes \<Rightarrow> bool" where
  "login usr auth data \<longleftrightarrow>
     0 \<notin> set (StringToBytes usr) \<and> length auth < 256 \<and>
     (\<exists>hdr more. length hdr = 32 \<and> data = hdr @ StringToBytes usr @ [0, of_nat (length auth)] @ auth @ more)"

lemma check_token_Ok:
  assumes "check_token auth data pos = Ok ()" "pos < length data"
  shows "\<exists>more. drop pos data = of_nat (length auth) # auth @ more \<and> length auth < 256"
proof -
  let ?l = "unat (data ! pos)"
  have l: "Suc pos + ?l \<le> length data" "packet_slice data (Suc pos) (Suc pos + ?l) = Some auth"
    using assms by (auto simp: check_token_def Let_def split: if_splits option.splits)
  then have a: "auth = take ?l (drop (Suc pos) data)" by (simp add: packet_slice_inside)
  have "drop pos data = data ! pos # drop (Suc pos) data" using assms(2) by (simp add: Cons_nth_drop_Suc)
  moreover have "drop (Suc pos) data = auth @ drop ?l (drop (Suc pos) data)" unfolding a by (rule append_take_drop_id [symmetric])
  moreover have "length auth = ?l" using l(1) a by simp
  ultimately show ?thesis using unat_byte_less [of "data ! pos"] by auto
qed

lemma loginI:
  assumes "IndexByte (drop 32 data) 0 = Some n" "StringToBytes usr = take n (drop 32 data)"
    and "check_token auth data (33 + n) = Ok ()"
  shows "login usr auth data"
proof -
  note i = IndexByte_Some [OF assms(1)]
  have p: "33 + n < length data" using assms(3) by (auto simp: check_token_def split: if_splits)
  obtain more where m: "drop (33 + n) data = of_nat (length auth) # auth @ more" "length auth < 256"
    using check_token_Ok [OF assms(3) p] by blast
  have "drop n (drop 32 data) = 0 # drop (33 + n) data"
    using i Cons_nth_drop_Suc [of n "drop 32 data"] by (simp add: add.commute)
  then have "drop 32 data = StringToBytes usr @ 0 # drop (33 + n) data" using assms(2) by (metis append_take_drop_id)
  then have "data = take 32 data @ StringToBytes usr @ [0, of_nat (length auth)] @ auth @ more"
    using append_take_drop_id [of 32 data] m(1) by simp
  moreover have "length (take 32 data) = 32" using p by simp
  ultimately show ?thesis unfolding login_def using i assms(2) m(2) by metis
qed

lemma readHandshakeResponse_Ok:
  assumes "readHandshakeResponse password c = (Ok (), c')"
  shows "\<exists>data b cap. ReadPacket (base c) = (Ok data, b) \<and> c' = c\<lparr>base := b, capability := cap\<rparr> \<and>
    login (conn_user c) (CalcPassword (salt c) (StringToBytes password)) data"
proof -
  obtain r b where r: "ReadPacket (base c) = (r, b)" by fastforce
  then obtain data where d: "r = Ok data" using assms by (cases r) (auto simp: readHandshakeResponse_def on_base_def)
  let ?b = "take 4 (data @ replicate MinRead 0)"
  have s: "packet_slice data 0 4 = Some ?b" by (simp add: packet_slice_def MinRead_def)
  obtain n where n: "IndexByte (drop 32 data) 0 = Some n"
    using assms r d s by (auto simp: readHandshakeResponse_def on_base_def Let_def split: if_splits option.splits)
  show ?thesis
    using assms r d s n loginI [OF n]
    by (auto simp: readHandshakeResponse_def on_base_def Let_def split: if_splits)
qed
text \<open>The answers change nothing but what is sent.\<close>

definition answers :: "Conn \<Rightarrow> 'a conn_result \<Rightarrow> bool" where
  "answers c r \<longleftrightarrow> (\<exists>b. snd r = c\<lparr>base := b\<rparr>)"

lemma answers_on_base: "answers c (on_base f c)"
  by (cases "f (base c)") (auto simp: answers_def on_base_def)

lemma answers_refl: "answers c (r, c)"
  by (auto simp: answers_def intro: exI [of _ "base c"])

lemma answers_cbind:
  assumes "answers c r" "\<And>x c'. answers c (Ok x, c') \<Longrightarrow> answers c' (k x c')"
  shows "answers c (cbind r k)"
proof -
  obtain x b where r: "r = (x, c\<lparr>base := b\<rparr>)" using assms(1) by (cases r) (auto simp: answers_def)
  show ?thesis
  proof (cases x)
    case (Ok a)
    have "answers (c\<lparr>base := b\<rparr>) (k a (c\<lparr>base := b\<rparr>))" using r by (intro assms(2)) (auto simp: answers_def)
    then show ?thesis using r Ok by (auto simp: answers_def)
  qed (use r in \<open>auto simp: answers_def\<close>)
qed

lemma answers_write_packets: "answers c (write_packets net ps c)"
  by (induction net ps c rule: write_packets.induct) (auto intro!: answers_cbind answers_on_base answers_refl)

lemma answers_ops:
  "answers c (writeOK net r c)" "answers c (writeError texts net e c)" "answers c (writeEOF net c)"
  "answers c (writeResultset net rs c)" "answers c (writeFieldList net fs c)" "answers c (writeInitialHandshake net v c)"
  by (auto simp: writeOK_def writeError_def writeEOF_def writeResultset_def writeFieldList_def writeInitialHandshake_def Let_def
      intro!: answers_on_base answers_cbind answers_write_packets answers_refl)

lemma handshake_Ok:
  assumes "handshake texts net v password c = (Ok (), c')"
  shows "\<exists>c1 c2. writeInitialHandshake net v c = (Ok (), c1) \<and> readHandshakeResponse password c1 = (Ok (), c2) \<and>
    salt c' = salt c2 \<and> capability c' = capability c2 \<and> conn_closed c' = conn_closed c2 \<and> userVariables c' = userVariables c2"
proof -
  obtain r1 c1 where 1: "writeInitialHandshake net v c = (r1, c1)" by fastforce
  obtain r2 c2 where 2: "readHandshakeResponse password c1 = (r2, c2)" by fastforce
  have r1: "r1 = Ok ()" using assms 1 by (cases r1) (auto simp: handshake_def)
  have r2: "r2 = Ok ()" using assms 1 r1 2 by (cases r2) (auto simp: handshake_def split: prod.splits outcome.splits)
  obtain r3 b where 3: "writeOK net None c2 = (r3, c2\<lparr>base := b\<rparr>)"
    using answers_ops(1) [of c2 net None] by (cases "writeOK net None c2") (auto simp: answers_def)
  then have "c' = c2\<lparr>base := ResetSequence b\<rparr>" using assms 1 2 r1 r2 by (cases r3) (auto simp: handshake_def)
  then show ?thesis using 1 2 r1 r2 by auto
qed
lemma WritePacket_conn:
  assumes "length p < MaxPayloadLen"
  shows "on_base (WritePacket net_ok (replicate 4 0 @ p)) c =
    (Ok (), c\<lparr>base := (base c)\<lparr>sent := sent (base c) @ packet (Sequence (base c)) p, Sequence := Sequence (base c) + 1\<rparr>\<rparr>)"
  unfolding on_base_def using WritePacket_framed [OF _ framed.last [OF assms, of "Sequence (base c)"], of "replicate 4 0"] by simp

lemma WritePacket_received: "received (snd (WritePacket net data c)) = received c"
proof (induction net data c rule: WritePacket.induct)
  case (1 net data c)
  show ?case
  proof (cases "length data < 4 \<or> length data - 4 < MaxPayloadLen")
    case True
    then show ?thesis by (subst WritePacket.simps) (auto simp: conn_Write_def split: option.splits)
  next
    case False
    then show ?thesis using 1 by (subst WritePacket.simps) (auto simp: conn_Write_def split: option.splits)
  qed
qed

text \<open>C12: a client gets a connection only by a packet that carries the name of the configured user and the token that its
  password gives with the salt of this connection.\<close>

theorem NewConn_authenticates:
  assumes "NewConn texts net cid rnd mi bs usr password = (Ok (), c)"
  shows "\<exists>q data w q' rest. framed q data w q' \<and> bs = w @ rest \<and> login usr (CalcPassword (salt c) (StringToBytes password)) data \<and>
    RandomBuf rnd = Some (salt c) \<and> \<not> conn_closed c"
proof -
  let ?c = "\<lparr>base = NewBaseConn bs, capability = 0, connectionID = cid, conn_status = 0, conn_user = usr,
    salt = (case RandomBuf rnd of None \<Rightarrow> [] | Some b \<Rightarrow> b), conn_closed = False, userVariables = []\<rparr>"
  obtain m where "mi = Ok m" using assms by (cases mi) (auto simp: NewConn_def Let_def)
  then have h: "handshake texts net (mi_Version m) password ?c = (Ok (), c)"
    using assms by (auto simp: NewConn_def Let_def split: prod.splits outcome.splits)
  then obtain c1 c2 where 1: "writeInitialHandshake net (mi_Version m) ?c = (Ok (), c1)"
    and 2: "readHandshakeResponse password c1 = (Ok (), c2)" and s: "salt c = salt c2" "conn_closed c = conn_closed c2"
    using handshake_Ok by blast
  obtain b1 where b1: "c1 = ?c\<lparr>base := b1\<rparr>" using answers_ops(6) [of ?c net "mi_Version m"] 1 by (auto simp: answers_def)
  have "RandomBuf rnd \<noteq> None" using 1 by (cases "RandomBuf rnd") (simp_all add: writeInitialHandshake_def)
  then have r: "RandomBuf rnd = Some (salt ?c)" by auto
  obtain data b cap where d: "ReadPacket b1 = (Ok data, b)" "c2 = c1\<lparr>base := b, capability := cap\<rparr>"
    "login usr (CalcPassword (salt ?c) (StringToBytes password)) data"
    using readHandshakeResponse_Ok [OF 2] b1 by auto
  have "received b1 = bs" using 1 b1 WritePacket_received
    by (auto simp: writeInitialHandshake_def on_base_def NewBaseConn_def split: if_splits prod.splits) (metis BaseConn.select_convs(1) snd_conv)
  then obtain w where "framed (Sequence b1) data w (Sequence b)" "bs = w @ received b"
    using ReadPacketTo_sound [of b1 data b] d(1) by (auto simp: ReadPacket_def)
  then show ?thesis using d r s b1 by auto
qed
text \<open>The server's side of the handshake on a network that does not fail, up to the response.\<close>

lemma initial_handshake:
  assumes "8 \<le> length (salt c)" "length (salt c) < 2 ^ 20" "length v < 2 ^ 20"
  shows "\<exists>b. writeInitialHandshake net_ok v c = (Ok (), c\<lparr>base := b\<rparr>) \<and> received b = received (base c) \<and>
    Sequence b = Sequence (base c) + 1"
proof -
  let ?p = "[10] @ StringToBytes v @ [0] @ le32 (connectionID c) @ take 8 (salt c) @ [0]
         @ le16 (ucast server_capability) @ [33] @ le16 (conn_status c) @ le16 (ucast (drop_bit 16 server_capability))
         @ [0x15] @ replicate 10 0 @ drop 8 (salt c) @ [0]"
  have "length ?p < MaxPayloadLen" using assms by (simp add: MaxPayloadLen_def StringToBytes_def)
  note w = WritePacket_conn [OF this, of c]
  show ?thesis using assms(1) w unfolding writeInitialHandshake_def
    by (intro exI [of _ "(base c)\<lparr>sent := sent (base c) @ packet (Sequence (base c)) ?p, Sequence := Sequence (base c) + 1\<rparr>"]) simp
qed

definition answer_response :: "(mysql_error \<Rightarrow> string) \<Rightarrow> string \<Rightarrow> Conn \<Rightarrow> unit conn_result" where
  "answer_response texts password c =
     (case readHandshakeResponse password c of
        (Err e, c) \<Rightarrow> (case writeError texts net_ok e c of (Crash, c) \<Rightarrow> (Crash, c) | (_, c) \<Rightarrow> (Err e, c\<lparr>conn_closed := True\<rparr>))
      | (Crash, c) \<Rightarrow> (Crash, c)
      | (Ok _, c) \<Rightarrow> (case writeOK net_ok None c of (Err e, c) \<Rightarrow> (Err e, c\<lparr>conn_closed := True\<rparr>)
           | (Crash, c) \<Rightarrow> (Crash, c) | (Ok _, c) \<Rightarrow> (Ok (), c\<lparr>base := ResetSequence (base c)\<rparr>)))"

lemma NewConn_response:
  assumes "RandomBuf rnd = Some s" "8 \<le> length s" "length s < 2 ^ 20" "length (mi_Version m) < 2 ^ 20"
    and "framed 1 data w q" "length data mod MaxPayloadLen \<noteq> 0"
  shows "\<exists>c1 c2. conn_user c1 = usr \<and> salt c1 = s \<and> \<not> conn_closed c1 \<and> c2 = c1\<lparr>base := base c2\<rparr> \<and> received (base c2) = rest \<and>
    on_base ReadPacket c1 = (Ok data, c2) \<and>
    NewConn texts net_ok cid rnd (Ok m) (w @ rest) usr password = answer_response texts password c1"
proof -
  let ?c = "\<lparr>base = NewBaseConn (w @ rest), capability = 0, connectionID = cid, conn_status = 0, conn_user = usr,
    salt = s, conn_closed = False, userVariables = []\<rparr>"
  obtain b where b: "writeInitialHandshake net_ok (mi_Version m) ?c = (Ok (), ?c\<lparr>base := b\<rparr>)"
    "received b = w @ rest" "Sequence b = 1"
    using initial_handshake [of ?c "mi_Version m"] assms(2-4) by (auto simp: NewBaseConn_def)
  let ?c1 = "?c\<lparr>base := b\<rparr>" and ?c2 = "?c\<lparr>base := b\<lparr>received := rest, Sequence := q\<rparr>\<rparr>"
  have r: "on_base ReadPacket ?c1 = (Ok data, ?c2)"
    using ReadPacketTo_framed [of b data w q rest] assms(5,6) b(2,3) by (simp add: on_base_def ReadPacket_def)
  have "NewConn texts net_ok cid rnd (Ok m) (w @ rest) usr password = answer_response texts password ?c1"
    unfolding NewConn_def Let_def handshake_def answer_response_def
    using assms(1) b(1) by (simp add: sbind_def split: prod.splits outcome.splits)
  then show ?thesis using r by (intro exI [of _ ?c1] exI [of _ ?c2]) simp
qed

text \<open>C39: a client that sends a packet of less than 32 bytes instead of the response, without any password, stops the
  process: the slice after the reserved bytes is out of range, and nothing recovers from a panic of \<^verbatim>\<open>onConn\<close>.\<close>

theorem short_handshake_crashes:
  assumes "RandomBuf rnd = Some s" "8 \<le> length s" "length s < 2 ^ 20" "length (mi_Version m) < 2 ^ 20"
    and "framed 1 data w q" "0 < length data" "length data < 32"
  shows "fst (NewConn texts net_ok cid rnd (Ok m) (w @ rest) usr password) = Crash"
proof -
  have "length data mod MaxPayloadLen \<noteq> 0" using assms(6,7) by (simp add: MaxPayloadLen_def)
  then obtain c1 c2 where r: "on_base ReadPacket c1 = (Ok data, c2)"
    and n: "NewConn texts net_ok cid rnd (Ok m) (w @ rest) usr password = answer_response texts password c1"
    using NewConn_response [OF assms(1-5)] by blast
  have "\<exists>c. readHandshakeResponse password c1 = (Crash, c)"
    using r assms(7) by (auto simp: readHandshakeResponse_def Let_def split: option.splits)
  then show ?thesis using n by (auto simp: answer_response_def)
qed
lemma check_token_accepts:
  assumes "drop pos data = of_nat (length auth) # auth @ xs" "length auth < 256" "xs = [] \<or> 0 \<in> set xs"
  shows "check_token auth data pos = Ok ()"
proof -
  have p: "pos < length data" by (rule ccontr) (use assms(1) in simp)
  then have "drop pos data = data ! pos # drop (Suc pos) data" by (simp add: Cons_nth_drop_Suc)
  then have e: "data ! pos = of_nat (length auth)" "drop (Suc pos) data = auth @ xs" using assms(1) by simp_all
  have "length (drop (Suc pos) data) = length auth + length xs" using e(2) by simp
  then have l: "Suc pos + length auth \<le> length data" using p by simp
  have "drop (length auth) (drop (Suc pos) data) = xs" using e(2) by simp
  then have d: "drop (Suc pos + length auth) data = xs" by (simp add: add.commute)
  have a: "unat (data ! pos) = length auth" using e(1) unat_byte_round [OF assms(2)] by simp
  have c: "packet_slice data (Suc pos) (Suc pos + length auth) = Some auth" using packet_slice_inside [OF _ l] e(2) by simp
  have "IndexByte xs 0 \<noteq> None" if "0 \<in> set xs" using that by (induction xs) auto
  then have "xs \<noteq> [] \<Longrightarrow> \<exists>k. IndexByte xs 0 = Some k" using assms(3) by blast
  then show ?thesis
    unfolding check_token_def Let_def a c d option.case using p l by (cases "xs = []") auto
qed

lemma writeOK_sends: "\<exists>b. writeOK net_ok None c = (Ok (), c\<lparr>base := b\<rparr>) \<and> received b = received (base c)"
proof -
  let ?p = "[0] @ PutLengthEncodedInt 0 @ PutLengthEncodedInt 0 @ (if protocol_41 c then le16 (0 OR conn_status c) @ [0, 0] else [])"
  have "length ?p < MaxPayloadLen" by (simp add: PutLengthEncodedInt_def MaxPayloadLen_def)
  note w = WritePacket_conn [OF this, of c]
  show ?thesis unfolding writeOK_def Let_def option.case Result.select_convs w by (auto intro!: exI)
qed

text \<open>A client that knows the password gets its connection.\<close>

lemma NewConn_accepts:
  assumes "RandomBuf rnd = Some s" "8 \<le> length s" "length s < 2 ^ 20" "length (mi_Version m) < 2 ^ 20"
    and "length hdr = 32" "0 \<notin> set (StringToBytes usr)" "auth = CalcPassword s (StringToBytes password)" "length auth < 256"
    and "data = hdr @ StringToBytes usr @ [0, of_nat (length auth)] @ auth @ xs" "xs = [] \<or> 0 \<in> set xs"
    and "framed 1 data w q" "length data mod MaxPayloadLen \<noteq> 0"
  shows "\<exists>c. NewConn texts net_ok cid rnd (Ok m) (w @ rest) usr password = (Ok (), c) \<and> salt c = s \<and> received (base c) = rest"
proof -
  obtain c1 c2 where c: "conn_user c1 = usr" "salt c1 = s" "c2 = c1\<lparr>base := base c2\<rparr>" "received (base c2) = rest" and r: "on_base ReadPacket c1 = (Ok data, c2)"
    and n: "NewConn texts net_ok cid rnd (Ok m) (w @ rest) usr password = answer_response texts password c1"
    using NewConn_response [OF assms(1-4,11,12), where usr = usr and texts = texts and cid = cid and rest = rest and password = password] by blast
  let ?n = "length (StringToBytes usr)"
  have i: "IndexByte (drop 32 data) 0 = Some ?n" using assms(5,6,9) IndexByte_found by simp
  have t: "check_token auth data (33 + ?n) = Ok ()" using assms(5,8-10) by (intro check_token_accepts) simp_all
  have u: "take ?n (drop 32 data) = StringToBytes usr" "32 \<le> length data" using assms(5,9) by simp_all
  have c2: "conn_user c2 = usr" "salt c2 = s" using c(1,2) by (subst c(3); simp)+
  obtain cap where h: "readHandshakeResponse password c1 = (Ok (), c2\<lparr>capability := cap\<rparr>)"
    using r i t u c2 assms(7) by (auto simp: readHandshakeResponse_def packet_slice_def MinRead_def Let_def)
  let ?c = "c2\<lparr>capability := cap\<rparr>"
  obtain b where "writeOK net_ok None ?c = (Ok (), ?c\<lparr>base := b\<rparr>)" "received b = rest"
    using writeOK_sends [of ?c] c(4) by auto
  then show ?thesis using n h c2 by (simp add: answer_response_def ResetSequence_def)
qed
text \<open>A user without a password.\<close>

definition sample_response :: bytes where
  "sample_response = replicate 32 0 @ StringToBytes ''a'' @ [0, 0]"

lemma sample_response_facts:
  "RandomBuf (Some (replicate 20 7)) = Some (replicate 20 7)" "framed 1 sample_response (packet 1 sample_response) 2"
  "0 \<notin> set (StringToBytes ''a'')" "length sample_response mod MaxPayloadLen \<noteq> 0"
  "CalcPassword (replicate 20 7) (StringToBytes []) = []"
  using framed.last [of sample_response 1]
  by (simp_all add: RandomBuf_def sample_response_def StringToBytes_def MaxPayloadLen_def CalcPassword_def)

theorem NewConn_authenticates_witness:
  "\<exists>c q data w q'. NewConn (\<lambda>_. []) net_ok 1 (Some (replicate 20 7)) (Ok \<lparr>mi_ServerID = 1, mi_ServerUUID = [], mi_Version = ''5.7''\<rparr>)
     (packet 1 sample_response) ''a'' [] = (Ok (), c) \<and> framed q data w q' \<and> login ''a'' (CalcPassword (salt c) (StringToBytes [])) data"
proof -
  let ?m = "\<lparr>mi_ServerID = 1, mi_ServerUUID = [], mi_Version = ''5.7''\<rparr>"
  have f: "length (replicate 32 (0 :: byte)) = 32" "[] = CalcPassword (replicate 20 7) (StringToBytes [])" "length ([] :: bytes) < 256"
    "sample_response = replicate 32 0 @ StringToBytes ''a'' @ [0, of_nat (length [])] @ [] @ []"
    using sample_response_facts by (simp_all add: sample_response_def)
  have l: "8 \<le> length (replicate 20 (7 :: byte))" "length (replicate 20 (7 :: byte)) < 2 ^ 20" "length (mi_Version ?m) < 2 ^ 20" by simp_all
  obtain c where c: "NewConn (\<lambda>_. []) net_ok 1 (Some (replicate 20 7)) (Ok ?m) (packet 1 sample_response @ []) ''a'' [] = (Ok (), c)"
    using NewConn_accepts [OF sample_response_facts(1) l f(1) sample_response_facts(3) f(2-4) _ sample_response_facts(2,4)] by blast
  from NewConn_authenticates [OF this] show ?thesis using c unfolding append_Nil2 by blast
qed

theorem short_handshake_crashes_witness:
  "fst (NewConn (\<lambda>_. []) net_ok 1 (Some (replicate 20 7)) (Ok \<lparr>mi_ServerID = 1, mi_ServerUUID = [], mi_Version = ''5.7''\<rparr>)
     (packet 1 [0] @ []) ''root'' ''secret'') = Crash"
  by (rule short_handshake_crashes [of _ "replicate 20 7" _ "[0]" _ 2])
    (use framed.last [of "[0]" 1] in \<open>simp_all add: RandomBuf_def MaxPayloadLen_def\<close>)

end
