(* ===== verification/Mysql_Command.thy ===== *)
theory Mysql_Command
  imports Mysql_Conn
begin

text \<open>
  The commands of a client: \<^verbatim>\<open>src/mysql/command.go\<close> with the loop \<^verbatim>\<open>Conn.Run\<close> of \<^verbatim>\<open>src/mysql/conn.go\<close>. The SQL parser is a
  parameter; its statements are the datatypes below, as far as the handlers look into them. The storage, the progress
  and the clock are those of the moment of the command. A panic in a handler is the value \<^const>\<open>Crash\<close>; where the
  code recovers from it, the model does.
\<close>

section \<open>State and environment\<close>

text \<open>A literal has a value, of which the handlers only use an integer, and the string that \<^verbatim>\<open>GetString\<close> gives for it; a decimal
  or a float has no integer, and an integer has the empty string.\<close>

datatype expr = VariableExpr string bool bool | FuncCallExpr string | ValueExpr "int option" string | OtherExpr

datatype stmt =
  ShowStmt "string option" | SelectStmt "(string \<times> expr) list" | SetStmt "(string \<times> expr) list" | KillStmt u64 | OtherStmt

record cmd_env =
  ce_net :: net
  ce_texts :: "mysql_error \<Rightarrow> string"
  ce_parse :: "string \<Rightarrow> stmt option"
  ce_now :: int
  ce_os :: os
  ce_store :: MetaStore
  ce_masterInfo :: "bytes \<Rightarrow> MasterInfo option"
  ce_progress :: BinlogProgress
  ce_disk :: DiskStorage

type_synonym session = "Conn \<times> BinlogServer"
type_synonym 'a session_result = "(mysql_error, 'a) outcome \<times> session"

abbreviation ebind :: "'a session_result \<Rightarrow> ('a \<Rightarrow> session \<Rightarrow> 'b session_result) \<Rightarrow> 'b session_result" where
  "ebind r k \<equiv> sbind r (\<lambda>c. c) k"

text \<open>A connection is closed by itself or by the server. A write on a closed connection panics, its socket is nil.\<close>

definition closed :: "session \<Rightarrow> bool" where
  "closed = (\<lambda>(c, s). conn_closed c \<or> connectionID c \<in> set (closed_conns s))"

definition reply :: "(Conn \<Rightarrow> 'a conn_result) \<Rightarrow> session \<Rightarrow> 'a session_result" where
  "reply f = (\<lambda>(c, s). if closed (c, s) then (Crash, (c, s)) else (case f c of (r, c) \<Rightarrow> (r, (c, s))))"

definition store_outcome :: "(storage_error, 'a) outcome \<Rightarrow> (mysql_error, 'a) outcome" where
  "store_outcome r = (case r of Ok a \<Rightarrow> Ok a | Err e \<Rightarrow> Err (ErrStore e) | Crash \<Rightarrow> Crash)"

definition set_variable :: "string \<Rightarrow> variable \<Rightarrow> session \<Rightarrow> session" where
  "set_variable name v = (\<lambda>(c, s). (c\<lparr>userVariables := AList.update name v (userVariables c)\<rparr>, s))"

definition get_variable :: "string \<Rightarrow> session \<Rightarrow> variable option" where
  "get_variable name = (\<lambda>(c, s). map_of (userVariables c) name)"

text \<open>\<^verbatim>\<open>strings.ToLower\<close>, as far as a comparison with an ASCII name can see it: the ASCII letters, and the two letters
  outside of ASCII that have an ASCII letter as their lower case.\<close>

fun ToLower :: "string \<Rightarrow> string" where
  "ToLower [] = []"
| "ToLower (c # s) =
     (if c = CHR 0xC4 \<and> take 1 s = [CHR 0xB0] then CHR ''i'' # ToLower (drop 1 s)
      else if c = CHR 0xE2 \<and> take 2 s = [CHR 0x84, CHR 0xAA] then CHR ''k'' # ToLower (drop 2 s)
      else (let n = of_char c :: nat in if 65 \<le> n \<and> n \<le> 90 then char_of (n + 32) else c) # ToLower s)"

definition ServerID_name :: string where "ServerID_name = ''server_id''"
definition ServerUUID_name :: string where "ServerUUID_name = ''server_uuid''"
definition SlaveUUID :: string where "SlaveUUID = ''slave_uuid''"
definition MasterHeartbeatPeriod :: string where "MasterHeartbeatPeriod = ''master_heartbeat_period''"
definition GtidMode :: string where "GtidMode = ''gtid_mode''"
definition GtidPurged :: string where "GtidPurged = ''gtid_purged''"
definition VersionComment :: string where "VersionComment = ''version_comment''"
definition BinlogFormat :: string where "BinlogFormat = ''binlog_format''"
definition BinlogChecksum :: string where "BinlogChecksum = ''binlog_checksum''"
definition MasterBinlogChecksum :: string where "MasterBinlogChecksum = ''master_binlog_checksum''"
definition SetNames :: string where "SetNames = ''setnames''"
definition UnixTimestamp :: string where "UnixTimestamp = ''unix_timestamp''"
definition Version_name :: string where "Version_name = ''version''"

lemmas variable_names = ServerID_name_def ServerUUID_name_def SlaveUUID_def MasterHeartbeatPeriod_def GtidMode_def GtidPurged_def
  VersionComment_def BinlogFormat_def BinlogChecksum_def MasterBinlogChecksum_def SetNames_def UnixTimestamp_def Version_name_def

text \<open>\<^verbatim>\<open>MaxHeartbeatPeriod\<close>, in nanoseconds.\<close>

definition MaxHeartbeatPeriod :: int where "MaxHeartbeatPeriod = 3600 * 10 ^ 9 * 24 * 30 * 12 * 10"

section \<open>Queries\<close>

definition get_master_info :: "cmd_env \<Rightarrow> (mysql_error, MasterInfo) outcome" where
  "get_master_info env = store_outcome (BinlogServer_GetMasterInfo (ce_masterInfo env) (ce_os env) (ce_store env))"

text \<open>The answer with one value; a variable that is not known leaves the result nil, and writing it panics.\<close>

definition write_value :: "cmd_env \<Rightarrow> string \<Rightarrow> variable \<Rightarrow> session \<Rightarrow> unit session_result" where
  "write_value env columnName v = reply (writeResultset (ce_net env) (BuildSimpleResultset columnName v))"

definition handleSelectVariableExpr :: "cmd_env \<Rightarrow> string \<Rightarrow> string \<Rightarrow> session \<Rightarrow> unit session_result" where
  "handleSelectVariableExpr env vName columnName x =
     (let name = ToLower vName
      in if name = ServerID_name \<or> name = ServerUUID_name then
           ebind (get_master_info env, x) (\<lambda>masterInfo.
             write_value env columnName
               (if vName = ServerUUID_name then VString (mi_ServerUUID masterInfo) else VInt (sint (mi_ServerID masterInfo))))
         else if name = GtidMode then write_value env columnName (VString ''ON'') x
         else if name = GtidPurged then
           ebind (store_outcome (GetGtidSet (ce_os env) (ce_store env) MySQLFlavor GtidPurgedKey), x) (\<lambda>gtidSet.
             write_value env columnName (VString (GTIDSet_String gtidSet)))
         else if name = VersionComment then write_value env columnName (VString ''MySQL Community Server (GPL)'') x
         else if name = BinlogFormat then write_value env columnName (VString ''ROW'') x
         else if name = BinlogChecksum then write_value env columnName (VString ''CRC32'') x
         else if name = MasterBinlogChecksum then write_value env columnName (VString ''CRC32'') x
         else (Crash, x))"

definition handleSelectFuncCallExpr :: "cmd_env \<Rightarrow> string \<Rightarrow> string \<Rightarrow> session \<Rightarrow> unit session_result" where
  "handleSelectFuncCallExpr env fnName columnName x =
     (if fnName = UnixTimestamp then write_value env columnName (VInt (ce_now env div 10 ^ 9)) x
      else if fnName = Version_name then
        ebind (get_master_info env, x) (\<lambda>masterInfo. write_value env columnName (VString (mi_Version masterInfo)))
      else (Crash, x))"

definition handleSelect :: "cmd_env \<Rightarrow> (string \<times> expr) list \<Rightarrow> session \<Rightarrow> unit session_result" where
  "handleSelect env flds x =
     (case flds of
        [(columnName, VariableExpr vName _ _)] \<Rightarrow> handleSelectVariableExpr env vName columnName x
      | [(columnName, FuncCallExpr fnName)] \<Rightarrow> handleSelectFuncCallExpr env fnName columnName x
      | _ \<Rightarrow> (Err ErrSQLNotSupport, x))"

definition handleShow :: "cmd_env \<Rightarrow> string option \<Rightarrow> session \<Rightarrow> unit session_result" where
  "handleShow env pat x =
     (case pat of
        None \<Rightarrow> (Crash, x)
      | Some showVariable \<Rightarrow>
          if ToLower showVariable = ServerID_name then
            ebind (get_master_info env, x) (\<lambda>masterInfo x.
            ebind (write_value env showVariable (VInt (sint (mi_ServerID masterInfo))) x) (\<lambda>_ x. (Err ErrSQLNotSupport, x)))
          else (Err ErrSQLNotSupport, x))"

fun set_heartbeat :: "variable \<Rightarrow> int \<Rightarrow> (string \<times> Slave) list \<Rightarrow> (string \<times> Slave) list" where
  "set_heartbeat slaveUUID period [] = []"
| "set_heartbeat slaveUUID period ((u, sl) # sls) =
     (if VString (sl_UUID sl) = slaveUUID then (u, sl\<lparr>sl_HeartBeat := period\<rparr>) # sls
      else (u, sl) # set_heartbeat slaveUUID period sls)"

text \<open>A value of another kind than the handler expects makes its type assertion panic.\<close>

definition handleSet :: "cmd_env \<Rightarrow> (string \<times> expr) list \<Rightarrow> session \<Rightarrow> unit session_result" where
  "handleSet env vars x =
     (case vars of
        [(vName, v)] \<Rightarrow>
          let name = ToLower vName; ok = reply (writeOK (ce_net env) None)
          in if name = MasterHeartbeatPeriod then
               (case v of
                  ValueExpr (Some period) _ \<Rightarrow>
                    let x = set_variable MasterHeartbeatPeriod (VInt period) x;
                        x = (case get_variable SlaveUUID x of
                               None \<Rightarrow> x
                             | Some slaveUUID \<Rightarrow> (fst x, (snd x)\<lparr>slaves := set_heartbeat slaveUUID period (slaves (snd x))\<rparr>))
                    in ok x
                | _ \<Rightarrow> (Crash, x))
             else if name = SlaveUUID then
               (case v of ValueExpr _ v \<Rightarrow> ok (set_variable SlaveUUID (VString v) x) | _ \<Rightarrow> (Crash, x))
             else if name = MasterBinlogChecksum then
               if (case v of
                     VariableExpr n isSystem isGlobal \<Rightarrow> \<not> isSystem \<or> \<not> isGlobal \<or> ToLower n \<noteq> ''binlog_checksum''
                   | ValueExpr _ v \<Rightarrow> ToLower v \<noteq> ''crc32''
                   | _ \<Rightarrow> False)
               then (Err ErrChecksum, x)
               else ok (set_variable MasterBinlogChecksum (VString ''crc32'') x)
             else if name = SetNames then
               (case v of ValueExpr _ v \<Rightarrow> ok (set_variable SetNames (VString v) x) | _ \<Rightarrow> (Crash, x))
             else (Err ErrSQLNotSupport, x)
      | _ \<Rightarrow> (Err ErrSQLNotSupport, x))"

definition handleKill :: "cmd_env \<Rightarrow> u64 \<Rightarrow> session \<Rightarrow> unit session_result" where
  "handleKill env cid x =
     (let (c, s) = x;
          s = (case find (\<lambda>(u, sl). sl_Conn sl = ucast cid) (GetSlaves s) of
                 None \<Rightarrow> s
               | Some (u, sl) \<Rightarrow> UnregisterSlave (sl_UUID sl) s)
      in reply (writeOK (ce_net env) None) (c, s))"

text \<open>\<^verbatim>\<open>handleQuery\<close> recovers from a panic and returns it as an error.\<close>

definition handleQuery :: "cmd_env \<Rightarrow> string \<Rightarrow> session \<Rightarrow> unit session_result" where
  "handleQuery env sql x =
     (case (case ce_parse env sql of
              None \<Rightarrow> (Err ErrSqlParse, x)
            | Some (ShowStmt pat) \<Rightarrow> handleShow env pat x
            | Some (SelectStmt flds) \<Rightarrow> handleSelect env flds x
            | Some (SetStmt vars) \<Rightarrow> handleSet env vars x
            | Some (KillStmt cid) \<Rightarrow> handleKill env cid x
            | Some OtherStmt \<Rightarrow> (Err ErrSQLNotSupport, x)) of
        (Crash, x) \<Rightarrow> (Err ErrRuntime, x)
      | r \<Rightarrow> r)"

section \<open>Registering\<close>

text \<open>A length byte at \<open>pos\<close> and the bytes that it counts, and the position after them.\<close>

definition read_counted :: "bytes \<Rightarrow> nat \<Rightarrow> (mysql_error, bytes \<times> nat) outcome" where
  "read_counted data pos =
     (if length data \<le> pos then Crash
      else
        let n = unat (data ! pos)
        in obind (must (packet_slice data (pos + 1) (pos + 1 + n))) (\<lambda>b. Ok (b, pos + 1 + n)))"

definition parse_slave :: "bytes \<Rightarrow> (mysql_error, Slave) outcome" where
  "parse_slave data =
     obind (must (get_le32 data)) (\<lambda>serverID.
     obind (read_counted data 4) (\<lambda>(hostName, pos).
     obind (read_counted data pos) (\<lambda>(user, pos).
     obind (read_counted data pos) (\<lambda>(password, pos).
     obind (must (get_le16 (drop pos data))) (\<lambda>port.
     obind (must (get_le32 (drop (pos + 2) data))) (\<lambda>rank.
     obind (must (get_le32 (drop (pos + 6) data))) (\<lambda>masterID.
       Ok \<lparr>sl_State = REGISTERED, sl_ServerID = serverID, sl_UUID = [], sl_HostName = BytesToString hostName, sl_Port = port,
           sl_Rank = rank, sl_MasterID = masterID, sl_User = BytesToString user, sl_Password = BytesToString password,
           sl_ConnectTime = 0, sl_HeartBeat = 0, sl_Conn = 0\<rparr>)))))))"

text \<open>\<^verbatim>\<open>killZombieDumpThreads\<close>; the assertion that the uuid is a string may panic.\<close>

definition killZombieDumpThreads :: "session \<Rightarrow> unit session_result" where
  "killZombieDumpThreads = (\<lambda>(c, s).
     case map_of (userVariables c) SlaveUUID of
       None \<Rightarrow> (Ok (), (c, s))
     | Some (VInt _) \<Rightarrow> (Crash, (c, s))
     | Some (VString slaveUUID) \<Rightarrow>
         if slaveUUID = [] then (Ok (), (c, s))
         else (case map_of (GetSlaves s) slaveUUID of
                 None \<Rightarrow> (Ok (), (c, s))
               | Some slave \<Rightarrow>
                   if sl_Conn slave \<noteq> connectionID c then (Ok (), (c, UnregisterSlave slaveUUID s)) else (Ok (), (c, s))))"

definition handleRegisterSlave :: "cmd_env \<Rightarrow> bytes \<Rightarrow> session \<Rightarrow> unit session_result" where
  "handleRegisterSlave env data x =
     ebind (parse_slave data, x) (\<lambda>sl x.
     ebind (killZombieDumpThreads x) (\<lambda>_ x.
       case get_variable SlaveUUID x of
         Some (VInt _) \<Rightarrow> (Crash, x)
       | v \<Rightarrow>
           let sl = sl\<lparr>sl_UUID := (case v of Some (VString u) \<Rightarrow> u | _ \<Rightarrow> []), sl_ConnectTime := ce_now env,
                      sl_Conn := connectionID (fst x)\<rparr>
           in case RegisterSlave sl (snd x) of
                (Ok _, s) \<Rightarrow> reply (writeOK (ce_net env) None) (fst x, s)
              | (Err e, s) \<Rightarrow> (Err e, (fst x, s))
              | (Crash, s) \<Rightarrow> (Crash, (fst x, s))))"

section \<open>Events that the server makes\<close>

definition encodeEventHeader :: "EventHeader \<Rightarrow> bytes" where
  "encodeEventHeader h =
     le32 (Timestamp h) @ [h_EventType h] @ le32 (ServerID h) @ le32 (EventSize h) @ le32 (LogPos h) @ le16 (Flags h)"

definition buildHeartbeatEvent :: "string \<Rightarrow> u32 \<Rightarrow> u32 \<Rightarrow> bytes" where
  "buildHeartbeatEvent file serverID logPos =
     (let eventBuf = encodeEventHeader \<lparr>Timestamp = 0, h_EventType = HEARTBEAT_EVENT, ServerID = serverID,
            EventSize = of_nat (EventHeaderSize + length file + BinlogChecksumLength), LogPos = logPos, Flags = 0x20\<rparr>
            @ StringToBytes file
      in eventBuf @ le32 (ChecksumIEEE eventBuf))"

definition buildFakeRotateEvent :: "u32 \<Rightarrow> string \<Rightarrow> bool \<Rightarrow> bytes" where
  "buildFakeRotateEvent serverID file needCrc32 =
     (let eventBuf = encodeEventHeader \<lparr>Timestamp = 0, h_EventType = ROTATE_EVENT, ServerID = serverID,
            EventSize = of_nat (EventHeaderSize + 8 + length file + BinlogChecksumLength), LogPos = 0, Flags = 0x20\<rparr>
            @ le64 4 @ StringToBytes file
      in if needCrc32 then eventBuf @ le32 (ChecksumIEEE eventBuf) else eventBuf)"

definition send_event_bytes :: "cmd_env \<Rightarrow> bytes \<Rightarrow> bool \<Rightarrow> session \<Rightarrow> unit session_result" where
  "send_event_bytes env data first = reply (on_base (WriteEvent (ce_net env) data first))"

definition sendHeartbeatEvent :: "cmd_env \<Rightarrow> u32 \<Rightarrow> session \<Rightarrow> unit session_result" where
  "sendHeartbeatEvent env serverID =
     send_event_bytes env (buildHeartbeatEvent (lastBinlogFile (ce_progress env)) serverID (lastFilePosition (ce_progress env))) True"

definition sendFakeRotateEvent :: "cmd_env \<Rightarrow> u32 \<Rightarrow> string \<Rightarrow> session \<Rightarrow> unit session_result" where
  "sendFakeRotateEvent env serverID file x =
     (let needCrc32 = (get_variable MasterBinlogChecksum x = Some (VString ''crc32''))
      in send_event_bytes env (buildFakeRotateEvent serverID file needCrc32) True x)"

definition sendFormatDescriptionEvent :: "cmd_env \<Rightarrow> bytes \<Rightarrow> session \<Rightarrow> unit session_result" where
  "sendFormatDescriptionEvent env data x =
     (if length data < 17 then (Crash, x)
      else
        let data = take (length data - 4) (take 13 data @ le32 0 @ drop 17 data)
        in send_event_bytes env (data @ le32 (ChecksumIEEE data)) True x)"

section \<open>Dumping\<close>

definition parseMysqlGtidDumpPacket :: "bytes \<Rightarrow> (mysql_error, MysqlGTIDSet \<times> u32) outcome" where
  "parseMysqlGtidDumpPacket data =
     obind (must (get_le16 data)) (\<lambda>flags.
     obind (must (get_le32 (drop 2 data))) (\<lambda>slaveServerID.
     obind (must (get_le32 (drop 6 data))) (\<lambda>binlogFileNameSize.
       let pos = 10 + unat binlogFileNameSize
       in obind (must (get_le64 (drop pos data))) (\<lambda>binlogPos.
          obind (must (get_le32 (drop (pos + 8) data))) (\<lambda>dataSize.
          obind (store_outcome (DecodeMysqlGTIDSet (drop (pos + 12) data))) (\<lambda>g. Ok (g, slaveServerID)))))))"

text \<open>What the loop gets next: an event or an error of the goroutine, the end of the context, or its timer. While it waits,
  other connections may change the server.\<close>

datatype dump_input = GotEvent BinlogEvent | GotError mysql_error | CtxDone | HeartbeatTimer | Others BinlogServer

definition write_dumped :: "cmd_env \<Rightarrow> BinlogEvent \<Rightarrow> session \<Rightarrow> unit session_result" where
  "write_dumped env event x =
     (let data = nil_bytes (ev_Data event)
      in if ev_DividedCount event = 0 \<or> 0 < ev_DividedCount event \<and> ev_DividedSeqNum event = 0
         then send_event_bytes env data True x
         else
           ebind (send_event_bytes env data False x) (\<lambda>_ x.
             if ev_DividedSeqNum event = ev_DividedCount event - 1 \<and> length data = MaxPayloadLen
             then send_event_bytes env [] False x
             else (Ok (), x)))"

text \<open>The loop, for the inputs that it gets. It returns only with an error; \<open>Ok\<close> means that the inputs are used up and it
  waits for the next.\<close>

fun dump_loop :: "cmd_env \<Rightarrow> u32 \<Rightarrow> dump_input list \<Rightarrow> session \<Rightarrow> unit session_result" where
  "dump_loop env masterServerID [] x = (Ok (), x)"
| "dump_loop env masterServerID (GotEvent event # ins) x = ebind (write_dumped env event x) (\<lambda>_. dump_loop env masterServerID ins)"
| "dump_loop env masterServerID (GotError e # ins) x = (Err e, x)"
| "dump_loop env masterServerID (CtxDone # ins) x = (Err ErrCanceled, x)"
| "dump_loop env masterServerID (HeartbeatTimer # ins) x =
     ebind (sendHeartbeatEvent env masterServerID x) (\<lambda>_. dump_loop env masterServerID ins)"
| "dump_loop env masterServerID (Others s # ins) x = dump_loop env masterServerID ins (fst x, s)"

text \<open>What is sent before the first event: a rotate event with the name of the binlog file, and the format description.\<close>

definition dump_prelude :: "cmd_env \<Rightarrow> MysqlGTIDSet \<Rightarrow> session \<Rightarrow> (u32 \<times> dump) session_result" where
  "dump_prelude env slaveGtidExecuted x =
     ebind (store_outcome (CheckGtidSet (ce_os env) (ce_store env) (executedGtidSetStr (ce_progress env)) slaveGtidExecuted), x) (\<lambda>_ x.
     ebind (store_outcome (GetMySQLDumpAt (ce_os env) (ce_store env) slaveGtidExecuted), x) (\<lambda>preGtidEventIndex x.
     ebind (store_outcome (BinlogServer_GetFde (ce_os env) (ce_store env) preGtidEventIndex), x) (\<lambda>fde x.
     ebind (must (get_le32 (drop 5 fde)), x) (\<lambda>masterServerID x.
     ebind (store_outcome (BinlogServer_GetNextBinlogFile (ce_os env) (ce_store env) preGtidEventIndex), x) (\<lambda>file x.
     ebind (sendFakeRotateEvent env masterServerID file x) (\<lambda>_ x.
     ebind (sendFormatDescriptionEvent env fde x) (\<lambda>_ x.
     ebind (store_outcome (DumpBinlogAt (ce_disk env) preGtidEventIndex), x) (\<lambda>d x. (Ok (masterServerID, d), x)))))))))"

text \<open>The deferred \<^verbatim>\<open>UnregisterSlave\<close> runs on every return, also on a panic.\<close>

definition handleBinlogDumpGtid :: "cmd_env \<Rightarrow> dump_input list \<Rightarrow> bytes \<Rightarrow> session \<Rightarrow> unit session_result" where
  "handleBinlogDumpGtid env ins data x =
     ebind (parseMysqlGtidDumpPacket data, x) (\<lambda>(slaveGtidExecuted, _) x.
       case get_variable SlaveUUID x of
         Some (VString slaveUUID) \<Rightarrow>
           (case ebind (dump_prelude env slaveGtidExecuted x) (\<lambda>(masterServerID, _) x.
                   case get_variable MasterHeartbeatPeriod x of
                     Some (VString _) \<Rightarrow> (Crash, x)
                   | _ \<Rightarrow> dump_loop env masterServerID ins x) of
              (Ok _, x) \<Rightarrow> (Ok (), x)
            | (r, (c, s)) \<Rightarrow> (r, (c, UnregisterSlave slaveUUID s)))
       | _ \<Rightarrow> (Crash, x))"

section \<open>The loop of a connection\<close>

datatype command = COM_QUIT | COM_QUERY | COM_PING | COM_BINLOG_DUMP_GTID | COM_REGISTER_SLAVE | COM_OTHER

definition command_of :: "byte \<Rightarrow> command" where
  "command_of b =
     (if b = 1 then COM_QUIT else if b = 3 then COM_QUERY else if b = 14 then COM_PING else if b = 30 then COM_BINLOG_DUMP_GTID
      else if b = 21 then COM_REGISTER_SLAVE else COM_OTHER)"

text \<open>The result says whether the command is done; only a dump can be still waiting.\<close>

definition dispatch :: "cmd_env \<Rightarrow> dump_input list \<Rightarrow> bytes \<Rightarrow> session \<Rightarrow> bool session_result" where
  "dispatch env ins data x =
     (case data of
        [] \<Rightarrow> (Crash, x)
      | cmd # data \<Rightarrow>
          (case command_of cmd of
             COM_QUIT \<Rightarrow> (Ok True, (Conn_Close (fst x), snd x))
           | COM_QUERY \<Rightarrow> ebind (handleQuery env (BytesToString data) x) (\<lambda>_ x. (Ok True, x))
           | COM_PING \<Rightarrow> ebind (reply (writeOK (ce_net env) None) x) (\<lambda>_ x. (Ok True, x))
           | COM_BINLOG_DUMP_GTID \<Rightarrow> ebind (handleBinlogDumpGtid env ins data x) (\<lambda>_ x. (Ok False, x))
           | COM_REGISTER_SLAVE \<Rightarrow> ebind (handleRegisterSlave env data x) (\<lambda>_ x. (Ok True, x))
           | COM_OTHER \<Rightarrow> ebind (reply (writeError (ce_texts env) (ce_net env) ErrSQLNotSupport) x) (\<lambda>_ x. (Ok True, x))))"

text \<open>
  One round of \<^verbatim>\<open>Run\<close>: the command that the client sends next. The loop goes on with the next packet, is inside of a dump that
  waits for its next input, or has ended; \<open>Crash\<close> cannot come out of it, since \<^verbatim>\<open>Run\<close> recovers. A connection whose loop ends is
  closed.
\<close>

datatype round = Next | Dumping | Ended

definition close_session :: "session \<Rightarrow> session" where
  "close_session x = (if closed x then x else (Conn_Close (fst x), snd x))"

definition run_round :: "cmd_env \<Rightarrow> dump_input list \<Rightarrow> session \<Rightarrow> round \<times> session" where
  "run_round env ins x =
     (if closed x then (Ended, x)
      else
        (case on_base ReadPacket (fst x) of
           (Ok data, c) \<Rightarrow>
             (case dispatch env ins data (c, snd x) of
                (Err e, x) \<Rightarrow>
                  let x = (if e \<noteq> ErrCanceled \<and> \<not> closed x then snd (reply (writeError (ce_texts env) (ce_net env) e) x) else x)
                  in (Ended, close_session x)
              | (Crash, x) \<Rightarrow> (Ended, close_session x)
              | (Ok done, x) \<Rightarrow>
                  if \<not> done then (Dumping, x)
                  else if closed x then (Ended, x)
                  else (Next, ((fst x)\<lparr>base := (base (fst x))\<lparr>Sequence := 0\<rparr>\<rparr>, snd x)))
         | (_, c) \<Rightarrow> (Ended, close_session (c, snd x))))"

text \<open>\<^verbatim>\<open>Run\<close> for a number of rounds, each with the environment that it meets; the result says whether it is still running. A dump
  that waits reads no further packet: its loop only returns with an error.\<close>

fun Run :: "(cmd_env \<times> dump_input list) list \<Rightarrow> session \<Rightarrow> bool \<times> session" where
  "Run [] x = (True, x)"
| "Run ((env, ins) # rs) x = (case run_round env ins x of (Next, x) \<Rightarrow> Run rs x | (Dumping, x) \<Rightarrow> (True, x) | (Ended, x) \<Rightarrow> (False, x))"

end
