(* ===== verification/Command_Properties.thy ===== *)
theory Command_Properties
  imports Mysql_Command
begin

text \<open>
  What the commands of a connection achieve: the properties of \<^verbatim>\<open>src/mysql/command.go\<close> together with the syncer and the binlog
  server.
\<close>

section \<open>The variables of a connection\<close>

text \<open>The kinds of values that the type assertions of the handlers rely on.\<close>

definition typed :: "session \<Rightarrow> bool" where
  "typed x \<longleftrightarrow>
     (\<forall>v. get_variable SlaveUUID x = Some v \<longrightarrow> (\<exists>s. v = VString s)) \<and>
     (\<forall>v. get_variable MasterHeartbeatPeriod x = Some v \<longrightarrow> (\<exists>i. v = VInt i)) \<and>
     (\<forall>v. get_variable MasterBinlogChecksum x = Some v \<longrightarrow> v = VString ''crc32'')"

definition keeps_typed :: "session \<Rightarrow> 'a session_result \<Rightarrow> bool" where
  "keeps_typed x r \<longleftrightarrow> (typed x \<longrightarrow> typed (snd r))"

lemma typed_conn: "userVariables c' = userVariables c \<Longrightarrow> typed (c', s') = typed (c, s)"
  by (simp add: typed_def get_variable_def)

lemma typed_set_variable:
  assumes "typed x" "name = SlaveUUID \<Longrightarrow> \<exists>s. v = VString s" "name = MasterHeartbeatPeriod \<Longrightarrow> \<exists>i. v = VInt i"
    and "name = MasterBinlogChecksum \<Longrightarrow> v = VString ''crc32''"
  shows "typed (set_variable name v x)"
  using assms by (auto simp: typed_def get_variable_def set_variable_def update_conv' split: prod.splits)

lemma keeps_typed_refl: "keeps_typed x (r, x)"
  by (simp add: keeps_typed_def)

lemma keeps_typed_reply:
  assumes "\<And>c. answers c (f c)"
  shows "keeps_typed x (reply f x)"
proof -
  obtain c s where x: "x = (c, s)" by (meson surj_pair)
  obtain r b where "f c = (r, c\<lparr>base := b\<rparr>)" using assms [of c] by (cases "f c") (auto simp: answers_def)
  then show ?thesis using typed_conn [of "c\<lparr>base := b\<rparr>" c s s] by (simp add: keeps_typed_def reply_def x)
qed

lemma keeps_typed_ebind:
  assumes "keeps_typed x r" "\<And>a y. keeps_typed y (k a y)"
  shows "keeps_typed x (ebind r k)"
proof -
  obtain a y where "r = (a, y)" by (meson surj_pair)
  then show ?thesis using assms by (cases a) (auto simp: keeps_typed_def)
qed

lemmas keeps_typed_rules = keeps_typed_refl keeps_typed_reply keeps_typed_ebind answers_ops answers_on_base

lemma keeps_typed_server: "keeps_typed (fst x, s) r \<Longrightarrow> keeps_typed x r"
  using typed_conn [of "fst x" "fst x" s "snd x"] by (simp add: keeps_typed_def)

lemma keeps_typed_write_value: "keeps_typed x (write_value env n v x)"
  unfolding write_value_def by (intro keeps_typed_rules)

lemma keeps_typed_select: "keeps_typed x (handleSelect env flds x)"
  unfolding handleSelect_def handleSelectVariableExpr_def handleSelectFuncCallExpr_def Let_def
  by (auto split: list.splits expr.splits prod.splits intro!: keeps_typed_rules keeps_typed_write_value)

lemma keeps_typed_show: "keeps_typed x (handleShow env pat x)"
  unfolding handleShow_def by (auto split: option.splits intro!: keeps_typed_rules keeps_typed_write_value)

lemma keeps_typed_reply_set:
  assumes "\<And>c. answers c (f c)" "typed x \<Longrightarrow> typed y"
  shows "keeps_typed x (reply f y)"
  using keeps_typed_reply [of f y] assms by (simp add: keeps_typed_def)

lemma keeps_typed_kill: "keeps_typed x (handleKill env cid x)"
  unfolding handleKill_def Let_def case_prod_beta
  by (rule keeps_typed_reply_set [OF answers_ops(1)]) (metis typed_conn surjective_pairing)

lemma keeps_typed_set: "keeps_typed x (handleSet env vars x)"
proof -
  note ok = keeps_typed_reply_set [where f = "writeOK (ce_net env) None", OF answers_ops(1)]
  have n: "SlaveUUID \<noteq> MasterHeartbeatPeriod" "SlaveUUID \<noteq> MasterBinlogChecksum" "MasterHeartbeatPeriod \<noteq> MasterBinlogChecksum"
    "SetNames \<noteq> SlaveUUID" "SetNames \<noteq> MasterHeartbeatPeriod" "SetNames \<noteq> MasterBinlogChecksum"
    by (simp_all add: variable_names)
  have t: "typed x \<Longrightarrow> typed (set_variable MasterHeartbeatPeriod (VInt i) x)" "typed x \<Longrightarrow> typed (set_variable SlaveUUID (VString v) x)"
    "typed x \<Longrightarrow> typed (set_variable MasterBinlogChecksum (VString ''crc32'') x)" "typed x \<Longrightarrow> typed (set_variable SetNames (VString v) x)"
    for i v using n by (auto intro!: typed_set_variable)
  have h: "typed x \<Longrightarrow> typed (let x = set_variable MasterHeartbeatPeriod (VInt i) x
      in case get_variable SlaveUUID x of None \<Rightarrow> x
         | Some slaveUUID \<Rightarrow> (fst x, (snd x)\<lparr>slaves := set_heartbeat slaveUUID i (slaves (snd x))\<rparr>))" for i
    using t(1) [of i] typed_conn [of "fst (set_variable MasterHeartbeatPeriod (VInt i) x)" "fst (set_variable MasterHeartbeatPeriod (VInt i) x)"
      "snd (set_variable MasterHeartbeatPeriod (VInt i) x)"]
    by (auto simp: Let_def split: option.splits)
  have o: "keeps_typed x (case i of None \<Rightarrow> (Crash, x) | Some period \<Rightarrow> reply (writeOK (ce_net env) None) (f period))"
    if "\<And>period. typed x \<Longrightarrow> typed (f period)" for i :: "int option" and f using that by (cases i) (auto intro!: keeps_typed_refl ok)
  show ?thesis
    unfolding handleSet_def Let_def
    by (auto simp: n n(1) [symmetric] split: list.splits prod.splits expr.splits
        intro!: keeps_typed_refl o ok t h [unfolded Let_def])
qed

lemma keeps_typed_query: "keeps_typed x (handleQuery env sql x)"
proof -
  have r: "keeps_typed x (case r of (Crash, y) \<Rightarrow> (Err ErrRuntime, y) | r \<Rightarrow> r)" if "keeps_typed x r" for r :: "unit session_result"
    using that by (auto simp: keeps_typed_def split: prod.splits outcome.splits)
  show ?thesis unfolding handleQuery_def
    by (rule r) (auto split: option.splits stmt.splits
        intro!: keeps_typed_refl keeps_typed_show keeps_typed_select keeps_typed_set keeps_typed_kill)
qed

lemma keeps_typed_other_server:
  "keeps_typed (c, s) (reply (writeOK (ce_net env) None) (c, s'))" "keeps_typed (c, s) (r, (c, s'))"
  using typed_conn [of c c s s'] by (auto simp: keeps_typed_def intro!: keeps_typed_reply_set [unfolded keeps_typed_def, rule_format] answers_ops)

lemma keeps_typed_register: "keeps_typed x (handleRegisterSlave env data x)"
proof -
  have k: "keeps_typed y (killZombieDumpThreads y)" for y
    by (cases y) (auto simp: killZombieDumpThreads_def split: option.splits variable.splits intro!: keeps_typed_other_server)
  have c: "keeps_typed y (case r of (Ok _, s) \<Rightarrow> reply (writeOK (ce_net env) None) (fst y, s) | (Err e, s) \<Rightarrow> (Err e, (fst y, s))
      | (Crash, s) \<Rightarrow> (Crash, (fst y, s)))" for y and r :: "(mysql_error, unit) outcome \<times> BinlogServer"
    by (cases y; cases r; cases "fst r") (auto intro!: keeps_typed_other_server)
  show ?thesis
    unfolding handleRegisterSlave_def Let_def
    by (intro keeps_typed_ebind keeps_typed_refl k) (auto split: option.split variable.split intro!: c keeps_typed_refl)
qed

lemma keeps_typed_send: "keeps_typed x (send_event_bytes env data first x)"
  unfolding send_event_bytes_def by (intro keeps_typed_rules)

lemma keeps_typed_dump_loop: "keeps_typed x (dump_loop env m ins x)"
proof (induction env m ins x rule: dump_loop.induct)
  case (2 env m event ins x)
  have "keeps_typed x (write_dumped env event x)" unfolding write_dumped_def Let_def
    by (auto intro!: keeps_typed_send keeps_typed_ebind keeps_typed_refl)
  then show ?case using 2 by (auto intro!: keeps_typed_ebind)
next
  case (5 env m ins x)
  have "keeps_typed x (sendHeartbeatEvent env m x)" unfolding sendHeartbeatEvent_def by (rule keeps_typed_send)
  then show ?case using 5 by (auto intro!: keeps_typed_ebind)
next
  case (6 env m s ins x)
  then show ?case using typed_conn [of "fst x" "fst x" "snd x" s] by (simp add: keeps_typed_def)
qed (auto intro: keeps_typed_refl)

lemma keeps_typed_prelude: "keeps_typed x (dump_prelude env g x)"
  unfolding dump_prelude_def sendFakeRotateEvent_def sendFormatDescriptionEvent_def Let_def
  by (auto intro!: keeps_typed_ebind keeps_typed_refl keeps_typed_send split: if_split)

lemma keeps_typed_dump: "keeps_typed x (handleBinlogDumpGtid env ins data x)"
proof -
  have d: "keeps_typed y (case r of (Ok _, y) \<Rightarrow> (Ok (), y) | (r, (c, s)) \<Rightarrow> (r, (c, UnregisterSlave u s)))" if "keeps_typed y r"
    for y u and r :: "unit session_result"
    using that typed_conn [of "fst (snd r)" "fst (snd r)" "UnregisterSlave u (snd (snd r))" "snd (snd r)"]
    by (auto simp: keeps_typed_def split: prod.splits outcome.splits)
  have l: "keeps_typed y (ebind (dump_prelude env g y) (\<lambda>(m, _) y.
      case get_variable MasterHeartbeatPeriod y of Some (VString _) \<Rightarrow> (Crash, y) | _ \<Rightarrow> dump_loop env m ins y))" for y g
    by (intro keeps_typed_ebind keeps_typed_prelude)
      (auto split: option.splits variable.splits intro: keeps_typed_refl keeps_typed_dump_loop)
  show ?thesis
    unfolding handleBinlogDumpGtid_def
    by (intro keeps_typed_ebind keeps_typed_refl) (auto split: option.split variable.split intro!: d l keeps_typed_refl)
qed

lemma keeps_typed_dispatch: "keeps_typed x (dispatch env ins data x)"
proof -
  have "keeps_typed x (r, (Conn_Close (fst x), snd x))" for r :: "(mysql_error, bool) outcome"
    using typed_conn [of "Conn_Close (fst x)" "fst x" "snd x" "snd x"] by (simp add: keeps_typed_def Conn_Close_def)
  then show ?thesis
    unfolding dispatch_def
    by (auto split: list.split command.split
        intro!: keeps_typed_rules keeps_typed_query keeps_typed_dump keeps_typed_register)
qed

lemma typed_close: "typed (close_session x) = typed x"
  using typed_conn [of "Conn_Close (fst x)" "fst x" "snd x" "snd x"] by (simp add: close_session_def Conn_Close_def)

lemma closed_close: "closed (close_session x)"
  by (auto simp: close_session_def closed_def Conn_Close_def split: prod.splits)

lemma run_round_inv:
  assumes "run_round env ins x = (g, y)"
  shows "(typed x \<longrightarrow> typed y) \<and> (g = Ended \<longrightarrow> closed y)"
proof (cases "closed x")
  case True
  then show ?thesis using assms by (auto simp: run_round_def)
next
  case False
  obtain r c where r: "on_base ReadPacket (fst x) = (r, c)" by (meson surj_pair)
  have c: "typed (c, snd x) = typed x"
    using r typed_conn [of c "fst x" "snd x" "snd x"] by (auto simp: on_base_Ok)
  show ?thesis
  proof (cases r)
    case (Ok data)
    obtain r' z where d: "dispatch env ins data (c, snd x) = (r', z)" by (meson surj_pair)
    then have t: "typed x \<Longrightarrow> typed z" using keeps_typed_dispatch [of "(c, snd x)" env ins data] c by (simp add: keeps_typed_def)
    have w: "typed z \<Longrightarrow> typed (snd (reply (writeError (ce_texts env) (ce_net env) e) z))" for e
      using keeps_typed_reply [of "writeError (ce_texts env) (ce_net env) e" z] answers_ops(2) by (simp add: keeps_typed_def)
    have q: "typed ((fst z)\<lparr>base := b\<rparr>, snd z) = typed z" for b using typed_conn [of "(fst z)\<lparr>base := b\<rparr>" "fst z" "snd z" "snd z"] by simp
    show ?thesis
      using assms False r Ok d t w q
      by (cases r') (auto simp: run_round_def Let_def typed_close closed_close split: if_splits)
  qed (use assms False r c in \<open>auto simp: run_round_def typed_close closed_close\<close>)
qed

text \<open>C37: the variables of a connection have the types that the handlers assert, in every run of its loop from a new connection,
  and a loop that has ended leaves the connection closed.\<close>

theorem connection_loop:
  assumes "userVariables c = []"
  shows "typed (snd (Run rs (c, s))) \<and> (fst (Run rs (c, s)) \<or> closed (snd (Run rs (c, s))))"
proof -
  have "typed x \<Longrightarrow> typed (snd (Run rs x)) \<and> (fst (Run rs x) \<or> closed (snd (Run rs x)))" for x
  proof (induction rs x rule: Run.induct)
    case (2 env ins rs x)
    obtain g y where r: "run_round env ins x = (g, y)" by (meson surj_pair)
    then show ?case using 2 run_round_inv [OF r] by (cases g) auto
  qed simp
  moreover have "typed (c, s)" using assms by (simp add: typed_def get_variable_def)
  ultimately show ?thesis by blast
qed

section \<open>From the master to the slave\<close>

definition sent_packet :: "bytes \<Rightarrow> Conn \<Rightarrow> Conn" where
  "sent_packet p c = c\<lparr>base := (base c)\<lparr>sent := sent (base c) @ packet (Sequence (base c)) p, Sequence := Sequence (base c) + 1\<rparr>\<rparr>"

definition sent_bytes :: "bytes \<Rightarrow> byte \<Rightarrow> Conn \<Rightarrow> Conn" where
  "sent_bytes w q c = c\<lparr>base := (base c)\<lparr>sent := sent (base c) @ w, Sequence := q\<rparr>\<rparr>"

lemma sent_packet_bytes: "sent_packet p c = sent_bytes (packet (Sequence (base c)) p) (Sequence (base c) + 1) c"
  by (simp add: sent_packet_def sent_bytes_def)

lemma sent_bytes_simps [simp]:
  "sent_bytes w' q' (sent_bytes w q c) = sent_bytes (w @ w') q' c" "Sequence (base (sent_bytes w q c)) = q"
  "closed (sent_bytes w q c, s) = closed (c, s)"
  by (simp_all add: sent_bytes_def closed_def)

lemma send_bytes_ok:
  assumes "ce_net env = net_ok" "\<not> closed (c, s)" "length ((if first then [0] else []) @ data) \<le> MaxPayloadLen"
  shows "send_event_bytes env data first (c, s) = (Ok (), (sent_packet ((if first then [0] else []) @ data) c, s))"
  using assms
  by (cases first) (simp_all add: send_event_bytes_def reply_def on_base_def WriteEvent_def OKHeaderByte_def sent_packet_def packet_def Let_def)

text \<open>The payload of the packets of an event, in pieces.\<close>

abbreviation payload :: "MasterEvent \<Rightarrow> bytes" where
  "payload e \<equiv> 0 # RawData e"

lemma part_payload:
  "(if i = 0 then [0] else []) @ part_data e i = take MaxPayloadLen (drop (i * MaxPayloadLen) (payload e))"
proof (cases i)
  case 0
  then show ?thesis using MaxPayloadLen_bounds(1) by (simp add: part_data_def take_Cons')
next
  case (Suc j)
  then obtain m where "i * MaxPayloadLen = Suc m" using MaxPayloadLen_bounds(1) by (cases "i * MaxPayloadLen") auto
  then show ?thesis using Suc by (simp add: part_data_def)
qed

lemma part_bounds:
  assumes "length (RawData e) < 2 ^ 32" "MaxPayloadLen \<le> length (RawData e) + 1" "length (RawData e) mod MaxPayloadLen \<noteq> 0"
  shows "(part_count e - 1) * MaxPayloadLen \<le> length (payload e)" "length (payload e) < part_count e * MaxPayloadLen"
    "0 < part_count e" "part_count e < 2 ^ 32"
proof -
  show "(part_count e - 1) * MaxPayloadLen \<le> length (payload e)" "0 < part_count e"
    using divided_count_covers [OF assms(1,2)] by simp_all
  have "part_count e = (length (RawData e) + 1) div MaxPayloadLen + 1" using divided_count_value [OF assms(1)] assms(3) by simp
  then show "length (payload e) < part_count e * MaxPayloadLen"
    using MaxPayloadLen_bounds(1) dividend_less_div_times [of MaxPayloadLen "length (RawData e) + 1"] by simp
  show "part_count e < 2 ^ 32" using unsigned_less [of "divided_count (length (RawData e))", where 'a = nat] by simp
qed

lemma write_part:
  assumes "ce_net env = net_ok" "\<not> closed (c, s)" "i < part_count e"
    and "length (RawData e) < 2 ^ 32" "MaxPayloadLen \<le> length (RawData e) + 1" "length (RawData e) mod MaxPayloadLen \<noteq> 0"
  shows "write_dumped env (event_part e i) (c, s) = (Ok (), (sent_packet (take MaxPayloadLen (drop (i * MaxPayloadLen) (payload e))) c, s))"
proof -
  note b = part_bounds [OF assms(4-6)]
  have u: "unat (of_nat i :: u32) = i" using assms(3) b(4) by (simp add: unat_of_nat take_bit_nat_eq_self)
  then have n: "(of_nat i :: u32) = 0 \<longleftrightarrow> i = 0" using unat_eq_zero [of "of_nat i :: u32"] by simp
  have z: "divided_count (length (RawData e)) \<noteq> 0" using b(3) by auto
  then have z': "0 < divided_count (length (RawData e))" by (simp add: word_neq_0_conv)
  have l: "length ((if i = 0 then [0] else []) @ part_data e i) \<le> MaxPayloadLen" unfolding part_payload by simp
  have k: "length (part_data e i) \<noteq> MaxPayloadLen" if i: "of_nat i = divided_count (length (RawData e)) - 1" "i \<noteq> 0"
  proof -
    have "Suc i = part_count e" using i(1) u unat_minus_one [OF z] b(3) by simp
    then have "length (payload e) < MaxPayloadLen + i * MaxPayloadLen" using b(2) by (metis mult_Suc)
    then have "length (payload e) - i * MaxPayloadLen < MaxPayloadLen" using MaxPayloadLen_bounds(1) by linarith
    then show ?thesis using part_payload [of i e] i(2) by simp
  qed
  have d: "write_dumped env (event_part e i) (c, s) =
      (if i = 0 then send_event_bytes env (part_data e i) True (c, s)
       else ebind (send_event_bytes env (part_data e i) False (c, s)) (\<lambda>_ x.
         if of_nat i = divided_count (length (RawData e)) - 1 \<and> length (part_data e i) = MaxPayloadLen
         then send_event_bytes env [] False x else (Ok (), x)))"
    using z z' n unfolding write_dumped_def event_part_def by (simp add: nil_bytes_def Let_def)
  show ?thesis
  proof (cases "i = 0")
    case True
    then show ?thesis using send_bytes_ok [OF assms(1,2), of True "part_data e i"] l part_payload [of i e] unfolding d by simp
  next
    case False
    then show ?thesis using send_bytes_ok [OF assms(1,2), of False "part_data e i"] l k part_payload [of i e] unfolding d by auto
  qed
qed

lemma write_parts:
  assumes "ce_net env = net_ok" "length (RawData e) < 2 ^ 32" "MaxPayloadLen \<le> length (RawData e) + 1" "length (RawData e) mod MaxPayloadLen \<noteq> 0"
    and "\<not> closed (c, s)" "i < part_count e"
  shows "\<exists>w q. framed (Sequence (base c)) (drop (i * MaxPayloadLen) (payload e)) w q \<and>
    dump_loop env m (map (GotEvent \<circ> event_part e) [i..<part_count e] @ ins) (c, s) = dump_loop env m ins (sent_bytes w q c, s)"
  using assms(5,6)
proof (induction "part_count e - i" arbitrary: i c)
  case (Suc k)
  note b = part_bounds [OF assms(2-4)]
  let ?d = "drop (i * MaxPayloadLen) (payload e)" and ?q = "Sequence (base c)"
  have u: "[i..<part_count e] = i # [Suc i..<part_count e]" using Suc.prems by (simp add: upt_conv_Cons)
  have w: "dump_loop env m (map (GotEvent \<circ> event_part e) [i..<part_count e] @ ins) (c, s) =
      dump_loop env m (map (GotEvent \<circ> event_part e) [Suc i..<part_count e] @ ins) (sent_packet (take MaxPayloadLen ?d) c, s)"
    unfolding u using write_part [OF assms(1) Suc.prems assms(2-4)] by simp
  show ?case
  proof (cases "Suc i = part_count e")
    case True
    then have "length (payload e) < MaxPayloadLen + i * MaxPayloadLen" using b(2) by (metis mult_Suc)
    then have "length ?d < MaxPayloadLen" using MaxPayloadLen_bounds(1) by simp
    then have "framed ?q ?d (packet ?q ?d) (?q + 1)" "take MaxPayloadLen ?d = ?d" by (auto intro: framed.last)
    then show ?thesis using w True by (auto simp: sent_packet_bytes)
  next
    case False
    then have "Suc i * MaxPayloadLen \<le> (part_count e - 1) * MaxPayloadLen" using Suc.prems(2) by (intro mult_le_mono1) simp
    then have l: "length (take MaxPayloadLen ?d) = MaxPayloadLen" using b(1) by simp
    have r: "drop (Suc i * MaxPayloadLen) (payload e) = drop MaxPayloadLen ?d" by (simp add: add.commute)
    let ?c = "sent_packet (take MaxPayloadLen ?d) c"
    have "\<not> closed (?c, s)" "Suc i < part_count e" "k = part_count e - Suc i" using Suc False by (auto simp: sent_packet_bytes)
    from Suc.hyps(1) [OF this(3,1,2)]
    obtain w q where f: "framed (?q + 1) (drop MaxPayloadLen ?d) w q"
      and "dump_loop env m (map (GotEvent \<circ> event_part e) [Suc i..<part_count e] @ ins) (?c, s) = dump_loop env m ins (sent_bytes w q ?c, s)"
      unfolding r by (auto simp: sent_packet_bytes)
    moreover have "framed ?q ?d (packet ?q (take MaxPayloadLen ?d) @ w) q"
      using framed.more [OF l f] by (simp only: append_take_drop_id)
    ultimately show ?thesis using w by (auto simp: sent_packet_bytes)
  qed
qed simp
lemma write_proposals:
  assumes "ce_net env = net_ok" "\<not> closed (c, s)" "master_event e" "length (RawData e) mod MaxPayloadLen \<noteq> 0"
  shows "\<exists>w q. framed (Sequence (base c)) (payload e) w q \<and>
    dump_loop env m (map GotEvent (proposals e) @ ins) (c, s) = dump_loop env m ins (sent_bytes w q c, s)"
proof (cases "length (RawData e) + 1 < MaxPayloadLen")
  case True
  then have "write_dumped env (small_event e) (c, s) = (Ok (), (sent_packet (payload e) c, s))"
    using send_bytes_ok [OF assms(1,2), of True "RawData e"] by (simp add: write_dumped_def small_event_def nil_bytes_def Let_def)
  moreover have "framed (Sequence (base c)) (payload e) (packet (Sequence (base c)) (payload e)) (Sequence (base c) + 1)"
    using True by (intro framed.last) simp
  ultimately show ?thesis using True by (auto simp: proposals_def sent_packet_bytes)
next
  case False
  have l: "length (RawData e) < 2 ^ 32" "MaxPayloadLen \<le> length (RawData e) + 1" using assms(3) False by (simp_all add: master_event_def)
  have "0 < part_count e" by (rule part_bounds(3) [OF l assms(4)])
  from write_parts [OF assms(1) l assms(4,2) this, of m ins] show ?thesis using False by (auto simp: proposals_def)
qed

text \<open>A sequence of payloads on the wire.\<close>

inductive framed_all :: "byte \<Rightarrow> bytes list \<Rightarrow> bytes \<Rightarrow> byte \<Rightarrow> bool" where
  none: "framed_all q [] [] q"
| some: "framed q p w q' \<Longrightarrow> framed_all q' ps w' q'' \<Longrightarrow> framed_all q (p # ps) (w @ w') q''"

lemma write_all_proposals:
  assumes "ce_net env = net_ok" "\<not> closed (c, s)" "list_all master_event evs" "list_all (\<lambda>e. length (RawData e) mod MaxPayloadLen \<noteq> 0) evs"
  shows "\<exists>w q. framed_all (Sequence (base c)) (map payload evs) w q \<and>
    dump_loop env m (map GotEvent (concat (map proposals evs))) (c, s) = (Ok (), (sent_bytes w q c, s))"
  using assms(2-4)
proof (induction evs arbitrary: c)
  case Nil
  have "sent_bytes [] (Sequence (base c)) c = c" by (simp add: sent_bytes_def)
  then show ?case using framed_all.none [of "Sequence (base c)"] by force
next
  case (Cons e evs)
  let ?ins = "map GotEvent (concat (map proposals evs))"
  obtain w q where w: "framed (Sequence (base c)) (payload e) w q"
    "dump_loop env m (map GotEvent (proposals e) @ ?ins) (c, s) = dump_loop env m ?ins (sent_bytes w q c, s)"
    using write_proposals [OF assms(1) Cons.prems(1), of e m ?ins] Cons.prems by auto
  obtain w' q' where w': "framed_all q (map payload evs) w' q'"
    "dump_loop env m ?ins (sent_bytes w q c, s) = (Ok (), (sent_bytes w' q' (sent_bytes w q c), s))"
    using Cons.IH [of "sent_bytes w q c"] Cons.prems by auto
  then show ?case using w framed_all.some [OF w(1) w'(1)] by auto
qed

text \<open>C11: the events of the master, divided and proposed by the syncer and written by the dump, are on the wire to the slave
  as the packets of exactly those events, each with its leading zero byte, in their order; heartbeats are left out.
  It holds for events whose length is not a multiple of \<^const>\<open>MaxPayloadLen\<close>. The applying of the entries in between is
  not part of it; it fails for the first part of an event of at least that length (\<open>large_event_stops_server\<close>).\<close>

theorem master_to_slave:
  assumes "sy_started s0" "cfg_Flavor (sy_cfg s0) = MySQLFlavor" "binlogEventC s0 = []"
    and "list_all master_event evs" "list_all (\<lambda>e. length (RawData e) mod MaxPayloadLen \<noteq> 0) evs"
    and "ce_net env = net_ok" "\<not> closed (c, s)"
  shows "\<exists>s1 w q. sync_loop (\<lambda>_. False) (map Some evs) s0 = (Ok (), s1) \<and>
    framed_all (Sequence (base c)) (map payload (filter (\<lambda>e. h_EventType (me_Header e) \<noteq> HEARTBEAT_EVENT) evs)) w q \<and>
    dump_loop env m (map GotEvent (binlogEventC s1)) (c, s) = (Ok (), (sent_bytes w q c, s))"
proof -
  let ?evs = "filter (\<lambda>e. h_EventType (me_Header e) \<noteq> HEARTBEAT_EVENT) evs"
  obtain s1 where s1: "sync_loop (\<lambda>_. False) (map Some evs) s0 = (Ok (), s1)" "binlogEventC s1 = concat (map proposals ?evs)"
    using sync_loop_proposals [OF assms(1,2,4)] assms(3) by auto
  have "list_all master_event ?evs" "list_all (\<lambda>e. length (RawData e) mod MaxPayloadLen \<noteq> 0) ?evs"
    using assms(4,5) by (simp_all add: list_all_iff)
  then show ?thesis using write_all_proposals [OF assms(6,7)] s1 by metis
qed

section \<open>Registering a slave again\<close>

lemma dump_loop_append:
  "dump_loop env m (ins @ ins') x = ebind (dump_loop env m ins x) (\<lambda>_. dump_loop env m ins')"
proof (induction ins arbitrary: x)
  case (Cons i ins)
  show ?case
  proof (cases i)
    case (GotEvent event)
    obtain r y where r: "write_dumped env event x = (r, y)" by (meson surj_pair)
    show ?thesis by (cases r) (simp_all add: GotEvent r Cons.IH)
  next
    case HeartbeatTimer
    obtain r y where r: "sendHeartbeatEvent env m x = (r, y)" by (meson surj_pair)
    show ?thesis by (cases r) (simp_all add: HeartbeatTimer r Cons.IH)
  qed (simp_all add: Cons.IH)
qed simp

lemma waiting_dump_ends:
  assumes "handleBinlogDumpGtid env ins data (c, s0) = (Ok (), (c1, s))" "get_variable SlaveUUID (c, s0) = Some (VString u)"
  shows "handleBinlogDumpGtid env (ins @ [Others s1, CtxDone]) data (c, s0) = (Err ErrCanceled, (c1, UnregisterSlave u s1))"
proof -
  obtain g i where p: "parseMysqlGtidDumpPacket data = Ok (g, i)"
    using assms(1) by (cases "parseMysqlGtidDumpPacket data") (auto simp: handleBinlogDumpGtid_def)
  obtain r x where d: "dump_prelude env g (c, s0) = (r, x)" by (meson surj_pair)
  have "\<exists>v. r = Ok v" using assms p d by (cases r; cases x) (auto simp: handleBinlogDumpGtid_def)
  then obtain m d' where r: "r = Ok (m, d')" by auto
  obtain r' x' where l: "dump_loop env m ins x = (r', x')" by (meson surj_pair)
  have h: "(case get_variable MasterHeartbeatPeriod x of Some (VString _) \<Rightarrow> (Crash, x) | _ \<Rightarrow> dump_loop env m ins' x) = dump_loop env m ins' x"
    for ins' using assms p d r by (auto simp: handleBinlogDumpGtid_def split: option.splits variable.splits prod.splits)
  have "r' = Ok ()" "x' = (c1, s)"
    using assms p d r l h [of ins] by (cases r'; cases x'; simp add: handleBinlogDumpGtid_def)+
  then show ?thesis
    using assms(2) p d r l h [of "ins @ [Others s1, CtxDone]"] by (simp add: handleBinlogDumpGtid_def dump_loop_append)
qed

lemma register_again:
  assumes "handleRegisterSlave env data (c, s) = (Ok (), (c1, s1))" "get_variable SlaveUUID (c, s) = Some (VString u)"
    and "map_of (GetSlaves s) u = Some sl" "sl_Conn sl \<noteq> connectionID c"
  shows "sl_Conn sl \<in> set (closed_conns s1)" "connectionID c1 = connectionID c" "\<exists>sl1. map_of (GetSlaves s1) u = Some sl1 \<and> sl_Conn sl1 = connectionID c"
proof -
  obtain sl0 where p: "parse_slave data = Ok sl0"
    using assms(1) by (cases "parse_slave data") (auto simp: handleRegisterSlave_def)
  have u: "u \<noteq> []" using assms p
    by (auto simp: handleRegisterSlave_def killZombieDumpThreads_def get_variable_def RegisterSlave_def Let_def)
  let ?s = "UnregisterSlave u s" and ?sl = "sl0\<lparr>sl_UUID := u, sl_ConnectTime := ce_now env, sl_Conn := connectionID c\<rparr>"
  have k: "killZombieDumpThreads (c, s) = (Ok (), (c, ?s))"
    using assms(2-4) u by (simp add: killZombieDumpThreads_def get_variable_def)
  have e: "handleRegisterSlave env data (c, s) = reply (writeOK (ce_net env) None) (c, snd (RegisterSlave ?sl ?s))"
    using p k assms(2) u by (simp add: handleRegisterSlave_def get_variable_def RegisterSlave_def Let_def)
  obtain r b where w: "writeOK (ce_net env) None c = (r, c\<lparr>base := b\<rparr>)"
    using answers_ops(1) [of c "ce_net env" None] by (cases "writeOK (ce_net env) None c") (auto simp: answers_def)
  have s1: "s1 = snd (RegisterSlave ?sl ?s)" "c1 = c\<lparr>base := b\<rparr>"
    using assms(1) w unfolding e reply_def by (auto split: if_splits)
  show "sl_Conn sl \<in> set (closed_conns s1)"
    using UnregisterSlave_closes(2) [OF assms(3)] closed_conns_mono(2) [of ?sl ?s] s1 by simp
  show "connectionID c1 = connectionID c" using s1 by simp
  show "\<exists>sl1. map_of (GetSlaves s1) u = Some sl1 \<and> sl_Conn sl1 = connectionID c"
    using RegisterSlave_lookup [of ?sl ?s] u s1 by simp
qed

text \<open>C38: a slave that registers again on a new connection \<open>b\<close>, while the dump of its old connection \<open>a\<close> is still waiting, loses
  the new connection: the old dump is cancelled and its deferred \<^verbatim>\<open>UnregisterSlave\<close> then unregisters and closes the new one,
  which has the same uuid.\<close>

theorem old_dump_closes_new_slave:
  assumes "handleBinlogDumpGtid env ins data (a, s0) = (Ok (), (a1, s))" "get_variable SlaveUUID (a, s0) = Some (VString u)"
    and "map_of (GetSlaves s) u = Some sl" "sl_Conn sl = connectionID a1" "connectionID a1 \<noteq> connectionID b"
    and "get_variable SlaveUUID (b, s) = Some (VString u)" "handleRegisterSlave env' data' (b, s) = (Ok (), (b1, s1))"
  shows "closed (a1, s1) \<and> (\<exists>sl1. map_of (GetSlaves s1) u = Some sl1 \<and> sl_Conn sl1 = connectionID b1) \<and>
    (\<exists>a2 s2. handleBinlogDumpGtid env (ins @ [Others s1, CtxDone]) data (a, s0) = (Err ErrCanceled, (a2, s2)) \<and>
       map_of (GetSlaves s2) u = None \<and> closed (b1, s2))"
proof -
  note r = register_again [OF assms(7,6,3)]
  obtain sl1 where sl1: "map_of (GetSlaves s1) u = Some sl1" "sl_Conn sl1 = connectionID b1" using r assms(4,5) by auto
  have "closed (a1, s1)" using r(1) assms(4,5) by (simp add: closed_def)
  moreover have "map_of (GetSlaves (UnregisterSlave u s1)) u = None" "closed (b1, UnregisterSlave u s1)"
    using UnregisterSlave_closes [OF sl1(1)] sl1(2) by (simp_all add: closed_def)
  ultimately show ?thesis using waiting_dump_ends [OF assms(1,2)] sl1 by blast
qed

section \<open>Requests and events on the wire\<close>

text \<open>The request for a dump, as a client sends it.\<close>

lemma parse_dump_request:
  assumes "gtids_storable g" "length name < 2 ^ 32"
  shows "parseMysqlGtidDumpPacket
    (le16 flags @ le32 sid @ le32 (of_nat (length name)) @ name @ le64 pos @ le32 n @ GTIDSet_Encode g) = Ok (g, sid)"
  using assms DecodeMysqlGTIDSet_Encode [OF assms(1)]
  by (simp add: parseMysqlGtidDumpPacket_def Let_def unat_of_nat take_bit_nat_eq_self store_outcome_def)

lemma read_counted_bytes:
  assumes "drop pos data = of_nat (length b) # b @ rest" "length b < 256"
  shows "read_counted data pos = Ok (b, pos + 1 + length b)" "drop (pos + 1 + length b) data = rest"
proof -
  have p: "pos < length data" by (rule ccontr) (use assms(1) in simp)
  then have "drop pos data = data ! pos # drop (Suc pos) data" by (simp add: Cons_nth_drop_Suc)
  then have e: "data ! pos = of_nat (length b)" "drop (Suc pos) data = b @ rest" using assms(1) by simp_all
  have "length (drop (Suc pos) data) = length b + length rest" using e(2) by simp
  then have l: "Suc pos + length b \<le> length data" using p by simp
  have "packet_slice data (Suc pos) (Suc pos + length b) = Some b" using packet_slice_inside [OF _ l] e(2) by simp
  then show "read_counted data pos = Ok (b, pos + 1 + length b)"
    using p e(1) unat_byte_round [OF assms(2)] by (simp add: read_counted_def Let_def)
  have "drop (length b) (drop (Suc pos) data) = rest" using e(2) by simp
  then show "drop (pos + 1 + length b) data = rest" by (simp add: add.commute)
qed

lemma parse_slave_bytes:
  assumes "length h < 256" "length u < 256" "length p < 256"
    and "data = le32 sid @ [of_nat (length h)] @ h @ [of_nat (length u)] @ u @ [of_nat (length p)] @ p @ le16 port @ le32 rank @ le32 mid"
  shows "parse_slave data =
    Ok \<lparr>sl_State = REGISTERED, sl_ServerID = sid, sl_UUID = [], sl_HostName = BytesToString h, sl_Port = port, sl_Rank = rank,
        sl_MasterID = mid, sl_User = BytesToString u, sl_Password = BytesToString p, sl_ConnectTime = 0, sl_HeartBeat = 0, sl_Conn = 0\<rparr>"
proof -
  have "drop 4 data = of_nat (length h) # h @ [of_nat (length u)] @ u @ [of_nat (length p)] @ p @ le16 port @ le32 rank @ le32 mid"
    using assms(4) by simp
  note h = read_counted_bytes [OF this assms(1)]
  let ?i = "4 + 1 + length h"
  note u = read_counted_bytes [of ?i data u, OF _ assms(2)]
  have u: "read_counted data ?i = Ok (u, ?i + 1 + length u)"
    "drop (?i + 1 + length u) data = [of_nat (length p)] @ p @ le16 port @ le32 rank @ le32 mid"
    using u h(2) by simp_all
  let ?j = "?i + 1 + length u"
  have p: "read_counted data ?j = Ok (p, ?j + 1 + length p)" "drop (?j + 1 + length p) data = le16 port @ le32 rank @ le32 mid"
    using read_counted_bytes [of ?j data p, OF _ assms(3)] u(2) by simp_all
  have d: "drop (k + m) data = drop m (drop k data)" for k m by (simp add: add.commute)
  show ?thesis
    unfolding parse_slave_def h(1) obind_simps prod.case u(1) p(1) d [of "?j + 1 + length p"] p(2) using assms(4) by simp
qed

text \<open>The heartbeat and the rotate event that the server makes are events of the binlog, with their checksum.\<close>

lemma encodeEventHeader_bytes: "encodeEventHeader h @ body @ crc = event_bytes h body crc"
  by (simp add: encodeEventHeader_def event_bytes_def)

lemma built_events:
  assumes "length file + 31 < 2 ^ 32"
  shows "\<exists>h crc. buildHeartbeatEvent file sid pos = event_bytes h (StringToBytes file) crc \<and> event_ok h (StringToBytes file) crc \<and>
      h_EventType h = HEARTBEAT_EVENT \<and> LogPos h = pos"
    "\<exists>h crc. buildFakeRotateEvent sid file True = event_bytes h (le64 4 @ StringToBytes file) crc \<and>
      event_ok h (le64 4 @ StringToBytes file) crc \<and> h_EventType h = ROTATE_EVENT"
proof -
  let ?h = "\<lparr>Timestamp = 0, h_EventType = HEARTBEAT_EVENT, ServerID = sid,
    EventSize = of_nat (EventHeaderSize + length file + BinlogChecksumLength), LogPos = pos, Flags = 0x20\<rparr>"
  let ?r = "\<lparr>Timestamp = 0, h_EventType = ROTATE_EVENT, ServerID = sid,
    EventSize = of_nat (EventHeaderSize + 8 + length file + BinlogChecksumLength), LogPos = 0, Flags = 0x20\<rparr>"
  have u: "unat (of_nat n :: u32) = n" if "n < 2 ^ 32" for n using that by (simp add: unat_of_nat take_bit_nat_eq_self)
  have "buildHeartbeatEvent file sid pos =
      event_bytes ?h (StringToBytes file) (le32 (ChecksumIEEE (encodeEventHeader ?h @ StringToBytes file)))"
    by (simp add: buildHeartbeatEvent_def Let_def flip: encodeEventHeader_bytes)
  moreover have "event_ok ?h (StringToBytes file) (le32 crc)" for crc
    using assms u [of "EventHeaderSize + length file + BinlogChecksumLength"]
    by (simp add: event_ok_def EventHeaderSize_def BinlogChecksumLength_def StringToBytes_def del: of_nat_add)
  ultimately show "\<exists>h crc. buildHeartbeatEvent file sid pos = event_bytes h (StringToBytes file) crc \<and> event_ok h (StringToBytes file) crc \<and>
      h_EventType h = HEARTBEAT_EVENT \<and> LogPos h = pos" by fastforce
  have "buildFakeRotateEvent sid file True =
      event_bytes ?r (le64 4 @ StringToBytes file) (le32 (ChecksumIEEE (encodeEventHeader ?r @ le64 4 @ StringToBytes file)))"
    by (simp add: buildFakeRotateEvent_def Let_def flip: encodeEventHeader_bytes)
  moreover have "event_ok ?r (le64 4 @ StringToBytes file) (le32 crc)" for crc
    using assms u [of "EventHeaderSize + 8 + length file + BinlogChecksumLength"]
    by (simp add: event_ok_def EventHeaderSize_def BinlogChecksumLength_def StringToBytes_def del: of_nat_add)
  ultimately show "\<exists>h crc. buildFakeRotateEvent sid file True = event_bytes h (le64 4 @ StringToBytes file) crc \<and>
      event_ok h (le64 4 @ StringToBytes file) crc \<and> h_EventType h = ROTATE_EVENT" by fastforce
qed

text \<open>Without a checksum the header of the rotate event counts four bytes that are not sent.\<close>

theorem fake_rotate_without_checksum:
  assumes "length file + 31 < 2 ^ 32"
  shows "\<exists>h. EventHeader_Decode (buildFakeRotateEvent sid file False) = Ok h \<and>
    unat (EventSize h) = length (buildFakeRotateEvent sid file False) + BinlogChecksumLength"
proof -
  let ?n = "EventHeaderSize + 8 + length file + BinlogChecksumLength"
  have u: "unat (of_nat ?n :: u32) = ?n"
    using assms by (simp add: unat_of_nat take_bit_nat_eq_self EventHeaderSize_def BinlogChecksumLength_def del: of_nat_add)
  then have "\<not> (of_nat ?n :: u32) < of_nat EventHeaderSize" unfolding word_less_nat_alt u by (simp add: EventHeaderSize_def)
  then show ?thesis
    using u by (simp add: EventHeader_Decode_def buildFakeRotateEvent_def encodeEventHeader_def Let_def nth_append StringToBytes_def
        EventHeaderSize_def del: of_nat_add)
qed

section \<open>A sample\<close>

text \<open>A store with one previous-GTIDs event, and a slave that dumps from it.\<close>

definition dump_store :: MetaStore where
  "dump_store = empty_store\<lparr>ms_bucket :=
     [(path_Join FdePrefix (pad20 1), replicate 21 0), (path_Join NextBinlogPrefix (pad20 1), StringToBytes ''bin.000001''),
      (path_Join PgePrefix (pad20 2), GTIDSet_Encode [])]\<rparr>"

definition dump_env :: cmd_env where
  "dump_env = \<lparr>ce_net = net_ok, ce_texts = (\<lambda>_. []), ce_parse = (\<lambda>_. None), ce_now = 0, ce_os = os_ok, ce_store = dump_store,
     ce_masterInfo = (\<lambda>_. None), ce_progress = fresh_progress, ce_disk = trx_disk\<rparr>"

definition sample_conn :: "u32 \<Rightarrow> Conn" where
  "sample_conn i = \<lparr>base = NewBaseConn [], capability = 0, connectionID = i, conn_status = 0, conn_user = [], salt = [],
     conn_closed = False, userVariables = [(SlaveUUID, VString ''u'')]\<rparr>"

definition sample_slave :: Slave where
  "sample_slave = \<lparr>sl_State = REGISTERED, sl_ServerID = 0, sl_UUID = ''u'', sl_HostName = [], sl_Port = 0, sl_Rank = 0, sl_MasterID = 0,
     sl_User = [], sl_Password = [], sl_ConnectTime = 0, sl_HeartBeat = 0, sl_Conn = 1\<rparr>"

definition sample_binlog_server :: BinlogServer where
  "sample_binlog_server = \<lparr>bsv_started = True, slaves = [(''u'', sample_slave)], closed_conns = []\<rparr>"

lemma dump_store_cursors:
  "cursor FdePrefix (ms_bucket dump_store) = [(path_Join FdePrefix (pad20 1), replicate 21 0)]"
  "cursor NextBinlogPrefix (ms_bucket dump_store) = [(path_Join NextBinlogPrefix (pad20 1), StringToBytes ''bin.000001'')]"
  "cursor PgePrefix (ms_bucket dump_store) = [(path_Join PgePrefix (pad20 2), GTIDSet_Encode [])]"
proof -
  have c: "CHR ''f'' < CHR ''n''" "CHR ''f'' < CHR ''p''" "CHR ''n'' < CHR ''p''" by code_simp+
  show "cursor FdePrefix (ms_bucket dump_store) = [(path_Join FdePrefix (pad20 1), replicate 21 0)]"
    "cursor NextBinlogPrefix (ms_bucket dump_store) = [(path_Join NextBinlogPrefix (pad20 1), StringToBytes ''bin.000001'')]"
    "cursor PgePrefix (ms_bucket dump_store) = [(path_Join PgePrefix (pad20 2), GTIDSet_Encode [])]"
    using c by (simp_all add: cursor_def dump_store_def HasPrefix_def path_Join_def PgePrefix_def FdePrefix_def NextBinlogPrefix_def)
qed

lemma dump_store_open: "ms_open dump_store" "os_ok SysRead MetadataFile"
  by (simp_all add: dump_store_def empty_store_def)

lemma dump_store_answers:
  "GetMySQLDumpAt os_ok dump_store sample_set = Ok 2"
  "BinlogServer_GetFde os_ok dump_store 2 = Ok (replicate 21 0)"
  "BinlogServer_GetNextBinlogFile os_ok dump_store 2 = Ok ''bin.000001''"
proof -
  have e: "DecodeMysqlGTIDSet (GTIDSet_Encode []) = Ok []" by (rule DecodeMysqlGTIDSet_Encode) (simp add: gtids_storable_def)
  have n: "sample_set \<noteq> []" by (simp add: sample_set_def)
  have f: "BytesToString (StringToBytes ''bin.000001'') = ''bin.000001''" by code_simp
  note k = key_index_join [OF prefix_plain(2,1)] key_index_join [OF prefix_plain(4,3)] key_index_join [OF prefix_plain(6,5)]
  show "GetMySQLDumpAt os_ok dump_store sample_set = Ok 2"
    using e n dump_store_open by (simp add: GetMySQLDumpAt_def GetPreviousGtidSet_def View_def dump_store_cursors k GTIDSet_Contain_def)
  show "BinlogServer_GetFde os_ok dump_store 2 = Ok (replicate 21 0)"
    using dump_store_open by (simp add: BinlogServer_GetFde_def GetFde_def View_def dump_store_cursors k)
  show "BinlogServer_GetNextBinlogFile os_ok dump_store 2 = Ok ''bin.000001''"
    using dump_store_open f by (simp add: BinlogServer_GetNextBinlogFile_def GetNextBinlogFile_def View_def dump_store_cursors k)
qed

lemma dump_store_check: "CheckGtidSet os_ok dump_store [] sample_set = Ok ()"
proof -
  have n: "path_Join MySQLFlavor GtidPurgedKey \<notin> {[], path_Join FdePrefix x, path_Join NextBinlogPrefix x, path_Join PgePrefix y}" for x y
    by (simp add: path_Join_def MySQLFlavor_def PgePrefix_def FdePrefix_def NextBinlogPrefix_def)
  then have "map_of (ms_bucket dump_store) (path_Join MySQLFlavor GtidPurgedKey) = None"
    by (simp add: dump_store_def)
  then have "GetGtidSet os_ok dump_store MySQLFlavor GtidPurgedKey = Ok []"
    using n dump_store_open by (simp add: GetGtidSet_def Get_def View_def)
  then show ?thesis by (simp add: CheckGtidSet_def ParseMysqlGTIDSet_def list_ex_iff GTIDSet_Contain_def)
qed
definition dump_request :: bytes where
  "dump_request = le16 0 @ le32 1 @ le32 (of_nat (length ([] :: bytes))) @ [] @ le64 4 @ le32 0 @ GTIDSet_Encode sample_set"

lemma sample_set_storable: "gtids_storable sample_set"
proof -
  have "''01010101-0101-0101-0101-010101010101'' = UUID_String (replicate 16 1)" by code_simp
  then show ?thesis by (simp add: gtids_storable_def sample_set_def UUIDSet_storable_def int64_def)
qed
lemma sample_open: "\<not> closed (sent_bytes w q (sample_conn i), sample_binlog_server)" "\<not> closed (sample_conn i, sample_binlog_server)"
  by (simp_all add: closed_def sample_conn_def sample_binlog_server_def sent_bytes_def)

lemma sample_dump:
  "\<exists>w q. handleBinlogDumpGtid dump_env [] dump_request (sample_conn 1, sample_binlog_server) =
     (Ok (), (sent_bytes w q (sample_conn 1), sample_binlog_server))"
proof -
  have p: "parseMysqlGtidDumpPacket dump_request = Ok (sample_set, 1)"
    unfolding dump_request_def by (rule parse_dump_request [OF sample_set_storable]) simp
  have n: "ce_net dump_env = net_ok" by (simp add: dump_env_def)
  have r: "\<exists>w q. sendFakeRotateEvent dump_env 0 ''bin.000001'' (sample_conn 1, sample_binlog_server) =
      (Ok (), (sent_bytes w q (sample_conn 1), sample_binlog_server))"
    using send_bytes_ok [OF n sample_open(2), of True "buildFakeRotateEvent 0 ''bin.000001'' False" 1]
    by (auto simp: sendFakeRotateEvent_def Let_def get_variable_def sample_conn_def variable_names sent_packet_bytes
        buildFakeRotateEvent_def encodeEventHeader_def StringToBytes_def MaxPayloadLen_def)
  have f: "\<exists>w' q'. sendFormatDescriptionEvent dump_env (replicate 21 0) (sent_bytes w q (sample_conn 1), sample_binlog_server) =
      (Ok (), (sent_bytes w' q' (sample_conn 1), sample_binlog_server))" for w q
  proof -
    let ?d = "take 17 (take 13 (replicate 21 0) @ le32 0 @ drop 17 (replicate 21 0)) :: bytes"
    have "length ((if True then [0] else []) @ ?d @ le32 (ChecksumIEEE ?d)) \<le> MaxPayloadLen" by (simp add: MaxPayloadLen_def)
    from send_bytes_ok [OF n sample_open(1) this] show ?thesis
      unfolding sendFormatDescriptionEvent_def Let_def by (auto simp: sent_packet_bytes)
  qed
  obtain d where "DumpBinlogAt trx_disk 2 = Ok d" using trx_dump_at [of 1] by auto
  moreover obtain w q where w: "sendFakeRotateEvent dump_env 0 ''bin.000001'' (sample_conn 1, sample_binlog_server) =
      (Ok (), (sent_bytes w q (sample_conn 1), sample_binlog_server))" using r by blast
  moreover obtain w' q' where "sendFormatDescriptionEvent dump_env (replicate 21 0) (sent_bytes w q (sample_conn 1), sample_binlog_server) =
      (Ok (), (sent_bytes w' q' (sample_conn 1), sample_binlog_server))" using f by blast
  moreover have e: "ce_os dump_env = os_ok" "ce_store dump_env = dump_store" "executedGtidSetStr (ce_progress dump_env) = []"
    "ce_disk dump_env = trx_disk" by (simp_all add: dump_env_def fresh_progress_def)
  moreover have "get_le32 (drop 5 (replicate 21 0)) = Some 0" by code_simp
  ultimately have d: "dump_prelude dump_env sample_set (sample_conn 1, sample_binlog_server) =
      (Ok (0, d), (sent_bytes w' q' (sample_conn 1), sample_binlog_server))"
    unfolding dump_prelude_def e store_outcome_def
    by (simp only: dump_store_answers dump_store_check outcome.case sbind_simps must_simps)
  have "get_variable SlaveUUID (sample_conn 1, sample_binlog_server) = Some (VString ''u'')"
    "get_variable MasterHeartbeatPeriod (sent_bytes w' q' (sample_conn 1), sample_binlog_server) = None"
    by (simp_all add: get_variable_def sample_conn_def sent_bytes_def variable_names)
  then show ?thesis unfolding handleBinlogDumpGtid_def p using d by auto
qed
definition register_request :: bytes where
  "register_request = le32 2 @ [0] @ [] @ [0] @ [] @ [0] @ [] @ le16 0 @ le32 0 @ le32 0"

lemma sample_register:
  "\<exists>b1 s1. handleRegisterSlave dump_env register_request (sample_conn 2, sample_binlog_server) = (Ok (), (b1, s1))"
proof -
  have n: "ce_net dump_env = net_ok" by (simp add: dump_env_def)
  obtain sl where p: "parse_slave register_request = Ok sl"
    using parse_slave_bytes [of "[]" "[]" "[]" register_request 2 0 0 0] by (simp add: register_request_def)
  let ?s = "UnregisterSlave ''u'' sample_binlog_server"
  have k: "killZombieDumpThreads (sample_conn 2, sample_binlog_server) = (Ok (), (sample_conn 2, ?s))"
    by (simp add: killZombieDumpThreads_def sample_conn_def sample_binlog_server_def sample_slave_def GetSlaves_def)
  have "set (closed_conns ?s) = {1}"
    by (simp add: UnregisterSlave_def sample_binlog_server_def sample_slave_def close_conn_def)
  then have c: "\<not> closed (sample_conn 2, ?s\<lparr>slaves := x\<rparr>)" for x by (simp add: closed_def sample_conn_def)
  have v: "get_variable SlaveUUID (sample_conn 2, ?s) = Some (VString ''u'')" by (simp add: get_variable_def sample_conn_def)
  show ?thesis
    using p k v writeOK_sends [of "sample_conn 2"] c
    by (auto simp: handleRegisterSlave_def RegisterSlave_def Let_def reply_def n)
qed

theorem old_dump_closes_new_slave_witness:
  "\<exists>b1 s1 a2 s2. handleRegisterSlave dump_env register_request (sample_conn 2, sample_binlog_server) = (Ok (), (b1, s1)) \<and>
     handleBinlogDumpGtid dump_env [Others s1, CtxDone] dump_request (sample_conn 1, sample_binlog_server) = (Err ErrCanceled, (a2, s2)) \<and>
     map_of (GetSlaves s2) ''u'' = None \<and> closed (b1, s2)"
proof -
  obtain w q where d: "handleBinlogDumpGtid dump_env [] dump_request (sample_conn 1, sample_binlog_server) =
    (Ok (), (sent_bytes w q (sample_conn 1), sample_binlog_server))" using sample_dump by blast
  obtain b1 s1 where r: "handleRegisterSlave dump_env register_request (sample_conn 2, sample_binlog_server) = (Ok (), (b1, s1))"
    using sample_register by blast
  have u: "get_variable SlaveUUID (sample_conn i, sample_binlog_server) = Some (VString ''u'')" for i
    by (simp add: get_variable_def sample_conn_def)
  have "map_of (GetSlaves sample_binlog_server) ''u'' = Some sample_slave" "sl_Conn sample_slave = connectionID (sent_bytes w q (sample_conn 1))"
    "connectionID (sent_bytes w q (sample_conn 1)) \<noteq> connectionID (sample_conn 2)"
    by (simp_all add: GetSlaves_def sample_binlog_server_def sample_slave_def sample_conn_def sent_bytes_def)
  from old_dump_closes_new_slave [OF d u this u r] show ?thesis using r by auto
qed

text \<open>A syncer that gets one event, and the dump that writes it.\<close>

definition sample_syncer :: Syncer where
  "sample_syncer = (NewSyncer
     \<lparr>cfg_ServerID = 1, cfg_ServerUuid = [], cfg_Flavor = MySQLFlavor, cfg_Host = [], cfg_Port = 1, cfg_User = [], cfg_Password = [],
      cfg_Charset = [], cfg_SemiSyncEnabled = False, cfg_RawModeEnabled = False, cfg_ParseTime = False, cfg_UseDecimal = True,
      cfg_RecvBufferSize = 0, cfg_HeartbeatPeriod = 1, cfg_ReadTimeout = 1, cfg_MaxReconnectAttempts = 3, cfg_VerifyChecksum = True,
      cfg_MaxEventBytes = MaxRequestBytes\<rparr>)\<lparr>sy_started := True\<rparr>"

definition small_master_event :: MasterEvent where
  "small_master_event = \<lparr>RawData = [1, 2, 3],
     me_Header = \<lparr>Timestamp = 0, h_EventType = XID_EVENT, ServerID = 1, EventSize = 3, LogPos = 0, Flags = 0\<rparr>\<rparr>"

theorem master_to_slave_witness:
  "\<exists>s1 w q. sync_loop (\<lambda>_. False) [Some small_master_event] sample_syncer = (Ok (), s1) \<and> framed_all 0 [[0, 1, 2, 3]] w q \<and>
     dump_loop dump_env 1 (map GotEvent (binlogEventC s1)) (sample_conn 1, sample_binlog_server) =
       (Ok (), (sent_bytes w q (sample_conn 1), sample_binlog_server))"
proof -
  have "sy_started sample_syncer" "cfg_Flavor (sy_cfg sample_syncer) = MySQLFlavor" "binlogEventC sample_syncer = []"
    "list_all master_event [small_master_event]" "list_all (\<lambda>e. length (RawData e) mod MaxPayloadLen \<noteq> 0) [small_master_event]"
    by (simp_all add: sample_syncer_def NewSyncer_def small_master_event_def master_event_def MaxPayloadLen_def)
  moreover have "ce_net dump_env = net_ok" by (simp add: dump_env_def)
  ultimately show ?thesis
    using master_to_slave [where evs = "[small_master_event]" and c = "sample_conn 1" and s = sample_binlog_server and m = 1] sample_open(2) [of 1]
    by (simp add: small_master_event_def sample_conn_def NewBaseConn_def event_types)
qed

theorem connection_loop_witness:
  "typed (snd (Run [(dump_env, [])] ((sample_conn 1)\<lparr>userVariables := []\<rparr>, sample_binlog_server))) \<and>
   (fst (Run [(dump_env, [])] ((sample_conn 1)\<lparr>userVariables := []\<rparr>, sample_binlog_server)) \<or>
    closed (snd (Run [(dump_env, [])] ((sample_conn 1)\<lparr>userVariables := []\<rparr>, sample_binlog_server))))"
  using connection_loop [of "(sample_conn 1)\<lparr>userVariables := []\<rparr>" "[(dump_env, [])]" sample_binlog_server] by simp

end
