(* ===== verification/Spec2Isabelle.thy ===== *)
theory Spec2Isabelle
  imports Command_Properties
begin

text \<open>
  \<^bold>\<open>A verification library for kingbus\<close>

  kingbus is a distributed store of MySQL binlogs. Its \<^emph>\<open>syncer\<close> registers at a MySQL master as a slave and proposes
  every binlog event to a raft group; every server of the group keeps the raft log on disk and \<^emph>\<open>applies\<close> the
  committed entries, by which it follows the transactions and the executed GTIDs; its \<^emph>\<open>binlog server\<close> serves the
  events of the log to MySQL slaves over the MySQL protocol. The library follows the path of an event: from
  the master through the syncer into the log, from the log through applying into the progress, and from the log
  through a dump to the slave.

  \<^bold>\<open>Conventions.\<close> A call of the code is a value of \<^typ>\<open>('e, 'a) outcome\<close>: \<^const>\<open>Ok\<close>, \<^const>\<open>Err\<close> for a returned error, \<^const>\<open>Crash\<close>
  for a panic or a fatal exit. An operation that changes state returns its outcome with the new state, also when it
  fails. Fixed-width integers are words; an \<^verbatim>\<open>int64\<close> of a GTID is an \<^typ>\<open>int\<close> with the wrap-around written out. A Go map is
  the list of its pairs in the order of an iteration. Locks, log messages and metrics are left out. System calls,
  the network, the clock, random numbers, \<^verbatim>\<open>encoding/json\<close>, the SQL parser, the MySQL driver and the raft library are parameters.

  \<^bold>\<open>Theories\<close>, with the files under \<^verbatim>\<open>src/\<close> that they model:

  \<^item> \<^verbatim>\<open>Kingbus_Prelude\<close>: outcomes, slices, \<^verbatim>\<open>encoding/binary\<close>, CRC-32, and the facts that all theories share.
  \<^item> \<^verbatim>\<open>Record_Codec\<close>, \<^verbatim>\<open>Raft_Entry\<close>, \<^verbatim>\<open>Conf_Change\<close>: the generated codecs of \<^verbatim>\<open>storage/storagepb/record.pb.go\<close> and of the
    vendored \<^verbatim>\<open>raftpb\<close>, and the envelopes of \<^verbatim>\<open>utils/pb_utils.go\<close>. The locale \<open>message_codec\<close> is their contract (size, round
    trip, injectivity), interpreted for all four messages.
  \<^item> \<^verbatim>\<open>Storage_Base\<close>, \<^verbatim>\<open>Mmap_File\<close>, \<^verbatim>\<open>Log_Index\<close>, \<^verbatim>\<open>Log_Segment\<close>, \<^verbatim>\<open>Disk_Storage\<close>: the log on disk, \<^verbatim>\<open>storage/mmap_file.go\<close>,
    \<^verbatim>\<open>index.go\<close>, \<^verbatim>\<open>segment.go\<close> and \<^verbatim>\<open>disk_storage.go\<close>, down to the bytes of the files.
  \<^item> \<^verbatim>\<open>Disk_Log\<close>, \<^verbatim>\<open>Disk_Recovery\<close>, \<^verbatim>\<open>Disk_Properties\<close>: what the storage promises. \<open>storage_holds\<close> relates a storage to a first
    index and a list of entries. The step relation \<open>disk_step\<close> interleaves saves, truncations and the steps of the purging
    goroutine; \<open>waiting\<close> are the segments that it has taken out of the storage and not yet removed. The locale \<open>raft_log\<close> is the contract of the read side; it is interpreted on the disk
    storage, and the terms and the entry reader rest on it.
  \<^item> \<^verbatim>\<open>Gtid_Set\<close>, \<^verbatim>\<open>Meta_Store\<close>: the vendored GTID sets and \<^verbatim>\<open>storage/meta_storage.go\<close>. The locale \<open>kv_bucket\<close> is the contract
    of the bucket. The record of the store has the history of the contents that the transactions committed (\<open>ms_commits\<close>), which no
    operation reads: it shows what a process that stops leaves behind.
  \<^item> \<^verbatim>\<open>Binlog_Event\<close>, \<^verbatim>\<open>Trx_Boundary\<close>, \<^verbatim>\<open>Binlog_Progress\<close>: decoding of events, \<^verbatim>\<open>mysql/trx_boundary_parser.go\<close> and
    \<^verbatim>\<open>server/binlog_progress.go\<close>. The inductive set of complete transactions is the specification of the parser.
  \<^item> \<^verbatim>\<open>Membership\<close>: \<^verbatim>\<open>raft/membership/member.go\<close> and \<^verbatim>\<open>cluster.go\<close>, with SHA-1, from which ids are made.
  \<^item> \<^verbatim>\<open>Server_Apply\<close>, \<^verbatim>\<open>Apply_Properties\<close>: \<^verbatim>\<open>server/apply.go\<close> with \<^verbatim>\<open>raft.MustGetAppliedIndex\<close> and the fields of
    \<^verbatim>\<open>KingbusServer\<close> that it changes.
  \<^item> \<^verbatim>\<open>Mysql_Packet\<close>: \<^verbatim>\<open>mysql/base_conn.go\<close>. The relation \<open>framed\<close> is the framing of the protocol.
  \<^item> \<^verbatim>\<open>Binlog_Syncer\<close>: \<^verbatim>\<open>server/binlog_syncer.go\<close> and \<^verbatim>\<open>config/server_config.go\<close>.
  \<^item> \<^verbatim>\<open>Binlog_Server\<close>: \<^verbatim>\<open>server/binlog_server.go\<close> and \<^verbatim>\<open>mysql/status.go\<close>. The goroutine of a dump is a step function.
  \<^item> \<^verbatim>\<open>Mysql_Conn\<close>, \<^verbatim>\<open>Mysql_Command\<close>, \<^verbatim>\<open>Command_Properties\<close>: \<^verbatim>\<open>mysql/conn.go\<close>, \<^verbatim>\<open>auth.go\<close>, \<^verbatim>\<open>resp.go\<close> and \<^verbatim>\<open>command.go\<close>. A \<open>session\<close> is a
    connection together with the server that it shares; what the \<^verbatim>\<open>select\<close> of a dump receives, and what other
    connections do meanwhile, is the list of its inputs (\<open>dump_input\<close>).
\<close>

text \<open>
  \<^bold>\<open>What is shown.\<close>

  \<^item> \<^emph>\<open>Log.\<close> Every run of a storage refines the list of entries (C1); the single operations and their errors (C2, C3,
    C5, C15 to C17); a storage that is opened again, after \<^verbatim>\<open>Close\<close> or after a stop without it, holds the same log (C4, C6),
    when its last segment holds an entry; a log without entries cannot be opened again (\<open>reopen_empty_log_crashes\<close>).
  \<^item> \<^emph>\<open>Metadata and wire formats.\<close> The progress is stored as a whole or not at all (C22); the index from which a
    slave is served (C23); the purged set (C24); the round trip of a record (C40).
  \<^item> \<^emph>\<open>Progress.\<close> The parser accepts exactly sequences of complete transactions (C27); a GTID becomes executed with the last event
    of its transaction (C8); the stored progress is not far behind (C28), and after a restart applying the entries that
    follow it restores the state (C7).
  \<^item> \<^emph>\<open>Cluster.\<close> Members agree on ids (C29, C32), admitted changes keep a quorum of started members (C30, C31), and the saved cluster is read back (C33),
    as far as its texts are UTF-8.
  \<^item> \<^emph>\<open>Protocol.\<close> Packets (C13), the events from the master to the slave (C11), the login (C12), the
    loop of a connection (C37). C11 is about the syncer and the dump alone: applying an event that needs more than one packet
    ends the server (\<open>large_event_stops_server\<close>).
  \<^item> \<^emph>\<open>Dump.\<close> A dump sends exactly the events that the slave lacks, in order (C9), and reaches every applied entry (C10); which
    slaves are accepted (C14).
  \<^item> \<^emph>\<open>Where the code does not do what it means to\<close>: C18 to C21, C25, C26, C34 to C36, C38 and C39 are the exact behaviour of
    the code in cases in which it differs from its comments or from its purpose.

  \<^bold>\<open>Bounds and fuel.\<close> Only the skipping of unknown fields (\<open>skipRecord_fuel\<close>) has fuel, twice the length of the message and one,
  which is proved to be enough. All other recursions are structural or have a termination proof. \<open>SegmentSize\<close> is the
  parameter \<open>N\<close> of the storage, at most \<open>2 ^ 32\<close> since the index files hold 32-bit offsets. The size of a message
  is an \<^verbatim>\<open>int\<close> of 64 bits, as the generated codecs require. Loops that wait for events (\<^verbatim>\<open>Conn.Run\<close>, the dump, the syncer) are
  functions of the list of inputs they have received, and \<open>Ok\<close> at its end means that they wait for the next; a connection whose
  dump waits reads no further command.

  \<^bold>\<open>Not modelled.\<close> \<^verbatim>\<open>server/server.go\<close> apart from the state that applying changes: it starts and stops goroutines, sockets and
  the transport, and waits for the raft library. The loop of \<^verbatim>\<open>raft/raft.go\<close>, which drives the raft library through its channel, and
  the raft library itself. \<^verbatim>\<open>raft/peer_handler.go\<close> and \<^verbatim>\<open>api/\<close>: HTTP handlers over the operations that are modelled.
  \<^verbatim>\<open>BinlogServer.Start\<close>, \<^verbatim>\<open>Stop\<close> and \<^verbatim>\<open>onConn\<close>, which own the listening socket. \<^verbatim>\<open>storage/memory_storage.go\<close>, which delegates to
  the raft library. \<^verbatim>\<open>config/config.go\<close> apart from the syncer's record: options read by a library. The timer
  of the heartbeats (\<^verbatim>\<open>resetTime\<close>); a firing is an input of the dump. Logging, metrics, the broadcast variable, the command line and the tools.
\<close>

text \<open>C40: a \<^verbatim>\<open>storagepb.Record\<close> that is marshalled and unmarshalled into a fresh record comes back
  unchanged, for every record whose size is an \<^verbatim>\<open>int\<close> and that has no unrecognized bytes.\<close>

theorem Record_roundtrip:
  "Record_storable m \<Longrightarrow> obind (Record_Marshal m) (Record_Unmarshal new_Record) = Ok m"
  by (rule recc.roundtrip)

theorem Record_roundtrip_witness:
  "obind (Record_Marshal \<lparr>Crc = 7, Data = Some [1, 2], XXX_unrecognized = []\<rparr>)
     (Record_Unmarshal new_Record) = Ok \<lparr>Crc = 7, Data = Some [1, 2], XXX_unrecognized = []\<rparr>"
  by (rule Record_roundtrip) (simp add: Record_storable_def Record_Size_def sovRecord.simps)

end
